(* ===== verification/Prelude.thy ===== *)
theory Prelude
  imports Complex_Main
begin

text \<open>
  Shared vocabulary and automation of the development: the collections the component
  theories add their facts to, and generic lemmas on lists, options and maps that more
  than one component uses.
\<close>

named_theorems float_eval \<open>exact results of floating-point operations on representable values\<close>
named_theorems state_simps \<open>projections of the state updates made by the components\<close>

subsection \<open>Go values that the components share\<close>

text \<open>
  A Go string is a sequence of bytes; an Isabelle \<^typ>\<open>char\<close> is exactly one byte, so
  \<^typ>\<open>string\<close> is Go's string.  A rune is a Unicode code point (Go's \<open>int32\<close>, never
  negative here).  A \<open>time.Duration\<close> is a signed count of nanoseconds.
\<close>

type_synonym rune = nat
type_synonym duration = int

text \<open>Integer division of Go truncates towards zero; division by zero is the caller's panic.\<close>

definition go_div :: "int \<Rightarrow> int \<Rightarrow> int" where
  "go_div a b = sgn a * sgn b * (\<bar>a\<bar> div \<bar>b\<bar>)"

lemma go_div_nonneg: "0 \<le> a \<Longrightarrow> 0 < b \<Longrightarrow> go_div a b = a div b"
  by (cases "a = 0") (auto simp: go_div_def sgn_if)

text \<open>A loop body that may panic, run over a list: the first panic ends the loop.\<close>

fun fold_option :: "('a \<Rightarrow> 's \<Rightarrow> 's option) \<Rightarrow> 'a list \<Rightarrow> 's \<Rightarrow> 's option" where
  "fold_option f [] s = Some s"
| "fold_option f (x # xs) s = (case f x s of None \<Rightarrow> None | Some s' \<Rightarrow> fold_option f xs s')"

lemma fold_option_append:
  "fold_option f (xs @ ys) s = (case fold_option f xs s of None \<Rightarrow> None | Some s' \<Rightarrow> fold_option f ys s')"
  by (induction xs arbitrary: s) (auto split: option.splits)

lemma fold_option_invariant:
  assumes "fold_option f xs s = Some t" and "I s"
    and "\<And>x s s'. x \<in> set xs \<Longrightarrow> I s \<Longrightarrow> f x s = Some s' \<Longrightarrow> I s'"
  shows "I t"
  using assms
proof (induction xs arbitrary: s)
  case (Cons x xs)
  then obtain s' where s': "f x s = Some s'" "fold_option f xs s' = Some t"
    by (auto split: option.splits)
  from Cons.prems(2) s'(1) have "I s'" by (rule Cons.prems(3) [OF list.set_intros(1)])
  with s'(2) Cons.IH Cons.prems(3) show ?case by (meson list.set_intros(2))
qed simp

subsection \<open>Lists\<close>

lemma takeWhile_neq_append_Cons [simp]:
  "d \<notin> set xs \<Longrightarrow> takeWhile (\<lambda>c. c \<noteq> d) (xs @ d # ys) = xs"
  by (induction xs) auto

lemma dropWhile_neq_append_Cons [simp]:
  "d \<notin> set xs \<Longrightarrow> dropWhile (\<lambda>c. c \<noteq> d) (xs @ d # ys) = d # ys"
  by (induction xs) auto

lemma takeWhile_neq_id [simp]: "d \<notin> set xs \<Longrightarrow> takeWhile (\<lambda>c. c \<noteq> d) xs = xs"
  by (induction xs) auto

lemma dropWhile_neq_Nil [simp]: "d \<notin> set xs \<Longrightarrow> dropWhile (\<lambda>c. c \<noteq> d) xs = []"
  by (induction xs) auto

lemma not_in_set_takeWhile_neq: "d \<notin> set (takeWhile (\<lambda>c. c \<noteq> d) xs)"
  by (induction xs) auto

lemma take_Suc_update:
  "k < length xs \<Longrightarrow> take (Suc k) (xs[k := x]) = take k xs @ [x]"
  by (simp add: take_Suc_conv_app_nth)

text \<open>Changing one entry of a list changes a sum over it by that entry.\<close>

lemma sum_list_map_update:
  fixes f :: "'a \<Rightarrow> 'b :: comm_monoid_add"
  shows "k < length xs \<Longrightarrow> f (xs ! k) + sum_list (map f (xs[k := x])) = f x + sum_list (map f xs)"
proof (induction xs arbitrary: k)
  case (Cons y ys)
  show ?case
  proof (cases k)
    case 0
    then show ?thesis by (simp add: ac_simps)
  next
    case (Suc j)
    have "f (ys ! j) + sum_list (map f (ys[j := x])) = f x + sum_list (map f ys)"
      using Cons Suc by simp
    then show ?thesis using Suc by (simp add: add.left_commute [of _ "f y"])
  qed
qed simp

text \<open>Rounds over a list.\<close>

lemma concat_replicate_snoc: "concat (replicate (Suc k) xs) = concat (replicate k xs) @ xs"
  by (induction k) auto

end
