(* ===== verification/Float_Facts.thy ===== *)
theory Float_Facts
  imports Go_Float
begin

text \<open>
  What rounding guarantees: the laws of \<^const>\<open>rnd\<close> are proved once for any format in the
  locale \<open>float_format\<close>, and interpreted for binary64 and binary32.
\<close>

subsection \<open>The binary logarithm\<close>

lemma powi_le_iff: "(2::rat) powi a \<le> 2 powi b \<longleftrightarrow> a \<le> b"
proof
  show "(2::rat) powi a \<le> 2 powi b" if "a \<le> b"
    using that by (simp add: power_int_increasing)
  show "a \<le> b" if "(2::rat) powi a \<le> 2 powi b"
    using that power_int_strict_increasing [of b a "2::rat"] by (cases "a \<le> b") auto
qed

lemma powi_less_iff: "(2::rat) powi a < 2 powi b \<longleftrightarrow> a < b"
  using powi_le_iff [of b a] by auto

lemma bitlen_powi:
  assumes "0 < n"
  shows "(2::rat) powi (bitlen n - 1) \<le> of_int n" and "of_int n < (2::rat) powi bitlen n"
proof -
  have b: "2 ^ nat (bitlen n - 1) \<le> n \<and> n < 2 ^ nat (bitlen n)"
    using assms by (rule bitlen_bounds)
  have "1 \<le> bitlen n"
    using assms by (simp add: bitlen_ge_iff_power)
  then have e: "(2::rat) powi (bitlen n - 1) = of_int (2 ^ nat (bitlen n - 1))"
      "(2::rat) powi bitlen n = of_int (2 ^ nat (bitlen n))"
    by (simp_all add: power_int_def)
  show "(2::rat) powi (bitlen n - 1) \<le> of_int n" "of_int n < (2::rat) powi bitlen n"
    using b unfolding e by (simp_all only: of_int_le_iff of_int_less_iff)
qed

lemma ilog2_bounds:
  assumes "0 < q"
  shows "2 powi ilog2 q \<le> q" and "q < 2 powi (ilog2 q + 1)"
proof -
  obtain n d where nd: "quotient_of q = (n, d)"
    by (cases "quotient_of q")
  then have d: "0 < d" and q: "q = of_int n / of_int d"
    by (auto simp: quotient_of_denom_pos quotient_of_div)
  with assms have n: "0 < n"
    by (simp add: zero_less_divide_iff)
  let ?bn = "bitlen n" and ?bd = "bitlen d"
  note bn = bitlen_powi [OF n] and bd = bitlen_powi [OF d]
  have low: "2 powi (?bn - ?bd - 1) \<le> q"
  proof -
    have "(2::rat) powi (?bn - ?bd - 1) = 2 powi (?bn - 1) / 2 powi ?bd"
      by (simp add: power_int_diff)
    also have "\<dots> \<le> of_int n / of_int d"
      using bn(1) bd(2) d n by (intro frac_le) auto
    finally show ?thesis using q by simp
  qed
  have high: "q < 2 powi (?bn - ?bd + 1)"
  proof -
    have "of_int n / of_int d < (2::rat) powi ?bn / 2 powi (?bd - 1)"
      using bn(2) bd(1) n by (intro frac_less) auto
    also have "\<dots> = 2 powi (?bn - ?bd + 1)"
      by (simp add: power_int_diff power_int_add)
    finally show ?thesis using q by simp
  qed
  show "2 powi ilog2 q \<le> q" "q < 2 powi (ilog2 q + 1)"
    using low high by (auto simp: ilog2_def nd Let_def)
qed

lemma ilog2_unique:
  assumes "2 powi k \<le> q" and "q < 2 powi (k + 1)"
  shows "ilog2 q = k"
proof -
  have "0 < (2::rat) powi k" by simp
  with assms(1) have "0 < q" by linarith
  note b = ilog2_bounds [OF this]
  have "(2::rat) powi k < 2 powi (ilog2 q + 1)" and "(2::rat) powi ilog2 q < 2 powi (k + 1)"
    using assms b by linarith+
  then show ?thesis
    unfolding powi_less_iff by linarith
qed

lemma le_ilog2_iff:
  assumes "0 < q"
  shows "k \<le> ilog2 q \<longleftrightarrow> 2 powi k \<le> q"
proof
  assume "k \<le> ilog2 q"
  then have "(2::rat) powi k \<le> 2 powi ilog2 q" by (simp add: powi_le_iff)
  with ilog2_bounds(1) [OF assms] show "2 powi k \<le> q" by linarith
next
  assume "2 powi k \<le> q"
  with ilog2_bounds(2) [OF assms] have "(2::rat) powi k < 2 powi (ilog2 q + 1)" by linarith
  then show "k \<le> ilog2 q" unfolding powi_less_iff by linarith
qed

subsection \<open>Rounding to an integer\<close>

lemma round_half_even_dist: "\<bar>of_int (round_half_even q) - q\<bar> \<le> 1/2"
proof -
  have "of_int \<lfloor>q\<rfloor> \<le> q" "q < of_int \<lfloor>q\<rfloor> + 1"
    by (rule of_int_floor_le) linarith
  then show ?thesis
    unfolding round_half_even_def Let_def by (auto simp: abs_le_iff; linarith)
qed

lemma round_half_even_nearest:
  "\<bar>of_int (round_half_even q) - q\<bar> \<le> \<bar>of_int k - q\<bar>"
proof (cases "k = round_half_even q")
  case False
  then have "1 \<le> \<bar>k - round_half_even q\<bar>" by linarith
  then have "1 \<le> \<bar>(of_int k :: rat) - of_int (round_half_even q)\<bar>"
    by (metis of_int_1 of_int_abs of_int_diff of_int_le_iff)
  with round_half_even_dist [of q] show ?thesis by linarith
qed simp

lemma round_half_even_of_int [simp]: "round_half_even (of_int k) = k"
  by (simp add: round_half_even_def)

lemma round_half_even_mono:
  assumes "x \<le> y"
  shows "round_half_even x \<le> round_half_even y"
proof -
  have m: "\<lfloor>x\<rfloor> \<le> \<lfloor>y\<rfloor>" using assms by (rule floor_mono)
  show ?thesis
  proof (cases "\<lfloor>x\<rfloor> = \<lfloor>y\<rfloor>")
    case True
    with assms show ?thesis by (auto simp: round_half_even_def Let_def)
  next
    case False
    with m have "\<lfloor>x\<rfloor> + 1 \<le> \<lfloor>y\<rfloor>" by linarith
    then show ?thesis by (auto simp: round_half_even_def Let_def)
  qed
qed

lemma round_half_even_minus: "round_half_even (- q) = - round_half_even q"
proof (cases "q = of_int \<lfloor>q\<rfloor>")
  case True
  then show ?thesis by (metis of_int_minus round_half_even_of_int)
next
  case False
  then have f: "\<lfloor>- q\<rfloor> = - \<lfloor>q\<rfloor> - 1"
    by (metis ceiling_altdef floor_minus diff_conv_add_uminus minus_add_distrib)
  show ?thesis
    by (simp add: round_half_even_def Let_def f)
qed

lemma round_half_even_le:
  assumes "q \<le> of_int k"
  shows "round_half_even q \<le> k"
  using round_half_even_mono [OF assms] by simp

subsection \<open>Representable values and the laws of rounding\<close>

definition rep :: "fformat \<Rightarrow> rat \<Rightarrow> bool" where
  "rep F q \<longleftrightarrow> (\<exists>m e. q = of_int m * 2 powi e \<and> \<bar>m\<bar> < 2 ^ fprec F \<and> femin F \<le> e)"

locale float_format =
  fixes F :: fformat
  assumes prec_pos: "0 < fprec F"
    and emin_neg: "femin F \<le> 0"
begin

lemma rep_zero [simp]: "rep F 0"
  unfolding rep_def by (rule exI [of _ 0]) auto

lemma rep_minus: "rep F q \<Longrightarrow> rep F (- q)"
  unfolding rep_def by (metis abs_minus_cancel minus_mult_left of_int_minus)

lemma rep_scaled:
  assumes "\<bar>m\<bar> \<le> 2 ^ fprec F" and "femin F \<le> e"
  shows "rep F (of_int m * 2 powi e)"
proof (cases "\<bar>m\<bar> = 2 ^ fprec F")
  case True
  obtain p where p: "fprec F = Suc p"
    using prec_pos by (cases "fprec F") auto
  define h where "h = sgn m * 2 ^ p"
  have "m = sgn m * \<bar>m\<bar>" by (simp add: sgn_mult_abs)
  with True p have m: "m = h * 2" by (simp add: h_def)
  have "of_int m * (2::rat) powi e = of_int h * 2 powi (e + 1)"
    by (simp add: m power_int_add)
  moreover have "\<bar>h\<bar> < 2 ^ fprec F"
    by (auto simp: h_def p abs_mult sgn_if)
  moreover have "femin F \<le> e + 1" using assms(2) by simp
  ultimately show ?thesis
    unfolding rep_def by blast
next
  case False
  with assms show ?thesis
    unfolding rep_def by (metis order_le_imp_less_or_eq)
qed

lemma rep_powi: "femin F \<le> e \<Longrightarrow> rep F (2 powi e)"
  using rep_scaled [of 1 e] by simp

lemma rep_of_int: "\<bar>k\<bar> \<le> 2 ^ fprec F \<Longrightarrow> rep F (of_int k)"
  using rep_scaled [of k 0] emin_neg by simp

lemma quantum_ge: "femin F \<le> quantum F q"
  by (simp add: quantum_def)

lemma scaled_bound:
  assumes "q \<noteq> 0"
  shows "\<bar>q / 2 powi quantum F q\<bar> < 2 ^ fprec F"
proof -
  have "\<bar>q\<bar> < 2 powi (ilog2 \<bar>q\<bar> + 1)"
    using assms by (intro ilog2_bounds) simp
  also have "\<dots> \<le> 2 powi (quantum F q + int (fprec F))"
    by (simp add: powi_le_iff quantum_def)
  also have "\<dots> = 2 powi quantum F q * 2 ^ fprec F"
    by (simp add: power_int_add)
  finally show ?thesis
    by (simp add: abs_divide divide_less_eq mult.commute)
qed

lemma rnd_rep: "rep F (rnd F q)"
proof (cases "q = 0")
  case False
  let ?e = "quantum F q" and ?m = "round_half_even (q / 2 powi quantum F q)"
  have b: "\<bar>q / 2 powi ?e\<bar> \<le> of_int (2 ^ fprec F)"
    using scaled_bound [OF False] by (simp del: abs_divide)
  have "?m \<le> 2 ^ fprec F"
    using b by (intro round_half_even_le) (simp only: abs_le_iff)
  moreover have "- ?m \<le> 2 ^ fprec F"
    unfolding round_half_even_minus [symmetric]
    using b by (intro round_half_even_le) (simp only: abs_le_iff)
  ultimately have "\<bar>?m\<bar> \<le> 2 ^ fprec F" by linarith
  then show ?thesis
    using False rep_scaled [OF _ quantum_ge] by (simp add: rnd_def Let_def)
qed (simp add: rnd_def)

text \<open>A representable value that is no multiple of the quantum is below the leading digit.\<close>

lemma rep_multiple_or_small:
  assumes "rep F r" and "q \<noteq> 0"
  obtains (multiple) k where "r = of_int k * 2 powi quantum F q"
  | (small) "\<bar>r\<bar> < 2 powi (quantum F q + int (fprec F) - 1)"
      and "2 powi (quantum F q + int (fprec F) - 1) \<le> \<bar>q\<bar>"
proof -
  from assms(1) obtain m e where r: "r = of_int m * 2 powi e"
    and m: "\<bar>m\<bar> < 2 ^ fprec F" and e: "femin F \<le> e"
    by (auto simp: rep_def)
  show thesis
  proof (cases "quantum F q \<le> e")
    case True
    have "r = of_int (m * 2 ^ nat (e - quantum F q)) * 2 powi quantum F q"
      using True by (simp add: r power_int_def [of _ "e - quantum F q", symmetric]
          power_int_add [symmetric] mult.assoc flip: power_int_of_nat)
    then show thesis by (rule multiple)
  next
    case False
    with e have em: "femin F < quantum F q" by linarith
    then have "quantum F q + int (fprec F) - 1 = ilog2 \<bar>q\<bar>"
      by (simp add: quantum_def max_def split: if_splits)
    then have big: "2 powi (quantum F q + int (fprec F) - 1) \<le> \<bar>q\<bar>"
      using assms(2) ilog2_bounds(1) [of "\<bar>q\<bar>"] by simp
    have "\<bar>(of_int m :: rat)\<bar> < 2 ^ fprec F"
      using m by (metis of_int_abs of_int_less_iff of_int_numeral of_int_power)
    then have "\<bar>r\<bar> < 2 ^ fprec F * 2 powi e"
      by (simp add: r abs_mult)
    also have "\<dots> = 2 powi (e + int (fprec F))"
      by (simp add: power_int_add mult.commute)
    also have "\<dots> \<le> 2 powi (quantum F q + int (fprec F) - 1)"
      using False by (simp add: powi_le_iff)
    finally show thesis using big by (rule small)
  qed
qed

lemma rnd_nearest_multiple:
  assumes "q \<noteq> 0"
  shows "\<bar>rnd F q - q\<bar> \<le> \<bar>of_int k * 2 powi quantum F q - q\<bar>"
proof -
  let ?b = "(2::rat) powi quantum F q"
  have b: "0 < ?b" by simp
  have *: "of_int j * ?b - q = (of_int j - q / ?b) * ?b" for j
    by (simp add: left_diff_distrib)
  have "rnd F q = of_int (round_half_even (q / ?b)) * ?b"
    using assms by (simp add: rnd_def Let_def)
  then have "\<bar>rnd F q - q\<bar> = \<bar>of_int (round_half_even (q / ?b)) - q / ?b\<bar> * ?b"
    using b by (simp only: * abs_mult abs_of_pos)
  also have "\<dots> \<le> \<bar>of_int k - q / ?b\<bar> * ?b"
    using round_half_even_nearest b by (intro mult_right_mono) auto
  also have "\<dots> = \<bar>of_int k * ?b - q\<bar>"
    using b by (simp only: * abs_mult abs_of_pos)
  finally show ?thesis .
qed

theorem rnd_nearest:
  assumes "rep F r"
  shows "\<bar>rnd F q - q\<bar> \<le> \<bar>r - q\<bar>"
proof (cases "q = 0")
  case False
  from assms False show ?thesis
  proof (cases rule: rep_multiple_or_small)
    case (multiple k)
    then show ?thesis using rnd_nearest_multiple [OF False] by simp
  next
    case small
    let ?c = "(if q < 0 then -1 else 1) * (2::rat) powi (quantum F q + int (fprec F) - 1)"
    have "?c = of_int ((if q < 0 then -1 else 1) * 2 ^ (fprec F - 1)) * 2 powi quantum F q"
      using prec_pos by (cases "fprec F") (simp_all add: power_int_add)
    then have "\<bar>rnd F q - q\<bar> \<le> \<bar>?c - q\<bar>"
      using rnd_nearest_multiple [OF False] by metis
    also have "\<dots> \<le> \<bar>r - q\<bar>"
      using small False by (auto simp: abs_if split: if_splits)
    finally show ?thesis .
  qed
qed (simp add: rnd_def)

lemma rnd_id: "rep F q \<Longrightarrow> rnd F q = q"
  using rnd_nearest [of q q] by simp

lemma rep_iff_rnd: "rep F q \<longleftrightarrow> rnd F q = q"
  using rnd_id rnd_rep by metis

lemma rnd_mono:
  assumes "x \<le> y"
  shows "rnd F x \<le> rnd F y"
proof (rule ccontr)
  assume "\<not> ?thesis"
  then have gt: "rnd F y < rnd F x" by simp
  have "\<bar>rnd F x - x\<bar> \<le> \<bar>rnd F y - x\<bar>" "\<bar>rnd F y - y\<bar> \<le> \<bar>rnd F x - y\<bar>"
    by (rule rnd_nearest, rule rnd_rep)+
  with gt assms have "x = y"
    by (auto simp: abs_if split: if_splits)
  with gt show False by simp
qed

lemma rnd_le_rep: "x \<le> r \<Longrightarrow> rep F r \<Longrightarrow> rnd F x \<le> r"
  using rnd_mono rnd_id by metis

lemma rnd_ge_rep: "r \<le> x \<Longrightarrow> rep F r \<Longrightarrow> r \<le> rnd F x"
  using rnd_mono rnd_id by metis

lemma quantum_minus: "quantum F (- q) = quantum F q"
  by (simp add: quantum_def)

lemma rnd_minus: "rnd F (- q) = - rnd F q"
  by (simp add: rnd_def quantum_minus Let_def round_half_even_minus)

lemma rnd_nonneg: "0 \<le> q \<Longrightarrow> 0 \<le> rnd F q"
  using rnd_ge_rep [of 0 q] by simp

lemma rnd_nonpos: "q \<le> 0 \<Longrightarrow> rnd F q \<le> 0"
  using rnd_le_rep [of q 0] by simp

lemma rnd_abs_le: "\<bar>q\<bar> \<le> r \<Longrightarrow> rep F r \<Longrightarrow> \<bar>rnd F q\<bar> \<le> r"
  using rnd_le_rep [of q r] rnd_ge_rep [of "- r" q] rep_minus [of r] by (auto simp: abs_le_iff)

end

interpretation b64: float_format binary64
  by unfold_locales (simp_all add: binary64_def)

interpretation b32: float_format binary32
  by unfold_locales (simp_all add: binary32_def)

end
