(* ===== verification/Float_Arith.thy ===== *)
theory Float_Arith
  imports Float_Facts
begin

text \<open>
  Arithmetic and order of \<^typ>\<open>f64\<close> in terms of the rationals the values denote: every
  operation returns a value of the format, is exact where the exact result is representable,
  is the rounded exact result where nothing overflows, and the comparisons of numbers that
  are not NaN form a total preorder.
\<close>

subsection \<open>Results are values of the format\<close>

lemma to_float_ok [simp, intro]: "f64_ok (to_float binary64 s q)"
  using b64.rnd_rep [of q] b64.rep_iff_rnd
  by (auto simp: to_float_def Let_def binary64_def rnd_def)

lemma rnd_zero [simp]: "rnd F 0 = 0"
  by (simp add: rnd_def)

lemma plus_f64_ok: "f64_ok x \<Longrightarrow> f64_ok y \<Longrightarrow> f64_ok (x + y)"
  by (cases x; cases y) auto

lemma uminus_f64_ok: "f64_ok x \<Longrightarrow> f64_ok (- x)"
  by (cases x) (auto simp: b64.rnd_minus)

lemma minus_f64_ok: "f64_ok x \<Longrightarrow> f64_ok y \<Longrightarrow> f64_ok (x - y)"
  by (simp add: minus_f64_def plus_f64_ok uminus_f64_ok)

lemma times_f64_ok: "f64_ok (x * y)"
  by (cases x; cases y) auto

lemma divide_f64_ok: "f64_ok (x / y)"
  by (cases x; cases y) (auto simp: rnd_def)

lemma float_of_int_ok: "f64_ok (float_of_int i)"
  by (simp add: float_of_int_def)

lemmas f64_ok_intros [intro, simp] =
  plus_f64_ok uminus_f64_ok minus_f64_ok times_f64_ok divide_f64_ok float_of_int_ok

lemma f64_ok_zero [simp]: "f64_ok 0" "f64_ok (Fin 0)"
  by (simp_all add: zero_f64_def rnd_def)

lemma f64_ok_rep: "f64_ok (Fin q) \<Longrightarrow> rep binary64 q"
  by (simp add: b64.rep_iff_rnd)

lemma rep_fval: "f64_ok x \<Longrightarrow> rep binary64 (fval x)"
  by (cases x) (auto simp: b64.rep_iff_rnd rnd_def)

subsection \<open>Results that do not overflow\<close>

text \<open>A magnitude below which nothing overflows: half of the range of binary64.\<close>

definition safe :: rat where
  "safe = 2 powi 1023"

lemma to_float_in_range:
  assumes "\<bar>q\<bar> \<le> safe"
  shows "is_finite (to_float binary64 s q)" and "fval (to_float binary64 s q) = rnd binary64 q"
proof -
  have "rep binary64 (2 powi 1023)"
    by (rule b64.rep_powi) (simp add: binary64_def)
  with assms [unfolded safe_def] have r: "\<bar>rnd binary64 q\<bar> \<le> 2 powi 1023"
    by (rule b64.rnd_abs_le)
  have "(2::rat) powi 1023 < 2 powi 1024" by (simp only: powi_less_iff)
  with r have lt: "\<bar>rnd binary64 q\<bar> < 2 powi 1024" by linarith
  have "\<not> 1024 \<le> ilog2 \<bar>rnd binary64 q\<bar>" if "rnd binary64 q \<noteq> 0"
    using that lt le_ilog2_iff [of "\<bar>rnd binary64 q\<bar>" 1024]
    by (simp only: zero_less_abs_iff not_le simp_thms)
  then show "is_finite (to_float binary64 s q)" "fval (to_float binary64 s q) = rnd binary64 q"
    by (auto simp: to_float_def Let_def binary64_def)
qed

lemma plus_in_range:
  assumes "is_finite x" "is_finite y" "\<bar>fval x + fval y\<bar> \<le> safe"
  shows "is_finite (x + y)" and "fval (x + y) = rnd binary64 (fval x + fval y)"
  using assms to_float_in_range [of "fval x + fval y"] by (cases x; cases y; simp)+

lemma fval_uminus [simp]: "fval (- x) = - fval x"
  by (cases x) auto

lemma is_finite_uminus [simp]: "is_finite (- x) = is_finite x"
  by (cases x) auto

lemma minus_in_range:
  assumes "is_finite x" "is_finite y" "\<bar>fval x - fval y\<bar> \<le> safe"
  shows "is_finite (x - y)" and "fval (x - y) = rnd binary64 (fval x - fval y)"
  using assms plus_in_range [of x "- y"] by (simp_all add: minus_f64_def)

lemma times_in_range:
  assumes "is_finite x" "is_finite y" "\<bar>fval x * fval y\<bar> \<le> safe"
  shows "is_finite (x * y)" and "fval (x * y) = rnd binary64 (fval x * fval y)"
  using assms to_float_in_range [of "fval x * fval y"] by (cases x; cases y; simp)+

lemma divide_in_range:
  assumes "is_finite x" "is_finite y" "fval y \<noteq> 0" "\<bar>fval x / fval y\<bar> \<le> safe"
  shows "is_finite (x / y)" and "fval (x / y) = rnd binary64 (fval x / fval y)"
  using assms to_float_in_range [of "fval x / fval y"] by (cases x; cases y; simp)+

subsection \<open>Exact results\<close>

lemma to_float_exact:
  assumes "rep binary64 q" and "\<bar>q\<bar> \<le> safe" and "q \<noteq> 0 \<or> \<not> s"
  shows "to_float binary64 s q = Fin q"
proof -
  have r: "rnd binary64 q = q" using assms(1) by (rule b64.rnd_id)
  have "is_finite (to_float binary64 s q)" using assms(2) by (rule to_float_in_range)
  then show ?thesis using assms(3) r
    by (auto simp: to_float_def Let_def split: if_splits)
qed

lemma int_in_range:
  assumes "\<bar>k\<bar> \<le> 9007199254740992"
  shows "rep binary64 (of_int k)" and "\<bar>of_int k :: rat\<bar> \<le> safe"
proof -
  show "rep binary64 (of_int k)"
    using assms by (intro b64.rep_of_int) (simp add: binary64_def)
  have "\<bar>of_int k :: rat\<bar> \<le> 2 powi 53"
    using assms by (simp add: power_int_def flip: of_int_abs)
  also have "(2::rat) powi 53 \<le> safe" by (simp only: safe_def powi_le_iff)
  finally show "\<bar>of_int k :: rat\<bar> \<le> safe" .
qed

lemma float_of_int_exact [float_eval]:
  "\<bar>k\<bar> \<le> 9007199254740992 \<Longrightarrow> float_of_int k = Fin (of_int k)"
  by (simp add: float_of_int_def int_in_range to_float_exact)

lemma plus_int_exact:
  assumes "\<bar>a + b\<bar> \<le> 9007199254740992"
  shows "Fin (of_int a) + Fin (of_int b) = Fin (of_int (a + b))"
proof -
  have "to_float binary64 (a < 0 \<and> b < 0) (of_int (a + b)) = Fin (of_int (a + b))"
    using int_in_range [OF assms] by (intro to_float_exact) (auto simp del: of_int_add)
  then show ?thesis by simp
qed

subsection \<open>Order\<close>

lemma less_f64_fval: "is_finite x \<Longrightarrow> is_finite y \<Longrightarrow> x < y \<longleftrightarrow> fval x < fval y"
  by (cases x; cases y) auto

lemma le_f64_fval: "is_finite x \<Longrightarrow> is_finite y \<Longrightarrow> x \<le> y \<longleftrightarrow> fval x \<le> fval y"
  by (cases x; cases y) auto

lemma finite_not_nan: "is_finite x \<Longrightarrow> \<not> is_nan x"
  by (cases x) auto

lemma not_less_f64: "\<not> is_nan x \<Longrightarrow> \<not> is_nan y \<Longrightarrow> \<not> x < y \<longleftrightarrow> y \<le> x"
  by (cases x; cases y) auto

lemma less_f64_le: "(x::f64) < y \<Longrightarrow> x \<le> y"
  by (cases x; cases y) auto

lemma less_f64_not_le: "(x::f64) < y \<Longrightarrow> \<not> y \<le> x"
  by (cases x; cases y) auto

lemma le_f64_refl [simp]: "x \<le> x \<longleftrightarrow> \<not> is_nan x"
  by (cases x) auto

lemma less_f64_irrefl [simp]: "\<not> x < (x::f64)"
  by (cases x) auto

lemma le_f64_trans: "(x::f64) \<le> y \<Longrightarrow> y \<le> z \<Longrightarrow> x \<le> z"
  by (cases x; cases y; cases z) auto

lemma le_less_f64_trans: "(x::f64) \<le> y \<Longrightarrow> y < z \<Longrightarrow> x < z"
  by (cases x; cases y; cases z) auto

lemma less_le_f64_trans: "(x::f64) < y \<Longrightarrow> y \<le> z \<Longrightarrow> x < z"
  by (cases x; cases y; cases z) auto

lemma le_f64_not_nan: "(x::f64) \<le> y \<Longrightarrow> \<not> is_nan x \<and> \<not> is_nan y"
  by (cases x; cases y) auto

lemma less_f64_not_nan: "(x::f64) < y \<Longrightarrow> \<not> is_nan x \<and> \<not> is_nan y"
  by (cases x; cases y) auto

lemma nan_compare [simp]:
  "is_nan x \<Longrightarrow> \<not> x < y" "is_nan y \<Longrightarrow> \<not> x < y" "is_nan x \<Longrightarrow> \<not> x \<le> y" "is_nan y \<Longrightarrow> \<not> x \<le> y"
  using less_f64_not_nan le_f64_not_nan by blast+

lemma feq_refl [simp]: "feq x x \<longleftrightarrow> \<not> is_nan x"
  by (simp add: feq_def)

lemma feq_sym: "feq x y \<Longrightarrow> feq y x"
  by (simp add: feq_def)

lemma feq_trans: "feq x y \<Longrightarrow> feq y z \<Longrightarrow> feq x z"
  by (auto simp: feq_def intro: le_f64_trans)

text \<open>Two values of the same size differ at most in the sign of zero.\<close>

lemma feq_cases: "feq x y \<Longrightarrow> x = y \<or> {x, y} = {Fin 0, NegZero}"
  by (cases x; cases y) (auto simp: feq_def)

subsection \<open>Averages stay between the values they average\<close>

context float_format
begin

lemma rep_diff_ge:
  assumes "rep F x" "rep F y" "x < y"
  shows "2 powi femin F \<le> y - x"
proof -
  from assms obtain m e n f where x: "x = of_int m * 2 powi e" and e: "femin F \<le> e"
    and y: "y = of_int n * 2 powi f" and f: "femin F \<le> f"
    by (auto simp: rep_def)
  have s: "(2::rat) powi k = of_int (2 ^ nat (k - femin F)) * 2 powi femin F" if "femin F \<le> k" for k
    using that by (simp add: power_int_def [of _ "k - femin F", symmetric]
        power_int_add [symmetric] flip: power_int_of_nat)
  define k where "k = n * 2 ^ nat (f - femin F) - m * 2 ^ nat (e - femin F)"
  have k: "y - x = of_int k * 2 powi femin F"
    unfolding x y k_def s [OF e] s [OF f] by (simp add: left_diff_distrib)
  with assms(3) have "0 < of_int k * (2::rat) powi femin F" by linarith
  moreover have "\<not> (2::rat) powi femin F < 0" by (simp add: not_less)
  ultimately have "0 < k" by (simp add: zero_less_mult_iff)
  then have "1 \<le> k" by simp
  then have "(1::rat) * 2 powi femin F \<le> of_int k * 2 powi femin F"
    by (intro mult_right_mono) auto
  then show ?thesis using k by simp
qed

lemma rnd_share_le:
  assumes "rep F x" "rep F y" "x \<le> y" "2 \<le> c"
  shows "0 \<le> rnd F (rnd F (y - x) / c)" and "rnd F (rnd F (y - x) / c) \<le> y - x"
proof -
  have d0: "0 \<le> rnd F (y - x)" using assms(3) by (intro rnd_nonneg) simp
  then show "0 \<le> rnd F (rnd F (y - x) / c)" using assms(4) by (intro rnd_nonneg) simp
  show "rnd F (rnd F (y - x) / c) \<le> y - x"
  proof (cases "x = y")
    case False
    with assms(3) have pos: "0 < y - x" by simp
    define p where "p = ilog2 (y - x)"
    note b = ilog2_bounds [OF pos, folded p_def]
    have "2 powi femin F \<le> y - x"
      using assms False by (intro rep_diff_ge) auto
    then have p: "femin F \<le> p"
      using le_ilog2_iff [OF pos] by (simp add: p_def)
    have "rnd F (y - x) \<le> 2 powi (p + 1)"
      using b(2) p by (intro rnd_le_rep rep_powi) auto
    moreover have "2 * 2 powi p \<le> c * 2 powi p"
      using assms(4) by (intro mult_right_mono) auto
    moreover have "2 powi (p + 1) = 2 * (2::rat) powi p"
      by (simp add: power_int_add)
    ultimately have "rnd F (y - x) \<le> 2 powi p * c"
      by (simp only: mult.commute [of "2 powi p" c])
    then have "rnd F (y - x) / c \<le> 2 powi p"
      using assms(4) by (simp add: pos_divide_le_eq)
    then have "rnd F (rnd F (y - x) / c) \<le> 2 powi p"
      using p by (intro rnd_le_rep rep_powi)
    with b(1) show ?thesis by linarith
  qed (simp add: rnd_def)
qed

lemma share_between:
  assumes "rep F m" "rep F v" "2 \<le> c"
  shows "min m v \<le> m + rnd F (rnd F (v - m) / c)" and "m + rnd F (rnd F (v - m) / c) \<le> max m v"
proof -
  have "rnd F (m - v) = - rnd F (v - m)" using rnd_minus [of "v - m"] by simp
  moreover have "rnd F (- rnd F (v - m) / c) = - rnd F (rnd F (v - m) / c)"
    using rnd_minus [of "rnd F (v - m) / c"] by simp
  ultimately have flip: "rnd F (rnd F (m - v) / c) = - rnd F (rnd F (v - m) / c)" by simp
  show "min m v \<le> m + rnd F (rnd F (v - m) / c)" "m + rnd F (rnd F (v - m) / c) \<le> max m v"
    using rnd_share_le [OF assms(1,2) _ assms(3)] rnd_share_le [OF assms(2,1) _ assms(3)]
    unfolding flip by (cases "m \<le> v"; simp)+
qed

lemma rep_min_max: "rep F x \<Longrightarrow> rep F y \<Longrightarrow> rep F (min x y) \<and> rep F (max x y)"
  by (auto simp: min_def max_def)

lemma rnd_between:
  assumes "rep F x" "rep F y" "min x y \<le> z" "z \<le> max x y"
  shows "min x y \<le> rnd F z" and "rnd F z \<le> max x y"
  using assms rep_min_max by (blast intro: rnd_ge_rep rnd_le_rep)+

lemma rep_double: "rep F x \<Longrightarrow> rep F (2 * x)"
proof -
  assume "rep F x"
  then obtain m e where x: "x = of_int m * 2 powi e" "\<bar>m\<bar> < 2 ^ fprec F" "femin F \<le> e"
    by (auto simp: rep_def)
  then have "2 * x = of_int m * 2 powi (e + 1)" by (simp add: power_int_add)
  moreover have "femin F \<le> e + 1" using x(3) by simp
  ultimately show ?thesis using x(2) unfolding rep_def by blast
qed

lemma rnd_midpoint:
  assumes "rep F x" "rep F y" "x \<le> y"
  shows "x \<le> rnd F (rnd F (x + y) / 2)" and "rnd F (rnd F (x + y) / 2) \<le> y"
proof -
  have "2 * x \<le> rnd F (x + y)" "rnd F (x + y) \<le> 2 * y"
    using assms by (auto intro!: rnd_ge_rep rnd_le_rep rep_double)
  then show "x \<le> rnd F (rnd F (x + y) / 2)" "rnd F (rnd F (x + y) / 2) \<le> y"
    using assms by (auto intro!: rnd_ge_rep rnd_le_rep)
qed

end

end
