(* ===== verification/Statistics.thy ===== *)
theory Statistics
  imports Float_Arith "HOL-Library.Multiset"
begin

text \<open>
  The statistics of \<open>statsgod/statistics.go\<close>: the methods of \<open>ValueSlice\<close> on a list of
  \<open>float64\<close> values.  An index out of range panics in Go and is \<open>None\<close> here.  Sorting is
  \<open>sort.Sort\<close> of the standard library: the insertion sort it runs on short slices, and the
  locale \<open>sort_contract\<close> shows that every sorting function gives the same numbers.
\<close>

type_synonym ValueSlice = "f64 list"

datatype stat_error = NaNValue

subsection \<open>Access and ordering\<close>

definition Get :: "ValueSlice \<Rightarrow> int \<Rightarrow> f64 option" where
  "Get values i = (if 0 \<le> i \<and> i < int (length values) then Some (values ! nat i) else None)"

definition Len :: "ValueSlice \<Rightarrow> int" where
  "Len values = int (length values)"

definition Less :: "ValueSlice \<Rightarrow> int \<Rightarrow> int \<Rightarrow> bool option" where
  "Less values i j = (case (Get values i, Get values j) of
     (Some a, Some b) \<Rightarrow> Some (a < b) | _ \<Rightarrow> None)"

definition Swap :: "ValueSlice \<Rightarrow> int \<Rightarrow> int \<Rightarrow> ValueSlice option" where
  "Swap values i j = (case (Get values i, Get values j) of
     (Some a, Some b) \<Rightarrow> Some (values[nat i := b, nat j := a]) | _ \<Rightarrow> None)"

text \<open>
  \<open>sort.Sort\<close> on a short slice: each value moves left past the greater values before it.
  The prefix sorted so far is kept reversed, the value nearest to the new one first.  On longer
  slices the library sorts in another way; the result is the same list up to the order of values
  that compare equal, unless there is a NaN among them.
\<close>

fun sort_insert :: "f64 \<Rightarrow> f64 list \<Rightarrow> f64 list" where
  "sort_insert x [] = [x]"
| "sort_insert x (y # ys) = (if x < y then y # sort_insert x ys else x # y # ys)"

definition sort_values :: "ValueSlice \<Rightarrow> ValueSlice" where
  "sort_values values = rev (fold sort_insert values [])"

subsection \<open>Counting, extrema, averages\<close>

text \<open>The slice is sorted in place, so the sorted slice is part of the result.\<close>

fun unique_loop :: "nat \<Rightarrow> int \<Rightarrow> f64 \<Rightarrow> ValueSlice \<Rightarrow> int" where
  "unique_loop i cnt p [] = cnt"
| "unique_loop i cnt p (v # vs) =
     unique_loop (Suc i)
       (if i > 0 \<and> \<not> feq p v then cnt + 1 else if i = 0 then cnt + 1 else cnt) v vs"

definition UniqueCount :: "ValueSlice \<Rightarrow> ValueSlice \<times> int" where
  "UniqueCount values = (let s = sort_values values in (s, unique_loop 0 0 0 s))"

fun minmax_step :: "f64 \<Rightarrow> f64 \<times> f64 \<times> stat_error option \<Rightarrow> f64 \<times> f64 \<times> stat_error option" where
  "minmax_step xi (mn, mx, err) =
     (if is_nan xi then (mn, mx, Some NaNValue)
      else if xi < mn then (xi, mx, err)
      else if mx < xi then (mn, xi, err)
      else (mn, mx, err))"

definition Minmax :: "ValueSlice \<Rightarrow> (f64 \<times> f64 \<times> stat_error option) option" where
  "Minmax values = (case Get values 0 of
     None \<Rightarrow> None
   | Some v \<Rightarrow> Some (fold minmax_step values (v, v, None)))"

definition Median :: "ValueSlice \<Rightarrow> f64 option" where
  "Median values =
     (let n = Len values; leftBoundary = go_div (n - 1) 2; rightBoundary = go_div n 2
      in if n = 0 then Some 0
         else if leftBoundary = rightBoundary then Get values leftBoundary
         else (case (Get values leftBoundary, Get values rightBoundary) of
                 (Some a, Some b) \<Rightarrow> Some ((a + b) / Fin 2)
               | _ \<Rightarrow> None))"

fun mean_loop :: "nat \<Rightarrow> f64 \<Rightarrow> ValueSlice \<Rightarrow> f64" where
  "mean_loop i mean [] = mean"
| "mean_loop i mean (v # vs) =
     mean_loop (Suc i) (mean + (v - mean) / float_of_int (int i + 1)) vs"

definition Mean :: "ValueSlice \<Rightarrow> f64" where
  "Mean values = mean_loop 0 0 values"

definition Quantile :: "ValueSlice \<Rightarrow> f64 \<Rightarrow> f64 option" where
  "Quantile values quantile =
     (let n = Len values;
          index = quantile * float_of_int (n - 1);
          boundary = int_of_float index;
          delta = index - float_of_int boundary
      in if n = 0 then Some 0
         else if boundary = n - 1 then Get values boundary
         else (case (Get values boundary, Get values (boundary + 1)) of
                 (Some a, Some b) \<Rightarrow> Some ((1 - delta) * a + delta * b)
               | _ \<Rightarrow> None))"

definition Sum :: "ValueSlice \<Rightarrow> f64" where
  "Sum values = foldl (+) 0 values"

subsection \<open>The order on slices\<close>

abbreviation no_nan :: "ValueSlice \<Rightarrow> bool" where
  "no_nan values \<equiv> (\<forall>v \<in> set values. \<not> is_nan v)"

abbreviation ascending :: "ValueSlice \<Rightarrow> bool" where
  "ascending values \<equiv> sorted_wrt (\<le>) values"

text \<open>Forget the sign of zero: afterwards equality is Go's \<open>==\<close>.\<close>

fun canon :: "f64 \<Rightarrow> f64" where
  "canon NegZero = Fin 0"
| "canon x = x"

lemma canon_le_iff: "canon x \<le> canon y \<longleftrightarrow> x \<le> y"
  by (cases x; cases y) auto

lemma canon_antisym: "x \<le> y \<Longrightarrow> y \<le> x \<Longrightarrow> canon x = canon y"
  by (cases x; cases y) auto

lemma feq_iff_canon: "\<not> is_nan x \<Longrightarrow> feq x y \<longleftrightarrow> canon x = canon y"
  by (cases x; cases y) (auto simp: feq_def)

lemma canon_idem [simp]: "canon (canon x) = canon x"
  by (cases x) auto

lemma is_finite_canon: "is_finite (canon x) = is_finite x"
  by (cases x) auto

lemma is_nan_canon [simp]: "is_nan (canon x) = is_nan x"
  by (cases x) auto

lemma sorted_same_mset_eq:
  fixes xs ys :: "f64 list"
  assumes "ascending xs" "ascending ys" "mset xs = mset ys"
    and "\<forall>x \<in> set xs. canon x = x \<and> \<not> is_nan x"
  shows "xs = ys"
  using assms
proof (induction xs arbitrary: ys)
  case (Cons x xs)
  from Cons.prems(3) obtain y zs where ys: "ys = y # zs"
    by (cases ys) auto
  have sets: "set (x # xs) = set (y # zs)"
    using mset_eq_setD [OF Cons.prems(3)] ys by simp
  then have mem: "y \<in> set (x # xs)" "x \<in> set (y # zs)" by auto
  note ok = bspec [OF Cons.prems(4)]
  have nan: "\<not> is_nan x" "\<not> is_nan y" using ok [of x] ok [OF mem(1)] by simp_all
  have "x \<le> y" using mem(1) Cons.prems(1) nan by auto
  moreover have "y \<le> x" using mem(2) Cons.prems(2) ys nan by auto
  ultimately have "canon x = canon y" by (rule canon_antisym)
  moreover have "canon x = x" "canon y = y" using ok [of x] ok [OF mem(1)] by simp_all
  ultimately have "x = y" by simp
  with Cons.prems ys Cons.IH [of zs] show ?case by simp
qed simp

locale sort_contract =
  fixes srt :: "ValueSlice \<Rightarrow> ValueSlice"
  assumes srt_mset: "mset (srt xs) = mset xs"
    and srt_ascending: "no_nan xs \<Longrightarrow> ascending (srt xs)"
begin

lemma srt_set: "set (srt xs) = set xs"
  by (rule mset_eq_setD) (rule srt_mset)

lemma srt_length: "length (srt xs) = length xs"
  by (rule mset_eq_length) (rule srt_mset)

lemma srt_unique:
  assumes "no_nan xs" "mset ys = mset xs" "ascending ys"
  shows "map canon ys = map canon (srt xs)"
proof (rule sorted_same_mset_eq)
  have "set ys = set xs" using assms(2) by (rule mset_eq_setD)
  with assms(1) show "\<forall>x \<in> set (map canon ys). canon x = x \<and> \<not> is_nan x"
    by auto
  show "mset (map canon ys) = mset (map canon (srt xs))"
    by (simp add: assms(2) srt_mset)
  show "ascending (map canon ys)" "ascending (map canon (srt xs))"
    using assms(3) srt_ascending [OF assms(1)] by (simp_all add: sorted_wrt_map canon_le_iff)
qed

lemma srt_ascending_id: "no_nan xs \<Longrightarrow> ascending xs \<Longrightarrow> map canon (srt xs) = map canon xs"
  using srt_unique [of xs xs] by simp

end

lemma mset_sort_insert [simp]: "mset (sort_insert x ys) = {#x#} + mset ys"
  by (induction ys) auto

lemma mset_fold_sort_insert: "mset (fold sort_insert xs acc) = mset xs + mset acc"
  by (induction xs arbitrary: acc) auto

lemma set_sort_insert [simp]: "set (sort_insert x ys) = insert x (set ys)"
  by (induction ys) auto

lemma sort_insert_descending:
  assumes "sorted_wrt (\<lambda>a b. b \<le> a) ys" "no_nan (x # ys)"
  shows "sorted_wrt (\<lambda>a b. b \<le> a) (sort_insert x ys)"
  using assms
proof (induction ys)
  case (Cons y ys)
  show ?case
  proof (cases "x < y")
    case True
    with Cons show ?thesis by (auto intro: less_f64_le)
  next
    case False
    with Cons.prems have "y \<le> x" by (simp add: not_less_f64)
    with Cons.prems False show ?thesis by (auto intro: le_f64_trans)
  qed
qed simp

lemma fold_sort_insert_descending:
  "sorted_wrt (\<lambda>a b. b \<le> a) acc \<Longrightarrow> no_nan (xs @ acc) \<Longrightarrow>
   sorted_wrt (\<lambda>a b. b \<le> a) (fold sort_insert xs acc)"
proof (induction xs arbitrary: acc)
  case (Cons x xs)
  then have "sorted_wrt (\<lambda>a b. b \<le> a) (sort_insert x acc)"
    by (intro sort_insert_descending) auto
  then show ?case using Cons by simp
qed simp

interpretation go_sort: sort_contract sort_values
proof
  show "mset (sort_values xs) = mset xs" for xs
    by (simp add: sort_values_def mset_fold_sort_insert)
  show "ascending (sort_values xs)" if "no_nan xs" for xs
    using that fold_sort_insert_descending [of "[]" xs]
    by (simp add: sort_values_def sorted_wrt_rev)
qed

end
