(* ===== verification/Statistics_Facts.thy ===== *)
theory Statistics_Facts
  imports Statistics
begin

text \<open>
  What the statistics of \<open>statsgod/statistics.go\<close> compute: distinct counts, extrema that bound
  the slice, averages that stay inside it in spite of rounding, and quantiles that read inside
  the slice.
\<close>

subsection \<open>Counting distinct values\<close>

lemma unique_loop_ascending:
  assumes "ascending (p # vs)" "no_nan (p # vs)" "0 < i"
  shows "unique_loop i cnt p vs = cnt + int (card (canon ` set vs - {canon p}))"
  using assms
proof (induction vs arbitrary: i cnt p)
  case (Cons v vs)
  have le: "p \<le> v" and nan: "\<not> is_nan p" "\<not> is_nan v" using Cons.prems by auto
  have IH: "unique_loop (Suc i) c v vs = c + int (card (canon ` set vs - {canon v}))" for c
    using Cons.prems by (intro Cons.IH) auto
  show ?case
  proof (cases "feq p v")
    case True
    then have "canon p = canon v" using nan by (simp add: feq_iff_canon)
    then show ?thesis using True IH Cons.prems(3) by simp
  next
    case False
    then have ne: "canon p \<noteq> canon v" using nan by (simp add: feq_iff_canon)
    have "canon p \<notin> canon ` set vs"
    proof
      assume "canon p \<in> canon ` set vs"
      then obtain x where x: "x \<in> set vs" "canon p = canon x" by auto
      then have "v \<le> x" using Cons.prems(1) by simp
      then have "v \<le> p" using x(2) by (metis canon_le_iff)
      then show False using le canon_antisym ne by blast
    qed
    then have "canon ` set (v # vs) - {canon p} = insert (canon v) (canon ` set vs - {canon v})"
      using ne by auto
    then show ?thesis using False Cons.prems(3) IH by (simp add: card.insert_remove)
  qed
qed simp

lemma UniqueCount_fst [simp]: "fst (UniqueCount values) = sort_values values"
  by (simp add: UniqueCount_def Let_def)

lemma unique_count:
  assumes "no_nan values"
  shows "snd (UniqueCount values) = int (card (canon ` set values))"
proof -
  have set: "set (sort_values values) = set values" by (rule go_sort.srt_set)
  show ?thesis
  proof (cases "sort_values values")
    case Nil
    then show ?thesis using set by (simp add: UniqueCount_def)
  next
    case (Cons v vs)
    have "ascending (v # vs)" "no_nan (v # vs)"
      using go_sort.srt_ascending [OF assms] set assms unfolding Cons by auto
    then have "unique_loop 1 1 v vs = 1 + int (card (canon ` set vs - {canon v}))"
      by (intro unique_loop_ascending) auto
    also have "\<dots> = int (card (insert (canon v) (canon ` set vs)))"
      by (simp add: card.insert_remove)
    finally show ?thesis using set by (simp add: UniqueCount_def Cons Let_def flip: set)
  qed
qed

text \<open>
  Fact.  \<open>UniqueCount\<close> of \<open>statistics.go\<close> returns the number of different numbers in
  the slice (the two zeroes count as one), for every slice without NaN.
\<close>
theorem UniqueCount_distinct:
  assumes "no_nan values"
  shows "snd (UniqueCount values) = int (card (canon ` set values))"
  using assms by (rule unique_count)


theorem UniqueCount_distinct_witness:
  "snd (UniqueCount [Fin 2, NegZero, Fin 2, Fin 0]) = int (card (canon ` set [Fin 2, NegZero, Fin 2, Fin 0]))"
  by (rule UniqueCount_distinct) simp

subsection \<open>Extrema\<close>

lemma fold_minmax_bounds:
  assumes "no_nan vs" "\<not> is_nan mn" "\<not> is_nan mx" "mn \<le> mx"
  obtains mn' mx' where "fold minmax_step vs (mn, mx, err) = (mn', mx', err)"
    and "mn' \<in> insert mn (set vs)" "mx' \<in> insert mx (set vs)"
    and "mn' \<le> mn" "mx \<le> mx'" "\<forall>v \<in> set vs. mn' \<le> v \<and> v \<le> mx'"
  using assms
proof (induction vs arbitrary: mn mx thesis)
  case (Cons v vs)
  let ?mn = "if v < mn then v else mn" and ?mx = "if \<not> v < mn \<and> mx < v then v else mx"
  have step: "minmax_step v (mn, mx, err) = (?mn, ?mx, err)" using Cons.prems by auto
  have nan: "\<not> is_nan v" "no_nan vs" using Cons.prems(2) by simp_all
  have le: "?mn \<le> mn" "mx \<le> ?mx" "?mn \<le> v" "v \<le> ?mx"
    using nan(1) Cons.prems(3,4,5) less_f64_le less_le_f64_trans [of v mn mx]
      not_less_f64 [of v mn] not_less_f64 [of mx v] by auto
  have prems: "no_nan vs" "\<not> is_nan ?mn" "\<not> is_nan ?mx" "?mn \<le> ?mx"
    using nan Cons.prems(3,4) le_f64_trans [OF le(3,4)] by simp_all
  obtain mn' mx' where *: "fold minmax_step vs (?mn, ?mx, err) = (mn', mx', err)"
      "mn' \<in> insert ?mn (set vs)" "mx' \<in> insert ?mx (set vs)"
      "mn' \<le> ?mn" "?mx \<le> mx'" "\<forall>w \<in> set vs. mn' \<le> w \<and> w \<le> mx'"
    using Cons.IH [OF _ prems] by blast
  show ?case
  proof (rule Cons.prems(1))
    show "fold minmax_step (v # vs) (mn, mx, err) = (mn', mx', err)"
      using * step by simp
    show "mn' \<in> insert mn (set (v # vs))" "mx' \<in> insert mx (set (v # vs))"
      using * by (auto split: if_splits)
    show "mn' \<le> mn" "mx \<le> mx'" using * le by (blast intro: le_f64_trans)+
    show "\<forall>w \<in> set (v # vs). mn' \<le> w \<and> w \<le> mx'"
      using * le by (auto intro: le_f64_trans)
  qed
qed auto

lemma Minmax_None_iff: "Minmax values = None \<longleftrightarrow> values = []"
  by (cases "values") (auto simp: Minmax_def Get_def)

lemma minmax_correct:
  assumes "no_nan values" "values \<noteq> []"
  shows "(Minmax [] = None) \<and> (\<exists>mn mx. Minmax values = Some (mn, mx, None) \<and>
    mn \<in> set values \<and> mx \<in> set values \<and> (\<forall>v \<in> set values. mn \<le> v \<and> v \<le> mx))"
proof -
  obtain v vs where v: "values = v # vs" using assms(2) by (cases "values") auto
  have nan: "\<not> is_nan v" using assms(1) v by simp
  then have le: "v \<le> v" by simp
  obtain mn mx where *: "fold minmax_step values (v, v, None) = (mn, mx, None)"
    "mn \<in> insert v (set values)" "mx \<in> insert v (set values)"
    "\<forall>w \<in> set values. mn \<le> w \<and> w \<le> mx"
    using fold_minmax_bounds [OF assms(1) nan nan le, of None] by blast
  have "Minmax values = Some (mn, mx, None)"
    using *(1) v by (simp add: Minmax_def Get_def del: fold.simps)
  moreover have "mn \<in> set values" "mx \<in> set values" using *(2,3) v by auto
  ultimately show ?thesis
    using *(4) Minmax_None_iff [of "[]"] by blast
qed

text \<open>
  Fact.  \<open>Minmax\<close> on a non-empty slice without NaN reports no error and returns two
  values of the slice that bound all of its values; on the empty slice it panics.
\<close>
theorem Minmax_bounds:
  assumes "no_nan values" "values \<noteq> []"
  shows "(Minmax [] = None) \<and> (\<exists>mn mx. Minmax values = Some (mn, mx, None) \<and>
    mn \<in> set values \<and> mx \<in> set values \<and> (\<forall>v \<in> set values. mn \<le> v \<and> v \<le> mx))"
  using assms by (rule minmax_correct)


theorem Minmax_bounds_witness:
  "Minmax [] = None \<and> (\<exists>mn mx. Minmax [Fin 3, Fin (- 1), Fin 2] = Some (mn, mx, None) \<and>
    mn \<in> set [Fin 3, Fin (- 1), Fin 2] \<and> mx \<in> set [Fin 3, Fin (- 1), Fin 2] \<and>
    (\<forall>v \<in> set [Fin 3, Fin (- 1), Fin 2]. mn \<le> v \<and> v \<le> mx))"
  by (rule Minmax_bounds) simp_all

subsection \<open>Averages\<close>

text \<open>Values the averages are proved for: numbers of the format, a factor two below overflow.\<close>

definition bounded_between :: "rat \<Rightarrow> rat \<Rightarrow> f64 \<Rightarrow> bool" where
  "bounded_between lo hi v \<longleftrightarrow> f64_ok v \<and> is_finite v \<and> lo \<le> fval v \<and> fval v \<le> hi"

lemma bounded_not_nan: "bounded_between lo hi v \<Longrightarrow> \<not> is_nan v"
  unfolding bounded_between_def by (blast dest: finite_not_nan)

definition half_safe :: rat where
  "half_safe = 2 powi 1022"

lemma half_safe: "half_safe + half_safe = safe" "0 < half_safe" "half_safe < safe"
proof -
  have e: "safe = half_safe * 2"
    unfolding safe_def half_safe_def using power_int_add_1 [of "2::rat" 1022] by simp
  then show "half_safe + half_safe = safe" by simp
  show pos: "0 < half_safe" unfolding half_safe_def by (rule zero_less_power_int) simp
  show "half_safe < safe" using e pos by linarith
qed

lemma rep_safe: "rep binary64 safe"
  unfolding safe_def by (rule b64.rep_powi) (simp add: binary64_def)

lemma count_in_range:
  assumes "1 \<le> i" "i < 9223372036854775808"
  shows "is_finite (float_of_int (i + 1))" "2 \<le> fval (float_of_int (i + 1))"
proof -
  have "(2::rat) powi 64 \<le> safe" by (simp only: safe_def powi_le_iff)
  moreover have "(of_int (i + 1) :: rat) \<le> of_int 18446744073709551616"
    using assms(2) by (simp only: of_int_le_iff)
  ultimately have r: "\<bar>of_int (i + 1) :: rat\<bar> \<le> safe"
    using assms(1) by simp
  then show "is_finite (float_of_int (i + 1))"
    by (simp add: float_of_int_def to_float_in_range)
  have "2 \<le> rnd binary64 (of_int (i + 1))"
    using assms(1) b64.rep_of_int [of 2] by (intro b64.rnd_ge_rep) (auto simp: binary64_def)
  then show "2 \<le> fval (float_of_int (i + 1))"
    using to_float_in_range(2) [OF r] by (simp add: float_of_int_def)
qed

lemma mean_step_between:
  assumes m: "bounded_between lo hi m" and v: "bounded_between lo hi v"
    and r: "- half_safe \<le> lo" "hi \<le> half_safe"
    and c: "is_finite c" "2 \<le> fval c" "f64_ok c"
  shows "bounded_between lo hi (m + (v - m) / c)"
proof -
  let ?m = "fval m" and ?v = "fval v" and ?R = "rnd binary64"
  have fin: "is_finite m" "is_finite v" and ok: "f64_ok m" "f64_ok v"
    and b: "lo \<le> ?m" "?m \<le> hi" "lo \<le> ?v" "?v \<le> hi"
    using m v by (auto simp: bounded_between_def)
  note rep = rep_fval [OF ok(1)] rep_fval [OF ok(2)]
  have d: "\<bar>?v - ?m\<bar> \<le> safe"
    using b r half_safe by (simp add: abs_le_iff)
  note sub = minus_in_range [OF fin(2,1) d]
  have dR: "\<bar>?R (?v - ?m)\<bar> \<le> safe" using d rep_safe by (rule b64.rnd_abs_le)
  have "\<bar>?R (?v - ?m) / fval c\<bar> \<le> \<bar>?R (?v - ?m)\<bar>"
    using c(2) mult_left_mono [of 1 "fval c" "\<bar>?R (?v - ?m)\<bar>"]
    by (simp add: pos_divide_le_eq)
  with dR have q: "\<bar>fval (v - m) / fval c\<bar> \<le> safe" using sub(2) by simp
  have "fval c \<noteq> 0" using c(2) by linarith
  note quo = divide_in_range [OF sub(1) c(1) this q]
  let ?t = "?m + fval ((v - m) / c)"
  have t: "min ?m ?v \<le> ?t" "?t \<le> max ?m ?v"
    unfolding quo(2) sub(2) by (rule b64.share_between [OF rep c(2)])+
  have "lo \<le> min ?m ?v" "max ?m ?v \<le> hi" using b by simp_all
  then have "\<bar>?t\<bar> \<le> safe" using t r half_safe by (simp only: abs_le_iff) linarith
  note sum = plus_in_range [OF fin(1) quo(1) this]
  have "min ?m ?v \<le> ?R ?t" "?R ?t \<le> max ?m ?v"
    using t by (rule b64.rnd_between [OF rep])+
  then show ?thesis
    using sum b ok c(3) by (auto simp: bounded_between_def min_def max_def split: if_splits)
qed

lemma mean_loop_between:
  assumes "bounded_between lo hi m" "\<forall>v \<in> set vs. bounded_between lo hi v"
    and "- half_safe \<le> lo" "hi \<le> half_safe"
    and "1 \<le> i" "int i + int (length vs) < 9223372036854775808"
  shows "bounded_between lo hi (mean_loop i m vs)"
  using assms
proof (induction vs arbitrary: i m)
  case (Cons v vs)
  have "1 \<le> int i" "int i < 9223372036854775808" using Cons.prems(5,6) by simp_all
  note c = count_in_range [OF this] float_of_int_ok [of "int i + 1"]
  have "bounded_between lo hi (m + (v - m) / float_of_int (int i + 1))"
    using Cons.prems c by (intro mean_step_between) auto
  then show ?case using Cons by simp
qed simp

lemma bounded_uminus_zero: "f64_ok v \<Longrightarrow> is_finite v \<Longrightarrow> canon (0 + (v - 0) / float_of_int 1) = canon v"
proof -
  assume ok: "f64_ok v" and fin: "is_finite v"
  have one: "float_of_int 1 = Fin 1" by (simp add: float_of_int_exact)
  show ?thesis
  proof (cases "fval v = 0")
    case True
    then show ?thesis using fin
      by (cases v) (auto simp: zero_f64_def minus_f64_def one to_float_def)
  next
    case False
    then obtain q where q: "v = Fin q" "q \<noteq> 0" using fin by (cases v) auto
    then have "to_float binary64 s q = Fin q" for s
      using ok by (auto simp: to_float_def Let_def binary64_def)
    then show ?thesis using q by (simp add: zero_f64_def minus_f64_def one)
  qed
qed

lemma Median_not_None: "Median values \<noteq> None"
proof (cases "values = []")
  case False
  define n where "n = int (length values)"
  have n: "0 < n" using False by (simp add: n_def)
  have "0 \<le> go_div (n - 1) 2" "go_div (n - 1) 2 < n" "0 \<le> go_div n 2" "go_div n 2 < n"
    using n by (simp_all add: go_div_nonneg)
  then show ?thesis by (simp add: Median_def Len_def Get_def Let_def flip: n_def)
qed (simp add: Median_def Len_def Let_def)

lemma bounded_between_canon: "canon x = canon v \<Longrightarrow> f64_ok x \<Longrightarrow> bounded_between lo hi v \<Longrightarrow> bounded_between lo hi x"
  by (cases x; cases v) (auto simp: bounded_between_def)

lemma mean_between:
  assumes "values \<noteq> []" "\<forall>v \<in> set values. bounded_between lo hi v"
    and "- half_safe \<le> lo" "hi \<le> half_safe" "int (length values) < 9223372036854775808"
  shows "bounded_between lo hi (Mean values)"
proof -
  obtain v vs where vs: "values = v # vs" using assms(1) by (cases "values") auto
  have v: "bounded_between lo hi v" using assms(2) vs by simp
  then have "canon (0 + (v - 0) / float_of_int 1) = canon v"
    by (intro bounded_uminus_zero) (auto simp: bounded_between_def)
  then have "bounded_between lo hi (0 + (v - 0) / float_of_int 1)"
    using v by (intro bounded_between_canon [OF _ _ v]) (auto simp: bounded_between_def)
  then have "bounded_between lo hi (mean_loop 1 (0 + (v - 0) / float_of_int 1) vs)"
    using assms vs by (intro mean_loop_between) auto
  then show ?thesis by (simp add: Mean_def vs)
qed

text \<open>
  Property C16.  The running mean of \<open>statistics.go\<close>, computed in binary64 with its rounding
  errors, never leaves the range of the values it averages: every lower and upper bound of the
  slice bounds the mean, for values up to \<open>2^1022\<close> in magnitude (far above any \<open>float32\<close>) and fewer
  than \<open>2^63\<close> of them.
\<close>
theorem Mean_between:
  assumes "values \<noteq> []" "\<forall>v \<in> set values. bounded_between lo hi v"
    and "- half_safe \<le> lo" "hi \<le> half_safe" "int (length values) < 9223372036854775808"
  shows "bounded_between lo hi (Mean values)"
  using assms by (rule mean_between)


theorem Mean_between_witness: "bounded_between 1 3 (Mean [Fin 1, Fin 3, Fin 2])"
proof (rule Mean_between)
  have "(4::rat) \<le> half_safe"
    using powi_le_iff [of 2 1022] unfolding half_safe_def by simp
  then show "- half_safe \<le> 1" "3 \<le> half_safe" by linarith+
  show "\<forall>v \<in> set [Fin 1, Fin 3, Fin 2]. bounded_between 1 3 v"
    by (simp add: bounded_between_def) code_simp
qed simp_all

text \<open>
  Fact.  \<open>Median\<close> of a sorted slice lies between the two middle values (which are the
  same value when the length is odd), and does not panic.
\<close>
theorem Median_between:
  assumes "values \<noteq> []" "ascending values"
    and "\<forall>v \<in> set values. bounded_between (- half_safe) half_safe v"
  shows "\<exists>m. Median values = Some m \<and>
    values ! ((length values - 1) div 2) \<le> m \<and> m \<le> values ! (length values div 2)"
proof -
  let ?n = "length values"
  let ?a = "values ! ((?n - 1) div 2)" and ?b = "values ! (?n div 2)"
  have n: "0 < ?n" using assms(1) by simp
  have idx: "(?n - 1) div 2 < ?n" "?n div 2 < ?n"
    using n div_le_dividend [of "?n - 1" 2] div_less_dividend [of 2 ?n] by linarith+
  have L: "go_div (int ?n - 1) 2 = int ((?n - 1) div 2)" "go_div (int ?n) 2 = int (?n div 2)"
    using n of_nat_diff [of 1 ?n, where ?'a = int] by (simp_all add: go_div_nonneg zdiv_int Suc_leI)
  have G: "Get values (go_div (int ?n - 1) 2) = Some ?a" "Get values (go_div (int ?n) 2) = Some ?b"
    unfolding L Get_def using idx by auto
  have a: "bounded_between (- half_safe) half_safe ?a" and b: "bounded_between (- half_safe) half_safe ?b"
    using assms(3) idx by auto
  show ?thesis
  proof (cases "go_div (int ?n - 1) 2 = go_div (int ?n) 2")
    case True
    then have "?a = ?b" unfolding L by simp
    moreover have "\<not> is_nan ?a" using a by (blast dest: bounded_not_nan)
    ultimately show ?thesis using True G n by (simp add: Median_def Len_def Let_def)
  next
    case False
    then have "(?n - 1) div 2 < ?n div 2" unfolding L by (simp add: le_neq_implies_less div_le_mono)
    then have ab: "?a \<le> ?b" using assms(2) idx by (simp add: sorted_wrt_nth_less)
    have fin: "is_finite ?a" "is_finite ?b" and rep: "rep binary64 (fval ?a)" "rep binary64 (fval ?b)"
      using a b by (auto simp: bounded_between_def rep_fval)
    have le: "fval ?a \<le> fval ?b" using ab fin by (simp add: le_f64_fval)
    have sum: "\<bar>fval ?a + fval ?b\<bar> \<le> safe"
      using a b half_safe by (simp add: bounded_between_def abs_le_iff)
    note s = plus_in_range [OF fin sum]
    have "\<bar>rnd binary64 (fval ?a + fval ?b)\<bar> \<le> safe" using sum rep_safe by (rule b64.rnd_abs_le)
    then have "\<bar>fval (?a + ?b) / fval (Fin 2)\<bar> \<le> safe" using s(2) half_safe by simp
    note m = divide_in_range [OF s(1) _ _ this, simplified]
    have "?a \<le> (?a + ?b) / Fin 2 \<and> (?a + ?b) / Fin 2 \<le> ?b"
      using b64.rnd_midpoint [OF rep le] m s(2) fin by (simp add: le_f64_fval)
    then show ?thesis using False G n by (simp add: Median_def Len_def Let_def)
  qed
qed

theorem Median_between_witness:
  "\<exists>m. Median [Fin 1, Fin 2] = Some m \<and> [Fin 1, Fin 2] ! ((length [Fin 1, Fin 2] - 1) div 2) \<le> m \<and>
    m \<le> [Fin 1, Fin 2] ! (length [Fin 1, Fin 2] div 2)"
proof (rule Median_between)
  have "(4::rat) \<le> half_safe"
    using powi_le_iff [of 2 1022] unfolding half_safe_def by simp
  then have "- half_safe \<le> 1" "- half_safe \<le> 2" "1 \<le> half_safe" "2 \<le> half_safe" by linarith+
  moreover have "f64_ok (Fin 1) \<and> f64_ok (Fin 2)" by code_simp
  ultimately show "\<forall>v \<in> set [Fin 1, Fin 2]. bounded_between (- half_safe) half_safe v"
    by (simp add: bounded_between_def del: f64_ok.simps)
qed simp_all

subsection \<open>Quantiles\<close>

lemma int_of_float_floor:
  assumes "is_finite x" "0 \<le> fval x" "fval x \<le> of_int k" "k < 9223372036854775808"
  shows "int_of_float x = \<lfloor>fval x\<rfloor>" "0 \<le> int_of_float x" "int_of_float x \<le> k"
proof -
  have "0 \<le> \<lfloor>fval x\<rfloor>" "\<lfloor>fval x\<rfloor> \<le> k"
    using assms(2,3) by (simp_all add: floor_le_iff)
  then show "int_of_float x = \<lfloor>fval x\<rfloor>" "0 \<le> int_of_float x" "int_of_float x \<le> k"
    using assms by (cases x; auto simp: trunc_rat_def Let_def)+
qed

text \<open>A quantile fraction between 0 and 1 gives an index inside the slice.\<close>

lemma quantile_index:
  assumes p: "f64_ok p" "is_finite p" "0 \<le> fval p" "fval p \<le> 1"
    and k: "0 \<le> k" "k \<le> 9007199254740992"
  shows "0 \<le> int_of_float (p * float_of_int k)" "int_of_float (p * float_of_int k) \<le> k"
proof -
  have kf: "float_of_int k = Fin (of_int k)" using k by (simp add: float_of_int_exact)
  have rk: "rep binary64 (of_int k)" "\<bar>of_int k :: rat\<bar> \<le> safe"
    using k int_in_range [of k] by simp_all
  have prod: "0 \<le> fval p * of_int k" "fval p * of_int k \<le> of_int k"
    using p k mult_right_mono [of "fval p" 1 "of_int k"] by simp_all
  then have "\<bar>fval p * fval (Fin (of_int k))\<bar> \<le> safe" using rk(2) by simp
  note idx = times_in_range [OF p(2) _ this, simplified]
  have "0 \<le> fval (p * Fin (of_int k))" "fval (p * Fin (of_int k)) \<le> of_int k"
    unfolding idx(2) using prod rk(1) by (auto intro: b64.rnd_nonneg b64.rnd_le_rep)
  then show "0 \<le> int_of_float (p * float_of_int k)" "int_of_float (p * float_of_int k) \<le> k"
    unfolding kf using int_of_float_floor [OF idx(1)] k by auto
qed

text \<open>
  Fact.  \<open>Quantile\<close> reads inside the slice, so it does not panic, for every quantile
  between 0 and 1 and every slice (of at most \<open>2^53\<close> values, which \<open>float64\<close> counts exactly).
\<close>
theorem Quantile_in_bounds:
  assumes "f64_ok p" "is_finite p" "0 \<le> fval p" "fval p \<le> 1"
    and "length values \<le> 9007199254740992"
  shows "Quantile values p \<noteq> None"
proof (cases "values = []")
  case False
  define k where "k = int (length values) - 1"
  have k: "0 \<le> k" "k \<le> 9007199254740992"
    using False assms(5) by (simp_all add: k_def Suc_leI)
  note b = quantile_index [OF assms(1-4) k]
  have n: "int (length values) = k + 1" by (simp add: k_def)
  show ?thesis
    using b by (auto simp: Quantile_def Len_def n Let_def Get_def)
qed (simp add: Quantile_def Len_def Let_def)

theorem Quantile_in_bounds_witness: "Quantile [Fin 3, Fin 5] (Fin (1/2)) \<noteq> None"
proof (rule Quantile_in_bounds)
  show "f64_ok (Fin (1/2))" by code_simp
qed simp_all

lemma to_float_fval: "is_finite x \<Longrightarrow> f64_ok x \<Longrightarrow> fval x \<noteq> 0 \<Longrightarrow> to_float binary64 s (fval x) = x"
  by (cases x) (auto simp: to_float_def Let_def binary64_def)

lemma to_float_zero [simp]: "to_float F s 0 = (if s then NegZero else Fin 0)"
  by (simp add: to_float_def)

lemma one_times_f64: "is_finite x \<Longrightarrow> f64_ok x \<Longrightarrow> canon (Fin 1 * x) = canon x"
  using to_float_fval [of x] by (cases "fval x = 0"; cases x) auto

lemma plus_zero_f64: "is_finite x \<Longrightarrow> f64_ok x \<Longrightarrow> z = Fin 0 \<or> z = NegZero \<Longrightarrow> canon (x + z) = canon x"
  using to_float_fval [of x] by (cases "fval x = 0"; cases x) auto

lemma zero_times_f64: "is_finite x \<Longrightarrow> Fin 0 * x = Fin 0 \<or> Fin 0 * x = NegZero"
  by (cases x) (auto simp: to_float_def)

text \<open>
  Fact.  Where the quantile falls exactly on an element, \<open>Quantile\<close> returns that
  element (up to the sign of zero): interpolation with weight 0 adds nothing.
\<close>
theorem Quantile_on_element:
  assumes "p * float_of_int (int (length values) - 1) = Fin (of_int (int k))"
    and "k < length values" "length values \<le> 9007199254740992"
    and "\<forall>v \<in> set values. f64_ok v \<and> is_finite v"
  shows "\<exists>q. Quantile values p = Some q \<and> canon q = canon (values ! k)"
proof -
  let ?n = "int (length values)"
  have k: "int_of_float (Fin (of_int (int k))) = int k"
    using assms(2,3) by (simp add: trunc_rat_def Let_def)
  have kf: "float_of_int (int k) = Fin (of_int (int k))"
    using assms(2,3) by (simp add: float_of_int_exact)
  have delta: "Fin (of_int (int k)) - Fin (of_int (int k)) = Fin 0"
    by (simp add: minus_f64_def to_float_def)
  show ?thesis
  proof (cases "int k = ?n - 1")
    case True
    then have n: "?n = int k + 1" by simp
    show ?thesis using assms(1,2) k unfolding Quantile_def Len_def Let_def Get_def n by simp
  next
    case False
    then have k1: "k + 1 < length values" using assms(2) by linarith
    let ?a = "values ! k" and ?b = "values ! (k + 1)"
    have a: "f64_ok ?a" "is_finite ?a" and b: "is_finite ?b" using assms(2,4) k1 by auto
    have one: "1 - Fin 0 = Fin 1"
      using float_of_int_exact [of 1] by (simp add: minus_f64_def one_f64_def float_of_int_def)
    have G: "Get values (int k) = Some ?a" "Get values (int k + 1) = Some ?b"
      using assms(2) k1 by (simp_all add: Get_def nat_add_distrib)
    have "canon ((1 - Fin 0) * ?a + Fin 0 * ?b) = canon (Fin 1 * ?a)"
      unfolding one using a(2) is_finite_canon one_times_f64 [OF a(2,1)] zero_times_f64 [OF b]
      by (intro plus_zero_f64 times_f64_ok) metis+
    then have "canon ((1 - Fin 0) * ?a + Fin 0 * ?b) = canon ?a"
      using one_times_f64 [OF a(2,1)] by simp
    moreover have "values \<noteq> []" using assms(2) by auto
    ultimately show ?thesis
      using False assms(1) k kf delta G by (simp add: Quantile_def Len_def Let_def)
  qed
qed

theorem Quantile_on_element_witness:
  "\<exists>q. Quantile [Fin 3, Fin 5, Fin 9] (Fin (1/2)) = Some q \<and> canon q = canon ([Fin 3, Fin 5, Fin 9] ! 1)"
proof (rule Quantile_on_element)
  show "Fin (1/2) * float_of_int (int (length [Fin 3, Fin 5, Fin 9]) - 1) = Fin (of_int (int 1))"
    by code_simp
  show "\<forall>v \<in> set [Fin 3, Fin 5, Fin 9]. f64_ok v \<and> is_finite v" by code_simp
qed simp_all

text \<open>
  Fact.  The interpolation rounds: between two equal samples of 3, the 30th percentile
  that \<open>Quantile\<close> computes is below 3, hence below every sample of the slice.
\<close>
theorem Quantile_below_samples:
  "case Quantile [Fin 3, Fin 3] (Fin 30 / Fin 100) of None \<Rightarrow> False | Some q \<Rightarrow> q < Fin 3"
  by code_simp

end
