(* ===== verification/Go_Text.thy ===== *)
theory Go_Text
  imports Prelude
begin

text \<open>
  The parts of Go's strings the program uses: \<open>strings.Split\<close> and \<open>strings.SplitN\<close> at a
  one-byte separator, decimal integers as \<open>strconv.Itoa\<close> prints them, and the conversions
  between strings and runes (UTF-8) that \<open>range\<close> over a string and \<open>string(runes)\<close> perform.
\<close>

subsection \<open>Splitting\<close>

fun split_on :: "char \<Rightarrow> string \<Rightarrow> string list" where
  "split_on d [] = [[]]"
| "split_on d (c # cs) =
     (if c = d then [] # split_on d cs
      else (case split_on d cs of [] \<Rightarrow> [[c]] | w # ws \<Rightarrow> (c # w) # ws))"

text \<open>\<open>strings.SplitN(s, d, 2)\<close>: at most one cut, at the first separator.\<close>

definition split_n2 :: "char \<Rightarrow> string \<Rightarrow> string list" where
  "split_n2 d s = (if d \<in> set s then [takeWhile (\<lambda>c. c \<noteq> d) s, tl (dropWhile (\<lambda>c. c \<noteq> d) s)] else [s])"

fun join :: "char \<Rightarrow> string list \<Rightarrow> string" where
  "join d [] = []"
| "join d [w] = w"
| "join d (w # ws) = w @ d # join d ws"

lemma split_on_not_Nil [simp]: "split_on d s \<noteq> []"
  by (induction s) (auto split: list.splits)

lemma split_on_no_sep: "d \<notin> set s \<Longrightarrow> split_on d s = [s]"
  by (induction s) auto

lemma split_on_append_sep: "split_on d (s @ d # t) = split_on d s @ split_on d t"
  by (induction s) (auto split: list.splits simp: neq_Nil_conv)

lemma split_on_pieces: "w \<in> set (split_on d s) \<Longrightarrow> d \<notin> set w"
  by (induction s arbitrary: w) (auto split: list.splits if_splits)

lemma join_split_on: "join d (split_on d s) = s"
proof (induction s)
  case (Cons c s)
  obtain w ws where "split_on d s = w # ws" using split_on_not_Nil by (metis neq_Nil_conv)
  with Cons show ?case by (cases ws) auto
qed simp

text \<open>Splitting a stream in two parts: the last piece of the first part is continued.\<close>

lemma split_on_append:
  "split_on d (s @ t) = butlast (split_on d s) @ split_on d (last (split_on d s) @ t)"
proof (induction s)
  case (Cons c s)
  obtain w ws where *: "split_on d s = w # ws" using split_on_not_Nil by (metis neq_Nil_conv)
  show ?case
  proof (cases "ws = []")
    case True
    with Cons * show ?thesis by auto
  next
    case False
    with Cons * show ?thesis by auto
  qed
qed simp

lemma split_n2_cut: "d \<notin> set t \<Longrightarrow> split_n2 d (t @ d # s) = [t, s]"
  by (simp add: split_n2_def)

lemma split_n2_no_sep: "d \<notin> set s \<Longrightarrow> split_n2 d s = [s]"
  by (simp add: split_n2_def)

lemma split_n2_length: "length (split_n2 d s) = (if d \<in> set s then 2 else 1)"
  by (simp add: split_n2_def)

lemma split_n2_two:
  assumes "split_n2 d s = [t, u]"
  shows "s = t @ d # u" and "d \<notin> set t"
proof -
  have d: "d \<in> set s" and tu: "t = takeWhile (\<lambda>c. c \<noteq> d) s" "u = tl (dropWhile (\<lambda>c. c \<noteq> d) s)"
    using assms by (auto simp: split_n2_def split: if_splits)
  from d obtain a b where s: "s = a @ d # b" "d \<notin> set a" by (meson split_list_first)
  show "s = t @ d # u" and "d \<notin> set t"
    using tu s by simp_all
qed

subsection \<open>Decimal integers\<close>

definition digit_char :: "nat \<Rightarrow> char" where
  "digit_char d = char_of (48 + d)"

definition is_digit :: "char \<Rightarrow> bool" where
  "is_digit c \<longleftrightarrow> 48 \<le> (of_char c :: nat) \<and> (of_char c :: nat) \<le> 57"

definition digit_val :: "char \<Rightarrow> nat" where
  "digit_val c = of_char c - 48"

fun nat_digits :: "nat \<Rightarrow> string" where
  "nat_digits n = (if n < 10 then [digit_char n] else nat_digits (n div 10) @ [digit_char (n mod 10)])"

declare nat_digits.simps [simp del]

definition itoa :: "int \<Rightarrow> string" where
  "itoa i = (if i < 0 then CHR ''-'' # nat_digits (nat (- i)) else nat_digits (nat i))"

definition digits_val :: "string \<Rightarrow> nat" where
  "digits_val = foldl (\<lambda>a c. a * 10 + digit_val c) 0"

lemma of_char_digit: "d < 10 \<Longrightarrow> (of_char (digit_char d) :: nat) = 48 + d"
  by (simp add: digit_char_def)

lemma is_digit_digit_char [simp]: "d < 10 \<Longrightarrow> is_digit (digit_char d)"
  by (simp add: is_digit_def of_char_digit)

lemma digit_val_digit_char [simp]: "d < 10 \<Longrightarrow> digit_val (digit_char d) = d"
  by (simp add: digit_val_def of_char_digit)

lemma nat_digits_all: "\<forall>c \<in> set (nat_digits n). is_digit c"
  by (induction n rule: nat_digits.induct) (subst nat_digits.simps, auto)

lemma nat_digits_not_Nil [simp]: "nat_digits n \<noteq> []"
  by (subst nat_digits.simps) auto

lemma digits_val_append: "digits_val (s @ t) = digits_val s * 10 ^ length t + digits_val t"
proof (induction t rule: rev_induct)
  case (snoc c t)
  then show ?case
    by (simp add: digits_val_def algebra_simps flip: append_assoc)
qed (simp add: digits_val_def)

lemma digits_val_nat_digits [simp]: "digits_val (nat_digits n) = n"
proof (induction n rule: nat_digits.induct)
  case (1 n)
  show ?case
  proof (cases "n < 10")
    case True
    then show ?thesis by (subst nat_digits.simps) (simp add: digits_val_def)
  next
    case False
    then have "digits_val (nat_digits n) = digits_val (nat_digits (n div 10)) * 10 + n mod 10"
      by (subst nat_digits.simps) (simp add: digits_val_append, simp add: digits_val_def)
    then show ?thesis using 1 False by simp
  qed
qed

lemma nat_digits_inject: "nat_digits m = nat_digits n \<Longrightarrow> m = n"
  by (metis digits_val_nat_digits)

lemma is_digit_not_sign: "is_digit c \<Longrightarrow> c \<noteq> CHR ''-'' \<and> c \<noteq> CHR ''+'' \<and> c \<noteq> CHR ''.''"
  by (auto simp: is_digit_def)

lemma itoa_inject: "itoa i = itoa j \<Longrightarrow> i = j"
proof -
  assume eq: "itoa i = itoa j"
  have d: "nat_digits n \<noteq> CHR ''-'' # s" for n s
    using nat_digits_all [of n] is_digit_not_sign by fastforce
  have d': "CHR ''-'' # s \<noteq> nat_digits n" for n s
    using d [of n s] by metis
  show ?thesis using eq
    by (cases "i < 0"; cases "j < 0") (auto simp: itoa_def d d' dest!: nat_digits_inject)
qed

subsection \<open>Runes and UTF-8\<close>

definition rune_error :: rune where
  "rune_error = 65533"

definition is_cont :: "char \<Rightarrow> bool" where
  "is_cont c \<longleftrightarrow> 128 \<le> (of_char c :: nat) \<and> (of_char c :: nat) < 192"

definition cont_bits :: "char \<Rightarrow> nat" where
  "cont_bits c = of_char c mod 64"

definition surrogate :: "rune \<Rightarrow> bool" where
  "surrogate r \<longleftrightarrow> 55296 \<le> r \<and> r < 57344"

text \<open>
  The first rune of a non-empty byte string and the number of bytes it takes; an invalid or
  incomplete sequence is one byte wide and reads as \<open>rune_error\<close>.
\<close>

definition decode_rune :: "char \<Rightarrow> string \<Rightarrow> rune \<times> nat" where
  "decode_rune c cs =
     (let b = of_char c :: nat; bad = (rune_error, 1) in
      if b < 128 then (b, 1)
      else if b < 192 then bad
      else if b < 224 then
        (case cs of
           c1 # _ \<Rightarrow> (let r = (b mod 32) * 64 + cont_bits c1 in
             if is_cont c1 \<and> 127 < r then (r, 2) else bad)
         | _ \<Rightarrow> bad)
      else if b < 240 then
        (case cs of
           c1 # c2 # _ \<Rightarrow> (let r = ((b mod 16) * 64 + cont_bits c1) * 64 + cont_bits c2 in
             if is_cont c1 \<and> is_cont c2 \<and> 2047 < r \<and> \<not> surrogate r then (r, 3) else bad)
         | _ \<Rightarrow> bad)
      else if b < 248 then
        (case cs of
           c1 # c2 # c3 # _ \<Rightarrow>
             (let r = (((b mod 8) * 64 + cont_bits c1) * 64 + cont_bits c2) * 64 + cont_bits c3 in
              if is_cont c1 \<and> is_cont c2 \<and> is_cont c3 \<and> 65535 < r \<and> r \<le> 1114111 then (r, 4)
              else bad)
         | _ \<Rightarrow> bad)
      else bad)"

lemma decode_rune_width: "0 < snd (decode_rune c cs)"
  by (auto simp: decode_rune_def Let_def split: list.splits)

function utf8_decode :: "string \<Rightarrow> rune list" where
  "utf8_decode [] = []"
| "utf8_decode (c # cs) = (case decode_rune c cs of (r, w) \<Rightarrow> r # utf8_decode (drop (w - 1) cs))"
  by pat_completeness auto
termination
  by (relation "measure length") (auto simp: less_Suc_eq_le)

definition valid_rune :: "rune \<Rightarrow> bool" where
  "valid_rune r \<longleftrightarrow> r \<le> 1114111 \<and> \<not> surrogate r"

definition encode_rune :: "rune \<Rightarrow> string" where
  "encode_rune r0 =
     (let r = (if valid_rune r0 then r0 else rune_error) in
      if r < 128 then [char_of r]
      else if r < 2048 then [char_of (192 + r div 64), char_of (128 + r mod 64)]
      else if r < 65536 then
        [char_of (224 + r div 4096), char_of (128 + r div 64 mod 64), char_of (128 + r mod 64)]
      else
        [char_of (240 + r div 262144), char_of (128 + r div 4096 mod 64),
         char_of (128 + r div 64 mod 64), char_of (128 + r mod 64)])"

definition utf8_encode :: "rune list \<Rightarrow> string" where
  "utf8_encode rs = concat (map encode_rune rs)"

lemma lead_byte_mod:
  fixes n :: nat
  shows "n < 64 \<Longrightarrow> (128 + n) mod 64 = n" "n < 32 \<Longrightarrow> (192 + n) mod 32 = n"
    "n < 16 \<Longrightarrow> (224 + n) mod 16 = n" "n < 8 \<Longrightarrow> (240 + n) mod 8 = n"
  using mod_mult_self1 [of n 2 64] mod_mult_self1 [of n 6 32]
    mod_mult_self1 [of n 14 16] mod_mult_self1 [of n 30 8]
  by (simp_all add: add.commute)

text \<open>A number from its base-64 digits.\<close>

lemma base64_digits:
  fixes r :: nat
  shows "r div 64 * 64 + r mod 64 = r"
    and "(r div 4096 * 64 + r div 64 mod 64) * 64 + r mod 64 = r"
    and "((r div 262144 * 64 + r div 4096 mod 64) * 64 + r div 64 mod 64) * 64 + r mod 64 = r"
proof -
  have d: "r div 4096 = r div 64 div 64" "r div 262144 = r div 4096 div 64"
    by (simp_all flip: div_mult2_eq)
  show a: "r div 64 * 64 + r mod 64 = r" by simp
  have b: "r div 4096 * 64 + r div 64 mod 64 = r div 64" unfolding d(1) by simp
  then show "(r div 4096 * 64 + r div 64 mod 64) * 64 + r mod 64 = r" using a by simp
  have "r div 262144 * 64 + r div 4096 mod 64 = r div 4096" unfolding d(2) by simp
  then show "((r div 262144 * 64 + r div 4096 mod 64) * 64 + r div 64 mod 64) * 64 + r mod 64 = r"
    using a b by simp
qed

lemma cont_byte [simp]:
  "n < 64 \<Longrightarrow> is_cont (char_of (128 + n))" "n < 64 \<Longrightarrow> cont_bits (char_of (128 + n)) = n"
  by (simp_all add: is_cont_def cont_bits_def lead_byte_mod)

lemma decode_encode_rune:
  assumes "valid_rune r"
  shows "\<exists>c cs. encode_rune r = c # cs \<and> decode_rune c (cs @ rest) = (r, Suc (length cs))"
proof -
  consider "r < 128" | "128 \<le> r" "r < 2048" | "2048 \<le> r" "r < 65536" | "65536 \<le> r" "r \<le> 1114111"
    using assms unfolding valid_rune_def by linarith
  then show ?thesis
  proof cases
    case 1
    then show ?thesis using assms by (simp add: encode_rune_def decode_rune_def)
  next
    case 2
    then have "r div 64 < 32" by linarith
    then show ?thesis
      using 2 assms by (simp add: encode_rune_def decode_rune_def Let_def lead_byte_mod)
  next
    case 3
    note base64_digits(2) [of r]
    moreover have "r div 4096 < 16" using 3 by linarith
    moreover have "\<not> surrogate r" using assms by (simp add: valid_rune_def)
    ultimately show ?thesis
      using 3 assms by (simp add: encode_rune_def decode_rune_def Let_def lead_byte_mod)
  next
    case 4
    note base64_digits(3) [of r]
    moreover have "r div 262144 < 8" using 4 by linarith
    ultimately show ?thesis
      using 4 assms by (simp add: encode_rune_def decode_rune_def Let_def lead_byte_mod)
  qed
qed

lemma utf8_decode_encode_append:
  "\<forall>r \<in> set rs. valid_rune r \<Longrightarrow> utf8_decode (utf8_encode rs @ rest) = rs @ utf8_decode rest"
proof (induction rs)
  case (Cons r rs)
  obtain c cs where *: "encode_rune r = c # cs"
    "decode_rune c (cs @ utf8_encode rs @ rest) = (r, Suc (length cs))"
    using decode_encode_rune [of r "utf8_encode rs @ rest"] Cons.prems by auto
  have "utf8_encode (r # rs) = c # cs @ utf8_encode rs" by (simp add: utf8_encode_def *)
  then show ?case using * Cons by simp
qed (simp add: utf8_encode_def)

text \<open>Runes survive the way through a string.\<close>

lemma utf8_decode_encode: "\<forall>r \<in> set rs. valid_rune r \<Longrightarrow> utf8_decode (utf8_encode rs) = rs"
  using utf8_decode_encode_append [of rs "[]"] by simp

lemma utf8_decode_valid: "r \<in> set (utf8_decode s) \<Longrightarrow> valid_rune r"
proof (induction s rule: utf8_decode.induct)
  case (2 c cs)
  obtain q w where qw: "decode_rune c cs = (q, w)" by (cases "decode_rune c cs")
  have "valid_rune q"
  proof -
    let ?b = "of_char c :: nat"
    have b: "cont_bits x \<le> 63" for x by (simp add: cont_bits_def)
    have m: "?b mod 32 < 32" "?b mod 16 < 16" by simp_all
    have two: "?b mod 32 * 64 + cont_bits x \<le> 2047" for x
      using b [of x] m(1) by linarith
    have three: "(?b mod 16 * 64 + cont_bits x) * 64 + cont_bits y \<le> 65535" for x y
      using b [of x] b [of y] m(2) by (simp add: distrib_right)
    have "q < 128 \<or> q = rune_error \<or> q \<le> 2047 \<or> q \<le> 65535 \<and> \<not> surrogate q \<or> 65535 < q \<and> q \<le> 1114111"
      using qw two three unfolding decode_rune_def Let_def
      by (auto simp del: distrib_right_numeral split: if_splits list.splits)
    then show ?thesis
      by (auto simp: valid_rune_def surrogate_def rune_error_def)
  qed
  with 2 qw show ?case by auto
qed simp

text \<open>On ASCII, runes are the bytes.\<close>

definition ascii :: "string \<Rightarrow> bool" where
  "ascii s \<longleftrightarrow> (\<forall>c \<in> set s. (of_char c :: nat) < 128)"

lemma ascii_simps [simp]:
  "ascii []" "ascii (c # s) \<longleftrightarrow> (of_char c :: nat) < 128 \<and> ascii s" "ascii (s @ t) \<longleftrightarrow> ascii s \<and> ascii t"
  by (auto simp: ascii_def)

lemma utf8_decode_ascii: "ascii s \<Longrightarrow> utf8_decode s = map of_char s"
  by (induction s) (auto simp: decode_rune_def)

lemma utf8_encode_ascii: "ascii s \<Longrightarrow> utf8_encode (map of_char s) = s"
  by (induction s) (auto simp: utf8_encode_def encode_rune_def valid_rune_def surrogate_def)

declare utf8_decode.simps(2) [simp del]

end
