(* ===== verification/Strconv.thy ===== *)
theory Strconv
  imports Float_Arith Go_Text
begin

text \<open>
  \<open>strconv.ParseFloat(s, 32)\<close> and \<open>strconv.FormatFloat(v, 'f', 6, 32)\<close> of Go 1.5 (the release
  the build uses), as the program calls them.  Parsing reads decimal notation and the special
  names, rounds the exact decimal to the nearest \<open>float32\<close> and returns it as a \<open>float64\<close>;
  formatting rounds to \<open>float32\<close> first and prints six decimals, ties to even.
\<close>

datatype num_error = ErrSyntax | ErrRange

text \<open>Digits and zero padding of concrete numbers, for evaluation.\<close>

lemma digit_char_eval:
  "digit_char 0 = CHR ''0''" "digit_char (Suc 0) = CHR ''1''" "digit_char 1 = CHR ''1''"
  "digit_char 2 = CHR ''2''" "digit_char 3 = CHR ''3''" "digit_char 4 = CHR ''4''"
  "digit_char 5 = CHR ''5''" "digit_char 6 = CHR ''6''" "digit_char 7 = CHR ''7''"
  "digit_char 8 = CHR ''8''" "digit_char 9 = CHR ''9''"
  by code_simp+

lemma replicate_numeral: "replicate (numeral k) x = x # replicate (pred_numeral k) x"
  by (simp add: numeral_eq_Suc)

subsection \<open>Reading a number\<close>

definition lower :: "char \<Rightarrow> char" where
  "lower c = (if 65 \<le> (of_char c :: nat) \<and> (of_char c :: nat) \<le> 90 then char_of (of_char c + 32 :: nat) else c)"

text \<open>The names \<open>inf\<close>, \<open>infinity\<close> (with a sign) and \<open>nan\<close> (without), in any case.\<close>

definition special :: "string \<Rightarrow> f64 option" where
  "special s = (let l = map lower s in
     if l \<in> {''+inf'', ''+infinity'', ''inf'', ''infinity''} then Some (Inf False)
     else if l \<in> {''-inf'', ''-infinity''} then Some (Inf True)
     else if l = ''nan'' then Some NaN
     else None)"

definition read_sign :: "string \<Rightarrow> bool \<times> string" where
  "read_sign s = (case s of
     c # r \<Rightarrow> if c = CHR ''+'' then (False, r) else if c = CHR ''-'' then (True, r) else (False, s)
   | [] \<Rightarrow> (False, s))"

text \<open>The exponent's digits; the value stops growing at five digits.\<close>

definition read_exp_digits :: "string \<Rightarrow> int option" where
  "read_exp_digits s =
     (if s \<noteq> [] \<and> (\<forall>c \<in> set s. is_digit c)
      then Some (foldl (\<lambda>e c. if e < 10000 then e * 10 + int (digit_val c) else e) 0 s)
      else None)"

definition read_exponent :: "string \<Rightarrow> int option" where
  "read_exponent s = (case s of
     [] \<Rightarrow> Some 0
   | c # r \<Rightarrow>
       if c = CHR ''e'' \<or> c = CHR ''E''
       then (case read_sign r of (neg, ds) \<Rightarrow> map_option (\<lambda>e. if neg then - e else e) (read_exp_digits ds))
       else None)"

text \<open>Sign, digits without the point, decimal exponent; the whole string must be a number.\<close>

definition read_float :: "string \<Rightarrow> (bool \<times> nat \<times> int) option" where
  "read_float s =
     (case read_sign s of (neg, s1) \<Rightarrow>
      let ip = takeWhile is_digit s1; s2 = dropWhile is_digit s1;
          dot = (s2 \<noteq> [] \<and> hd s2 = CHR ''.'');
          fp = (if dot then takeWhile is_digit (tl s2) else []);
          s3 = (if dot then dropWhile is_digit (tl s2) else s2)
      in if ip = [] \<and> fp = [] then None
         else (case read_exponent s3 of
                 None \<Rightarrow> None
               | Some e \<Rightarrow> Some (neg, digits_val (ip @ fp), e - int (length fp))))"

definition decimal :: "bool \<Rightarrow> nat \<Rightarrow> int \<Rightarrow> rat" where
  "decimal neg m e = (if neg then -1 else 1) * of_nat m * 10 powi e"

definition ParseFloat32 :: "string \<Rightarrow> f64 \<times> num_error option" where
  "ParseFloat32 s = (case special s of
     Some v \<Rightarrow> (v, None)
   | None \<Rightarrow> (case read_float s of
       None \<Rightarrow> (Fin 0, Some ErrSyntax)
     | Some (neg, m, e) \<Rightarrow>
         (let v = to_float binary32 neg (decimal neg m e)
          in case v of Inf _ \<Rightarrow> (v, Some ErrRange) | _ \<Rightarrow> (v, None))))"

subsection \<open>Printing a number\<close>

definition pad_left :: "nat \<Rightarrow> string \<Rightarrow> string" where
  "pad_left n s = replicate (n - length s) CHR ''0'' @ s"

definition format_fixed :: "bool \<Rightarrow> nat \<Rightarrow> string" where
  "format_fixed neg n =
     (if neg then ''-'' else []) @ nat_digits (n div 1000000) @ ''.'' @ pad_left 6 (nat_digits (n mod 1000000))"

definition FormatFloat32 :: "f64 \<Rightarrow> string" where
  "FormatFloat32 v = (case float32_of v of
     NaN \<Rightarrow> ''NaN''
   | Inf s \<Rightarrow> if s then ''-Inf'' else ''+Inf''
   | x \<Rightarrow> format_fixed (fsign x) (nat (round_half_even (\<bar>fval x\<bar> * 1000000))))"

subsection \<open>Results of parsing are values of the format\<close>

lemma rep32_rep64:
  assumes "rep binary32 q"
  shows "rep binary64 q"
proof -
  obtain m e where q: "q = of_int m * 2 powi e" and m: "\<bar>m\<bar> < 2 ^ 24" and e: "-149 \<le> e"
    using assms by (auto simp: rep_def binary32_def)
  have "\<bar>m\<bar> < 2 ^ 53" "-1074 \<le> e" using m e by auto
  then show ?thesis unfolding rep_def q binary64_def by auto
qed

lemma to_float32_result:
  "\<exists>r. to_float binary32 s q \<in> {Inf (q < 0), NegZero, Fin r} \<and>
     rep binary32 r \<and> (r = 0 \<or> ilog2 \<bar>r\<bar> < 128)"
proof (cases "rnd binary32 q = 0 \<or> ilog2 \<bar>rnd binary32 q\<bar> < 128")
  case True
  then show ?thesis
    using b32.rnd_rep [of q]
    by (intro exI [of _ "rnd binary32 q"]) (auto simp: to_float_def Let_def binary32_def)
next
  case False
  then show ?thesis
    using b32.rep_zero by (intro exI [of _ 0]) (auto simp: to_float_def Let_def binary32_def)
qed

lemma to_float32_ok [simp, intro]: "f64_ok (to_float binary32 s q)"
  using to_float32_result [of s q] rep32_rep64 by (auto simp: b64.rep_iff_rnd)

lemma to_float32_range:
  assumes "is_finite (to_float binary32 s q)"
  shows "\<bar>fval (to_float binary32 s q)\<bar> < 2 powi 128"
proof -
  obtain r where r: "to_float binary32 s q \<in> {Inf (q < 0), NegZero, Fin r}" "r = 0 \<or> ilog2 \<bar>r\<bar> < 128"
    using to_float32_result by metis
  have "r \<noteq> 0 \<Longrightarrow> \<not> 128 \<le> ilog2 \<bar>r\<bar> \<Longrightarrow> \<bar>r\<bar> < 2 powi 128"
    using le_ilog2_iff [of "\<bar>r\<bar>" 128] by linarith
  with r have "\<bar>r\<bar> < 2 powi 128" by force
  then show ?thesis using r(1) assms by auto
qed

lemma ParseFloat32_cases:
  assumes "ParseFloat32 s = (v, None)"
  shows "(\<exists>b. v = Inf b) \<or> v = NaN \<or> (\<exists>b q. v = to_float binary32 b q \<and> is_finite v)"
proof (cases "special s")
  case None
  then obtain neg m e where "read_float s = Some (neg, m, e)"
    using assms by (auto simp: ParseFloat32_def split: option.splits)
  then have v: "v = to_float binary32 neg (decimal neg m e)" and fin: "\<forall>b. v \<noteq> Inf b"
    using None assms by (auto simp: ParseFloat32_def Let_def split: f64.splits)
  from fin have "v = NaN \<or> is_finite v" by (cases v; blast?; simp)
  then show ?thesis using v by blast
next
  case (Some w)
  then show ?thesis using assms
    by (auto simp: ParseFloat32_def special_def Let_def split: if_splits)
qed

lemma ParseFloat32_ok: "ParseFloat32 s = (v, None) \<Longrightarrow> f64_ok v"
  using ParseFloat32_cases [of s v] by auto

lemma ParseFloat32_range:
  "ParseFloat32 s = (v, None) \<Longrightarrow> is_finite v \<Longrightarrow> \<bar>fval v\<bar> < 2 powi 128"
  using ParseFloat32_cases [of s v] to_float32_range by auto

lemma float32_of_ok: "f64_ok x \<Longrightarrow> f64_ok (float32_of x)"
  by (cases x) (auto simp del: f64_ok.simps(1))

subsection \<open>Reading what was printed\<close>

lemma takeWhile_digits_append:
  assumes "\<forall>c \<in> set ds. is_digit c" "r = [] \<or> \<not> is_digit (hd r)"
  shows "takeWhile is_digit (ds @ r) = ds" "dropWhile is_digit (ds @ r) = r"
  using assms by (induction ds) (auto simp: takeWhile_eq_Nil_iff dropWhile_eq_self_iff)

lemma length_nat_digits: "n < 10 ^ Suc d \<Longrightarrow> length (nat_digits n) \<le> Suc d"
proof (induction d arbitrary: n)
  case 0
  then show ?case by (subst nat_digits.simps) simp
next
  case (Suc d)
  show ?case
  proof (cases "n < 10")
    case False
    have "n div 10 < 10 ^ Suc d" using Suc.prems by (simp add: less_mult_imp_div_less)
    then have "length (nat_digits (n div 10)) \<le> Suc d" by (rule Suc.IH)
    then show ?thesis using False by (subst nat_digits.simps) simp
  qed (subst nat_digits.simps, simp)
qed

lemma zero_is_digit [simp]: "is_digit (CHR ''0'')" "\<not> is_digit (CHR ''.'')" "\<not> is_digit (CHR ''-'')"
  by (simp_all add: is_digit_def)

lemma digits_val_zeros: "digits_val (replicate k (CHR ''0'') @ s) = digits_val s"
  by (induction k) (simp_all add: digits_val_def digit_val_def)

lemma pad_left_digits:
  assumes "n < 1000000"
  shows "length (pad_left 6 (nat_digits n)) = 6" "\<forall>c \<in> set (pad_left 6 (nat_digits n)). is_digit c"
    "digits_val (pad_left 6 (nat_digits n)) = n"
  using length_nat_digits [of n 5] nat_digits_all [of n] assms
  by (auto simp: pad_left_def digits_val_zeros)

lemma read_sign_digits:
  assumes "ds \<noteq> []" "\<forall>c \<in> set ds. is_digit c"
  shows "read_sign ((if neg then ''-'' else []) @ ds @ r) = (neg, ds @ r)"
  using assms is_digit_not_sign by (cases ds) (auto simp: read_sign_def)

lemma read_format_fixed: "read_float (format_fixed neg n) = Some (neg, n, -6)"
proof -
  let ?a = "nat_digits (n div 1000000)" and ?b = "pad_left 6 (nat_digits (n mod 1000000))"
  have a: "?a \<noteq> []" "\<forall>c \<in> set ?a. is_digit c" using nat_digits_all by auto
  have b: "length ?b = 6" "\<forall>c \<in> set ?b. is_digit c" "digits_val ?b = n mod 1000000"
    using pad_left_digits [of "n mod 1000000"] by simp_all
  have s: "read_sign (format_fixed neg n) = (neg, ?a @ ''.'' @ ?b)"
    unfolding format_fixed_def using a by (rule read_sign_digits)
  have tw: "takeWhile is_digit (?a @ ''.'' @ ?b) = ?a" "dropWhile is_digit (?a @ ''.'' @ ?b) = ''.'' @ ?b"
    using a by (auto intro!: takeWhile_digits_append)
  have tb: "takeWhile is_digit ?b = ?b" "dropWhile is_digit ?b = []"
    using b(2) by (auto simp: takeWhile_eq_all_conv dropWhile_eq_Nil_conv)
  have "digits_val (?a @ ?b) = n" using b by (simp add: digits_val_append)
  then show ?thesis using a b
    by (simp only: read_float_def s prod.case tw Let_def) (simp add: tb read_exponent_def)
qed

lemma lower_digit: "is_digit c \<Longrightarrow> lower c = c"
  by (simp add: lower_def is_digit_def)

lemma special_number:
  assumes "ds \<noteq> []" "\<forall>c \<in> set ds. is_digit c"
  shows "special ((if neg then ''-'' else []) @ ds @ r) = None"
proof -
  obtain c cs where ds: "ds = c # cs" using assms(1) by (cases ds) auto
  have c: "is_digit c" using assms(2) ds by simp
  then have "c \<noteq> CHR ''i''" "c \<noteq> CHR ''n''" "c \<noteq> CHR ''+''" "c \<noteq> CHR ''-''"
    by (auto simp: is_digit_def)
  moreover have "lower (CHR ''-'') = CHR ''-''" by (simp add: lower_def)
  ultimately show ?thesis using lower_digit [OF c]
    by (cases neg) (simp_all add: special_def Let_def ds)
qed

lemma special_format_fixed: "special (format_fixed neg n) = None"
  unfolding format_fixed_def using nat_digits_all by (intro special_number) auto

lemma ParseFloat32_format_fixed:
  "ParseFloat32 (format_fixed neg n) =
    (let v = to_float binary32 neg (decimal neg n (-6))
     in case v of Inf _ \<Rightarrow> (v, Some ErrRange) | _ \<Rightarrow> (v, None))"
  by (simp add: ParseFloat32_def special_format_fixed read_format_fixed)

lemma to_float32_exact:
  assumes "rep binary32 q" "q = 0 \<or> ilog2 \<bar>q\<bar> < 128" "q \<noteq> 0 \<or> \<not> s"
  shows "to_float binary32 s q = Fin q"
  using assms b32.rnd_id [OF assms(1)] by (auto simp: to_float_def Let_def binary32_def)

lemma decimal_micro: "decimal neg n (-6) = (if neg then -1 else 1) * of_nat n / 1000000"
  by (simp add: decimal_def power_int_minus)

text \<open>
  Fact.  What the relay prints for a finite value reads back, digit for digit, as a
  decimal within half a millionth of the value rounded to \<open>float32\<close>.
\<close>
theorem FormatFloat32_accurate:
  assumes "is_finite (float32_of v)"
  shows "\<exists>neg n. read_float (FormatFloat32 v) = Some (neg, n, -6) \<and>
    \<bar>decimal neg n (-6) - fval (float32_of v)\<bar> \<le> 1 / 2000000"
proof -
  let ?x = "float32_of v"
  let ?q = "\<bar>fval ?x\<bar> * 1000000"
  define n where "n = nat (round_half_even ?q)"
  have "0 \<le> round_half_even ?q"
    using round_half_even_mono [of 0 ?q] round_half_even_of_int [of 0] by simp
  then have n: "(of_nat n :: rat) = of_int (round_half_even ?q)" by (simp add: n_def)
  have "FormatFloat32 v = format_fixed (fsign ?x) n"
    using assms by (cases ?x) (auto simp: FormatFloat32_def n_def)
  then have r: "read_float (FormatFloat32 v) = Some (fsign ?x, n, -6)"
    by (simp add: read_format_fixed)
  have s: "fval ?x = (if fsign ?x then -1 else 1) * \<bar>fval ?x\<bar>"
    using assms by (cases ?x) auto
  have "\<bar>of_nat n - ?q\<bar> \<le> 1 / 2" using round_half_even_dist [of ?q] n by simp
  moreover have "of_nat n / 1000000 - \<bar>fval ?x\<bar> = (of_nat n - ?q) / 1000000"
    by (simp add: diff_divide_distrib)
  ultimately have "\<bar>of_nat n / 1000000 - \<bar>fval ?x\<bar>\<bar> \<le> 1 / 2000000"
    by (simp only: abs_divide)
  then have "\<bar>decimal (fsign ?x) n (-6) - fval ?x\<bar> \<le> 1 / 2000000"
    unfolding decimal_micro by (subst s) (auto simp: abs_minus_commute)
  then show ?thesis using r by blast
qed

theorem FormatFloat32_accurate_witness:
  "\<exists>neg n. read_float (FormatFloat32 (Fin (1/3))) = Some (neg, n, -6) \<and>
    \<bar>decimal neg n (-6) - fval (float32_of (Fin (1/3)))\<bar> \<le> 1 / 2000000"
proof (rule FormatFloat32_accurate)
  show "is_finite (float32_of (Fin (1/3)))" by code_simp
qed

lemma FormatFloat32_micro:
  assumes "rep binary32 q" "q = 0 \<or> ilog2 \<bar>q\<bar> < 128" "q * 1000000 = of_int k"
  shows "FormatFloat32 (Fin q) = format_fixed (q < 0) (nat \<bar>k\<bar>)"
proof -
  have f: "float32_of (Fin q) = Fin q" using assms(1,2) by (simp add: to_float32_exact)
  have "\<bar>q\<bar> * 1000000 = of_int \<bar>k\<bar>" using assms(3) by (metis abs_mult abs_numeral of_int_abs)
  then show ?thesis by (simp add: FormatFloat32_def f del: float32_of.simps of_int_abs)
qed

lemma ParseFloat32_printed:
  assumes "rep binary32 q" "q = 0 \<or> ilog2 \<bar>q\<bar> < 128" "q * 1000000 = of_int k"
  shows "ParseFloat32 (FormatFloat32 (Fin q)) = (Fin q, None)"
proof -
  have "q = of_int k / 1000000" using assms(3) by (simp add: eq_divide_eq)
  then have "decimal (q < 0) (nat \<bar>k\<bar>) (-6) = q"
    by (auto simp: decimal_micro)
  then show ?thesis
    using to_float32_exact [OF assms(1,2), of "q < 0"] by (simp add: FormatFloat32_micro [OF assms] ParseFloat32_format_fixed)
qed

text \<open>The digits before the point of a \<open>float32\<close>: at most 39.\<close>

lemma micro_digits:
  assumes "q = 0 \<or> ilog2 \<bar>q\<bar> < 128" "q * 1000000 = of_int k"
  shows "length (nat_digits (nat \<bar>k\<bar> div 1000000)) \<le> 39"
proof -
  have "\<bar>q\<bar> < 2 powi 128"
  proof (cases "q = 0")
    case False
    then have "\<bar>q\<bar> < 2 powi (ilog2 \<bar>q\<bar> + 1)" by (intro ilog2_bounds) simp
    also have "\<dots> \<le> 2 powi 128" using assms(1) False by (simp only: powi_le_iff) simp
    finally show ?thesis .
  qed simp
  moreover have "of_int \<bar>k\<bar> = \<bar>q\<bar> * 1000000" using assms(2) by (metis abs_mult abs_numeral of_int_abs)
  ultimately have "(of_int \<bar>k\<bar> :: rat) < of_int (2 ^ 128 * 1000000)" by (simp add: power_int_def)
  then have "\<bar>k\<bar> < 2 ^ 128 * 1000000" by (simp only: of_int_less_iff)
  then have "nat \<bar>k\<bar> div 1000000 < 10 ^ Suc 38" by simp
  from length_nat_digits [OF this] show ?thesis by simp
qed

text \<open>
  Fact.  A \<open>float32\<close> value with at most six decimals (every integer up to \<open>2^24\<close>,
  0.75, 0.5, ...) survives printing and parsing unchanged.
\<close>
theorem ParseFloat32_FormatFloat32:
  assumes "rep binary32 q" "q = 0 \<or> ilog2 \<bar>q\<bar> < 128" "q * 1000000 = of_int k"
  shows "ParseFloat32 (FormatFloat32 (Fin q)) = (Fin q, None)"
  using assms by (rule ParseFloat32_printed)

theorem ParseFloat32_FormatFloat32_witness:
  "ParseFloat32 (FormatFloat32 (Fin (- 3 / 4))) = (Fin (- 3 / 4), None)"
proof (rule ParseFloat32_FormatFloat32)
  have "rnd binary32 (- 3 / 4) = - 3 / 4" by code_simp
  then show "rep binary32 (- 3 / 4)" by (simp add: b32.rep_iff_rnd)
  show "- 3 / 4 = (0::rat) \<or> ilog2 \<bar>- 3 / 4\<bar> < 128" by code_simp
  show "(- 3 / 4 :: rat) * 1000000 = of_int (- 750000)" by simp
qed

text \<open>
  Fact.  Payload values go through \<open>float32\<close>: the count 16777217, exact as a \<open>float64\<close>,
  is printed as 16777216.
\<close>
theorem FormatFloat32_loses_count: "FormatFloat32 (Fin 16777217) = ''16777216.000000''"
proof -
  have "float32_of (Fin 16777217) = Fin 16777216" by code_simp
  moreover have "round_half_even 16777216000000 = 16777216000000"
    using round_half_even_of_int [of 16777216000000] by simp
  ultimately show ?thesis
    by (simp add: FormatFloat32_def format_fixed_def pad_left_def nat_digits.simps digit_char_eval replicate_numeral
        del: float32_of.simps)
qed

text \<open>A printed number, for evaluation.\<close>

lemma print_two: "FormatFloat32 (Fin 2) = ''2.000000''"
proof -
  have "float32_of (Fin 2) = Fin 2" by code_simp
  moreover have "round_half_even 2000000 = 2000000" using round_half_even_of_int [of 2000000] by simp
  ultimately show ?thesis
    by (simp add: FormatFloat32_def format_fixed_def pad_left_def nat_digits.simps digit_char_eval
        replicate_numeral del: float32_of.simps)
qed

end
