(* ===== verification/Metric.thy ===== *)
theory Metric
  imports Strconv Statistics
begin

text \<open>
  The metric type of \<open>statsgod/metric.go\<close> and its parser.  \<open>ParseMetricString\<close> scans the
  runes of a message into five fixed arrays, as the code does; a panic (an index outside an
  array) is \<open>None\<close>.  The second half relates the scan to its specification \<open>scan_segments\<close>,
  which cuts the message at the delimiters and keeps the pieces as lists.
\<close>

subsection \<open>Constants and types\<close>

definition RuneColon :: rune where "RuneColon = 58"
definition RunePipe :: rune where "RunePipe = 124"
definition RuneAt :: rune where "RuneAt = 64"
definition RuneSpace :: rune where "RuneSpace = 32"
definition RuneNull :: rune where "RuneNull = 0"

definition MaximumMetricLength :: nat where
  "MaximumMetricLength = 512"

definition MetricTypeCounter :: int where "MetricTypeCounter = 0"
definition MetricTypeGauge :: int where "MetricTypeGauge = 1"
definition MetricTypeSet :: int where "MetricTypeSet = 2"
definition MetricTypeTimer :: int where "MetricTypeTimer = 3"
definition MetricTypeUnknown :: int where "MetricTypeUnknown = 4"

lemmas metric_type_defs =
  MetricTypeCounter_def MetricTypeGauge_def MetricTypeSet_def MetricTypeTimer_def MetricTypeUnknown_def

lemmas rune_defs = RuneColon_def RunePipe_def RuneAt_def RuneSpace_def RuneNull_def

record MetricQuantile =
  qQuantile :: int
  qBoundary :: f64
  qAllValues :: ValueSlice
  qMean :: f64
  qMedian :: f64
  qMax :: f64
  qSum :: f64

record Metric =
  Key :: string
  MetricType :: int
  TotalHits :: f64
  LastValue :: f64
  ValuesPerSecond :: f64
  MinValue :: f64
  MaxValue :: f64
  MeanValue :: f64
  MedianValue :: f64
  Quantiles :: "MetricQuantile list"
  AllValues :: ValueSlice
  FlushTime :: int
  LastFlushed :: int
  SampleRate :: f64

text \<open>\<open>new(Metric)\<close>: every field has its zero value.\<close>

definition new_Metric :: Metric where
  "new_Metric = \<lparr>Key = [], MetricType = 0, TotalHits = 0, LastValue = 0, ValuesPerSecond = 0,
     MinValue = 0, MaxValue = 0, MeanValue = 0, MedianValue = 0, Quantiles = [], AllValues = [],
     FlushTime = 0, LastFlushed = 0, SampleRate = 0\<rparr>"

definition CreateSimpleMetric :: "string \<Rightarrow> f64 \<Rightarrow> int \<Rightarrow> Metric" where
  "CreateSimpleMetric key val metricType =
     new_Metric\<lparr>Key := key, MetricType := metricType, LastValue := val,
       AllValues := AllValues new_Metric @ [val], TotalHits := 1\<rparr>"

subsection \<open>Scanning a message\<close>

definition delimeters :: "rune list" where
  "delimeters = [RuneColon, RunePipe, RunePipe, RuneAt]"

record scan =
  metricStrings :: "rune list list"
  metricRuneCount :: "nat list"
  delimeterCount :: nat
  metricCount :: nat

definition scan_init :: scan where
  "scan_init = \<lparr>metricStrings = replicate 5 (replicate MaximumMetricLength 0),
     metricRuneCount = replicate 5 0, delimeterCount = 0, metricCount = 0\<rparr>"

text \<open>\<open>metricStrings[metricCount][metricRuneCount[metricCount]] = ch\<close> and the increment.\<close>

definition store_rune :: "scan \<Rightarrow> rune \<Rightarrow> scan option" where
  "store_rune s ch =
     (if metricCount s < length (metricRuneCount s) \<and> metricCount s < length (metricStrings s) then
        (let n = metricRuneCount s ! metricCount s; row = metricStrings s ! metricCount s in
         if n < length row
         then Some (s\<lparr>metricStrings := (metricStrings s)[metricCount s := row[n := ch]],
                     metricRuneCount := (metricRuneCount s)[metricCount s := n + 1]\<rparr>)
         else None)
      else None)"

datatype 's loop_control = Continue 's | Break 's | Panic

definition scan_step :: "scan \<Rightarrow> rune \<Rightarrow> scan loop_control" where
  "scan_step s ch =
     (if ch = RuneSpace \<or> ch = RuneNull then Continue s
      else
        (let body =
           (if delimeterCount s < length delimeters \<and> metricCount s < length (metricStrings s) - 1 \<and>
               ch = delimeters ! delimeterCount s
            then Some (s\<lparr>delimeterCount := delimeterCount s + 1, metricCount := metricCount s + 1\<rparr>)
            else store_rune s ch)
         in case body of
              None \<Rightarrow> Panic
            | Some s' \<Rightarrow>
                if metricRuneCount s' ! metricCount s' = MaximumMetricLength then Break s' else Continue s'))"

fun scan_loop :: "scan \<Rightarrow> rune list \<Rightarrow> scan option" where
  "scan_loop s [] = Some s"
| "scan_loop s (ch # rs) =
     (case scan_step s ch of Continue s' \<Rightarrow> scan_loop s' rs | Break s' \<Rightarrow> Some s' | Panic \<Rightarrow> None)"

text \<open>\<open>metricStrings[i][:metricRuneCount[i]]\<close> and its conversion to a string.\<close>

definition segment :: "scan \<Rightarrow> nat \<Rightarrow> rune list" where
  "segment s i = take (metricRuneCount s ! i) (metricStrings s ! i)"

definition segment_string :: "scan \<Rightarrow> nat \<Rightarrow> string" where
  "segment_string s i = utf8_encode (segment s i)"

subsection \<open>Interpreting the pieces\<close>

datatype parse_error = MissingElements string | BadValue string | BadType string

definition getMetricType :: "string \<Rightarrow> int \<times> bool" where
  "getMetricType short =
     (if ''c'' = short then (MetricTypeCounter, True)
      else if ''g'' = short then (MetricTypeGauge, True)
      else if ''s'' = short then (MetricTypeSet, True)
      else if ''ms'' = short then (MetricTypeTimer, True)
      else (MetricTypeUnknown, False))"

text \<open>The sample rate: anything that is not a number in \<open>(0, 1]\<close> counts as 1.\<close>

definition sample_rate :: "string \<Rightarrow> f64" where
  "sample_rate s = (case ParseFloat32 s of (sample, rateErr) \<Rightarrow>
     if rateErr = None \<and> 0 < sample \<and> sample \<le> 1 then sample else 1)"

definition ParseMetricString :: "string \<Rightarrow> (Metric \<times> parse_error option) option" where
  "ParseMetricString metricString =
     (case scan_loop scan_init (utf8_decode metricString) of
        None \<Rightarrow> None
      | Some s \<Rightarrow> Some
         (if metricRuneCount s ! 0 = 0 \<or> metricRuneCount s ! 1 = 0 \<or> metricRuneCount s ! 2 = 0
          then (new_Metric, Some (MissingElements metricString))
          else
            (case ParseFloat32 (segment_string s 1) of (val, valueErr) \<Rightarrow>
             if valueErr \<noteq> None then (new_Metric, Some (BadValue metricString))
             else
               (case getMetricType (segment_string s 2) of (metricType, ok) \<Rightarrow>
                if \<not> ok then (new_Metric, Some (BadType metricString))
                else
                  (let sampleRate = sample_rate (segment_string s 4);
                       hits = (if sampleRate < 1 then 1 / sampleRate else 1)
                   in (new_Metric\<lparr>TotalHits := hits, Key := segment_string s 0,
                         MetricType := metricType, LastValue := val,
                         AllValues := AllValues new_Metric @ [val],
                         SampleRate := sampleRate\<rparr>, None))))))"

subsection \<open>Specification: cutting at the delimiters\<close>

text \<open>
  The pieces of a message: blanks and null bytes are skipped, each delimiter that is due ends
  a piece, and a piece of 512 runes ends the scan.
\<close>

fun scan_segments :: "rune list \<Rightarrow> rune list \<Rightarrow> rune list \<Rightarrow> rune list list" where
  "scan_segments ds cur [] = [cur]"
| "scan_segments ds cur (ch # rs) =
     (if ch = RuneSpace \<or> ch = RuneNull then scan_segments ds cur rs
      else if ds \<noteq> [] \<and> ch = hd ds then cur # scan_segments (tl ds) [] rs
      else if length cur + 1 = MaximumMetricLength then [cur @ [ch]]
      else scan_segments ds (cur @ [ch]) rs)"

definition pad_segments :: "rune list list \<Rightarrow> rune list list" where
  "pad_segments L = L @ replicate (5 - length L) []"

text \<open>What the pieces mean, without arrays or counters.\<close>

definition metric_of_segments :: "string \<Rightarrow> rune list list \<Rightarrow> Metric \<times> parse_error option" where
  "metric_of_segments msg L =
     (let str = (\<lambda>i. utf8_encode (L ! i)) in
      if L ! 0 = [] \<or> L ! 1 = [] \<or> L ! 2 = [] then (new_Metric, Some (MissingElements msg))
      else if snd (ParseFloat32 (str 1)) \<noteq> None then (new_Metric, Some (BadValue msg))
      else if \<not> snd (getMetricType (str 2)) then (new_Metric, Some (BadType msg))
      else
        (let rate = sample_rate (str 4); val = fst (ParseFloat32 (str 1))
         in (new_Metric\<lparr>TotalHits := (if rate < 1 then 1 / rate else 1), Key := str 0,
               MetricType := fst (getMetricType (str 2)), LastValue := val, AllValues := [val],
               SampleRate := rate\<rparr>, None)))"

definition parse_spec :: "string \<Rightarrow> Metric \<times> parse_error option" where
  "parse_spec msg = metric_of_segments msg (pad_segments (scan_segments delimeters [] (utf8_decode msg)))"

end
