(* ===== verification/Aggregation.thy ===== *)
theory Aggregation
  imports Metric
begin

text \<open>
  Aggregation and processing of metrics, \<open>AggregateMetric\<close> and \<open>ProcessMetric\<close> of
  \<open>statsgod/metric.go\<close>.  The store \<open>map[string]Metric\<close> is a map from namespaces to metrics;
  a panic inside the statistics makes \<open>ProcessMetric\<close> return \<open>None\<close>.
\<close>

type_synonym metric_map = "string \<rightharpoonup> Metric"

text \<open>The branch for a namespace that is already in the store.\<close>

definition merge_metric :: "Metric \<Rightarrow> Metric \<Rightarrow> Metric" where
  "merge_metric existingMetric metric =
     (let e1 = existingMetric\<lparr>TotalHits := TotalHits existingMetric + TotalHits metric\<rparr>;
          e2 = e1\<lparr>AllValues := AllValues e1 @ [LastValue metric]\<rparr>
      in if MetricType metric = MetricTypeCounter
         then e2\<lparr>LastValue := LastValue e2 + LastValue metric * TotalHits metric\<rparr>
         else if MetricType metric = MetricTypeGauge then e2\<lparr>LastValue := LastValue metric\<rparr>
         else if MetricType metric = MetricTypeSet then e2\<lparr>LastValue := LastValue metric\<rparr>
         else if MetricType metric = MetricTypeTimer then e2\<lparr>LastValue := LastValue metric\<rparr>
         else e2)"

definition AggregateMetric :: "metric_map \<Rightarrow> Metric \<Rightarrow> metric_map" where
  "AggregateMetric metrics metric =
     (case metrics (Key metric) of
        Some existingMetric \<Rightarrow> metrics(Key metric \<mapsto> merge_metric existingMetric metric)
      | None \<Rightarrow> metrics(Key metric \<mapsto> metric))"

definition Second :: duration where
  "Second = 1000000000"

text \<open>One configured quantile of a timer: the values up to the boundary and their statistics.\<close>

definition quantile_of :: "ValueSlice \<Rightarrow> int \<Rightarrow> MetricQuantile option" where
  "quantile_of vals q =
     (let percentile = float_of_int q / float_of_int 100
      in case Quantile vals percentile of
           None \<Rightarrow> None
         | Some boundary \<Rightarrow>
             (let qvals = takeWhile (\<lambda>v. \<not> boundary < v) vals
              in case (Minmax qvals, Median qvals) of
                   (Some (_, mx, _), Some med) \<Rightarrow>
                     Some \<lparr>qQuantile = q, qBoundary = boundary, qAllValues = qvals, qMean = Mean qvals,
                       qMedian = med, qMax = mx, qSum = Sum qvals\<rparr>
                 | _ \<Rightarrow> None))"

definition process_timer :: "Metric \<Rightarrow> int \<Rightarrow> int list \<Rightarrow> Metric option" where
  "process_timer metric flushInterval quantiles =
     (case (Minmax (AllValues metric), Median (AllValues metric)) of
        (Some (mn, mx, _), Some med) \<Rightarrow>
          fold_option
            (\<lambda>q m. case quantile_of (AllValues m) q of
                     None \<Rightarrow> None | Some quantile \<Rightarrow> Some (m\<lparr>Quantiles := Quantiles m @ [quantile]\<rparr>))
            quantiles
            (metric\<lparr>MinValue := mn, MaxValue := mx, MedianValue := med, MeanValue := Mean (AllValues metric),
               ValuesPerSecond := TotalHits metric / float_of_int flushInterval, Quantiles := []\<rparr>)
      | _ \<Rightarrow> None)"

definition ProcessMetric :: "Metric \<Rightarrow> duration \<Rightarrow> int list \<Rightarrow> Metric option" where
  "ProcessMetric metric0 flushDuration quantiles =
     (let flushInterval = go_div flushDuration Second;
          metric = metric0\<lparr>AllValues := sort_values (AllValues metric0)\<rparr>
      in if MetricType metric = MetricTypeCounter then
           Some (metric\<lparr>ValuesPerSecond := LastValue metric / float_of_int flushInterval\<rparr>)
         else if MetricType metric = MetricTypeGauge then
           (case Median (AllValues metric) of
              None \<Rightarrow> None
            | Some med \<Rightarrow> Some (metric\<lparr>MedianValue := med, MeanValue := Mean (AllValues metric)\<rparr>))
         else if MetricType metric = MetricTypeSet then
           (case UniqueCount (AllValues metric) of
              (vals, n) \<Rightarrow> Some (metric\<lparr>AllValues := vals, LastValue := float_of_int n\<rparr>))
         else if MetricType metric = MetricTypeTimer then process_timer metric flushInterval quantiles
         else Some metric)"

end
