(* ===== verification/Metric_Parse.thy ===== *)
theory Metric_Parse
  imports Metric
begin

text \<open>
  The parser of \<open>statsgod/metric.go\<close> is correct: the array scan never leaves its arrays and
  refines the specification; what a well-formed message means; which messages are rejected.
\<close>

subsection \<open>The array scan implements the cuts\<close>

definition segments :: "scan \<Rightarrow> rune list list" where
  "segments s = map2 take (metricRuneCount s) (metricStrings s)"

text \<open>\<open>D\<close> holds the finished pieces, \<open>cur\<close> the piece being read.\<close>

definition scan_rel :: "scan \<Rightarrow> rune list list \<Rightarrow> rune list \<Rightarrow> bool" where
  "scan_rel s D cur \<longleftrightarrow>
     length (metricStrings s) = 5 \<and> length (metricRuneCount s) = 5 \<and>
     (\<forall>row \<in> set (metricStrings s). length row = MaximumMetricLength) \<and>
     (\<forall>n \<in> set (metricRuneCount s). n \<le> MaximumMetricLength) \<and>
     metricCount s = length D \<and> delimeterCount s = length D \<and> length D \<le> 4 \<and>
     segments s = pad_segments (D @ [cur])"

lemma scan_rel_D:
  assumes "scan_rel s D cur"
  shows "length (metricStrings s) = 5" "length (metricRuneCount s) = 5"
    "i < 5 \<Longrightarrow> length (metricStrings s ! i) = MaximumMetricLength"
    "i < 5 \<Longrightarrow> metricRuneCount s ! i \<le> MaximumMetricLength"
    "metricCount s = length D" "delimeterCount s = length D" "length D \<le> 4"
    "segments s = pad_segments (D @ [cur])"
  using assms unfolding scan_rel_def by simp_all

lemma length_segments: "scan_rel s D cur \<Longrightarrow> length (segments s) = 5"
  unfolding segments_def by (simp add: scan_rel_D)

lemma segments_nth: "scan_rel s D cur \<Longrightarrow> i < 5 \<Longrightarrow> segments s ! i = segment s i"
  unfolding segments_def by (simp add: scan_rel_D segment_def)

lemma length_segment: "scan_rel s D cur \<Longrightarrow> i < 5 \<Longrightarrow> length (segment s i) = metricRuneCount s ! i"
  by (simp add: segment_def scan_rel_D(3,4))

lemma segment_cur:
  assumes "scan_rel s D cur"
  shows "segment s (length D) = cur"
proof -
  have "length D < 5" using assms by (simp add: scan_rel_def)
  then have "segment s (length D) = segments s ! length D"
    using assms by (simp add: segments_nth)
  also have "\<dots> = cur" using assms by (simp add: scan_rel_def pad_segments_def nth_append)
  finally show ?thesis .
qed

lemma count_cur: "scan_rel s D cur \<Longrightarrow> metricRuneCount s ! length D = length cur"
  using length_segment [of s D cur "length D"] segment_cur [of s D cur]
  by (auto simp: scan_rel_def)

lemma scan_rel_init: "scan_rel scan_init [] []"
  by (simp add: scan_rel_def scan_init_def segments_def pad_segments_def eval_nat_numeral)

lemma store_rune_rel:
  assumes rel: "scan_rel s D cur" and lt: "length cur < MaximumMetricLength"
  obtains s' where "store_rune s ch = Some s'" "scan_rel s' D (cur @ [ch])"
proof
  let ?k = "length D"
  let ?row = "metricStrings s ! ?k"
  let ?s' = "s\<lparr>metricStrings := (metricStrings s)[?k := ?row[length cur := ch]],
      metricRuneCount := (metricRuneCount s)[?k := length cur + 1]\<rparr>"
  note R = rel [unfolded scan_rel_def]
  have k: "?k < 5" using R by simp
  have row: "length ?row = MaximumMetricLength" using R k by simp
  have cnt: "metricRuneCount s ! ?k = length cur" using rel by (rule count_cur)
  show "store_rune s ch = Some ?s'"
    using R k row cnt lt by (simp add: store_rune_def Let_def)
  have cur: "take (length cur) ?row = cur"
    using segment_cur [OF rel] cnt by (simp add: segment_def)
  have "segments ?s' = (segments s)[?k := take (length cur + 1) (?row[length cur := ch])]"
    by (simp add: segments_def zip_update map_update)
  also have "take (length cur + 1) (?row[length cur := ch]) = cur @ [ch]"
    using row lt cur by (simp add: take_Suc_update)
  also have "(segments s)[?k := cur @ [ch]] = pad_segments (D @ [cur @ [ch]])"
    using R by (simp add: pad_segments_def)
  finally have seg: "segments ?s' = pad_segments (D @ [cur @ [ch]])" .
  have "\<forall>r \<in> set ((metricStrings s)[?k := ?row[length cur := ch]]). length r = MaximumMetricLength"
    using R row set_update_subset_insert by fastforce
  moreover have "\<forall>n \<in> set ((metricRuneCount s)[?k := length cur + 1]). n \<le> MaximumMetricLength"
    using R lt set_update_subset_insert by fastforce
  ultimately show "scan_rel ?s' D (cur @ [ch])"
    using R seg by (simp add: scan_rel_def)
qed

lemma next_segment_rel:
  assumes "scan_rel s D cur" "length D < 4"
  shows "scan_rel (s\<lparr>delimeterCount := delimeterCount s + 1, metricCount := metricCount s + 1\<rparr>) (D @ [cur]) []"
proof -
  have "replicate (4 - length D) ([]::rune list) = [] # replicate (3 - length D) []"
    using assms(2) by (simp flip: replicate_Suc add: Suc_diff_Suc)
  then show ?thesis
    using assms by (simp add: scan_rel_def segments_def pad_segments_def)
qed

lemma length_delimeters: "length delimeters = 4"
  by (simp add: delimeters_def)

lemma hd_drop_delimeters:
  "length D < 4 \<Longrightarrow> drop (length D) delimeters \<noteq> [] \<and> hd (drop (length D) delimeters) = delimeters ! length D"
  by (simp add: hd_drop_conv_nth length_delimeters)

lemma scan_loop_segments:
  assumes "scan_rel s D cur" "length cur < MaximumMetricLength"
  shows "\<exists>s' D' cur'. scan_loop s rs = Some s' \<and> scan_rel s' D' cur' \<and>
    D' @ [cur'] = D @ scan_segments (drop (length D) delimeters) cur rs"
  using assms
proof (induction rs arbitrary: s D cur)
  case Nil
  then show ?case by auto
next
  case (Cons ch rs)
  note R = Cons.prems(1) [unfolded scan_rel_def]
  show ?case
  proof (cases "ch = RuneSpace \<or> ch = RuneNull")
    case True
    with Cons show ?thesis by (auto simp: scan_step_def)
  next
    case not_blank: False
    show ?thesis
    proof (cases "length D < 4 \<and> ch = delimeters ! length D")
      case True
      let ?s = "s\<lparr>delimeterCount := delimeterCount s + 1, metricCount := metricCount s + 1\<rparr>"
      have rel: "scan_rel ?s (D @ [cur]) []"
        using next_segment_rel [OF Cons.prems(1)] True by blast
      have "metricRuneCount s ! (length D + 1) = 0"
        using count_cur [OF rel] by simp
      then have "scan_step s ch = Continue ?s"
        using True not_blank R by (simp add: scan_step_def length_delimeters MaximumMetricLength_def)
      moreover have "drop (length (D @ [cur])) delimeters = tl (drop (length D) delimeters)"
        by (simp add: drop_Suc drop_tl)
      ultimately show ?thesis
        using Cons.IH [OF rel] True not_blank hd_drop_delimeters [of D]
        by (simp add: MaximumMetricLength_def)
    next
      case no_delim: False
      obtain s' where s': "store_rune s ch = Some s'" "scan_rel s' D (cur @ [ch])"
        using store_rune_rel [OF Cons.prems] by metis
      have cnt: "metricRuneCount s' ! metricCount s' = length cur + 1"
        using count_cur [OF s'(2)] s'(2) by (simp add: scan_rel_def)
      have nd: "\<not> (drop (length D) delimeters \<noteq> [] \<and> ch = hd (drop (length D) delimeters))"
        using no_delim R by (auto simp: length_delimeters hd_drop_conv_nth)
      have step: "scan_step s ch =
          (if length cur + 1 = MaximumMetricLength then Break s' else Continue s')"
        using s'(1) cnt no_delim not_blank R by (auto simp: scan_step_def length_delimeters)
      show ?thesis
      proof (cases "length cur + 1 = MaximumMetricLength")
        case True
        then show ?thesis using step s'(2) nd not_blank by auto
      next
        case False
        then have "length (cur @ [ch]) < MaximumMetricLength" using Cons.prems(2) by simp
        from Cons.IH [OF s'(2) this] show ?thesis using step nd not_blank False by auto
      qed
    qed
  qed
qed

lemma pad_segments_nth_Nil: "scan_rel s D cur \<Longrightarrow> i < 5 \<Longrightarrow> metricRuneCount s ! i = 0 \<longleftrightarrow> segments s ! i = []"
  using length_segment [of s D cur i] segments_nth [of s D cur i] by auto

lemma parse_refines: "ParseMetricString msg = Some (parse_spec msg)"
proof -
  obtain s D cur where s: "scan_loop scan_init (utf8_decode msg) = Some s" "scan_rel s D cur"
    and L: "D @ [cur] = scan_segments delimeters [] (utf8_decode msg)"
    using scan_loop_segments [OF scan_rel_init, of "utf8_decode msg"]
    by (auto simp: MaximumMetricLength_def)
  have seg: "segments s = pad_segments (scan_segments delimeters [] (utf8_decode msg))"
    using s(2) L by (simp add: scan_rel_def)
  have str: "segment_string s i = utf8_encode (segments s ! i)" if "i < 5" for i
    using segments_nth [OF s(2) that] by (simp add: segment_string_def)
  have nil: "metricRuneCount s ! i = 0 \<longleftrightarrow> segments s ! i = []" if "i < 5" for i
    using s(2) that by (rule pad_segments_nth_Nil)
  show ?thesis
    unfolding ParseMetricString_def parse_spec_def metric_of_segments_def seg [symmetric] s(1)
    by (simp add: str nil new_Metric_def Let_def split: prod.splits)
qed

text \<open>
  Property C1.  \<open>ParseMetricString\<close> never reads or writes outside its arrays, whatever bytes
  arrive, and computes exactly what cutting the message at its delimiters specifies.
\<close>
theorem ParseMetricString_refines: "ParseMetricString msg = Some (parse_spec msg)"
  by (rule parse_refines)

subsection \<open>Cutting\<close>

definition blank :: "rune \<Rightarrow> bool" where
  "blank r \<longleftrightarrow> r = RuneSpace \<or> r = RuneNull"

lemma scan_segments_blanks: "scan_segments ds cur rs = scan_segments ds cur (filter (\<lambda>r. \<not> blank r) rs)"
  by (induction rs arbitrary: ds cur) (auto simp: blank_def)

lemma scan_segments_run:
  assumes "\<forall>r \<in> set xs. \<not> blank r" "ds \<noteq> [] \<Longrightarrow> hd ds \<notin> set xs"
    and "length cur + length xs < MaximumMetricLength"
  shows "scan_segments ds cur (xs @ rs) = scan_segments ds (cur @ xs) rs"
  using assms by (induction xs arbitrary: cur) (auto simp: blank_def)

lemma scan_segments_cut:
  assumes "\<forall>r \<in> set xs. \<not> blank r" "d \<notin> set xs" "\<not> blank d" "length xs < MaximumMetricLength"
  shows "scan_segments (d # ds) [] (xs @ d # rs) = xs # scan_segments ds [] rs"
  using scan_segments_run [of xs "d # ds" "[]" "d # rs"] assms by (simp add: blank_def)

lemma scan_segments_end:
  assumes "\<forall>r \<in> set xs. \<not> blank r" "ds \<noteq> [] \<Longrightarrow> hd ds \<notin> set xs" "length xs < MaximumMetricLength"
  shows "scan_segments ds [] xs = [xs]"
  using scan_segments_run [of xs ds "[]" "[]"] assms by simp

text \<open>A first piece that is cut by the limit or by the end of the message is the only one.\<close>

lemma scan_segments_single:
  assumes "d \<notin> set (filter (\<lambda>r. \<not> blank r) rs) \<or>
      MaximumMetricLength \<le> length cur + length (takeWhile (\<lambda>r. r \<noteq> d) (filter (\<lambda>r. \<not> blank r) rs))"
    and "length cur < MaximumMetricLength"
  shows "\<exists>x. scan_segments (d # ds) cur rs = [x]"
  using assms
proof (induction rs arbitrary: cur)
  case (Cons r rs)
  then show ?case
    by (cases "blank r"; cases "r = d") (auto simp: blank_def)
qed simp

subsection \<open>Well-formed messages\<close>

definition plain_runes :: "rune list \<Rightarrow> bool" where
  "plain_runes rs \<longleftrightarrow> rs \<noteq> [] \<and> length rs < MaximumMetricLength \<and> (\<forall>r \<in> set rs. \<not> blank r \<and> valid_rune r)"

text \<open>An ASCII field: no blank, no bar, not empty, within the limit.\<close>

definition plain_field :: "string \<Rightarrow> bool" where
  "plain_field s \<longleftrightarrow> s \<noteq> [] \<and> length s < MaximumMetricLength \<and>
     (\<forall>c \<in> set s. of_char c < (128::nat) \<and> c \<noteq> CHR '' '' \<and> c \<noteq> CHR 0x00 \<and> c \<noteq> CHR ''|'')"

lemmas field_eval =
  plain_runes_def plain_field_def blank_def rune_defs valid_rune_def surrogate_def MaximumMetricLength_def

lemma not_blank_bar [simp]: "\<not> blank RuneColon" "\<not> blank RunePipe" "\<not> blank RuneAt"
  by (simp_all add: blank_def rune_defs)

lemma of_char_eq_rune:
  "(of_char c = RuneSpace) = (c = CHR '' '')" "(of_char c = RuneNull) = (c = CHR 0x00)"
  "(of_char c = RunePipe) = (c = CHR ''|'')"
proof -
  have "RuneSpace = of_char (CHR '' '')" "RuneNull = of_char (CHR 0x00)" "RunePipe = of_char (CHR ''|'')"
    by (simp_all add: rune_defs)
  then show "(of_char c = RuneSpace) = (c = CHR '' '')" "(of_char c = RuneNull) = (c = CHR 0x00)"
    "(of_char c = RunePipe) = (c = CHR ''|'')"
    by (metis char_of_char)+
qed

lemma plain_field_runes:
  assumes "plain_field s"
  shows "map of_char s \<noteq> []" "\<forall>r \<in> set (map of_char s). \<not> blank r" "RunePipe \<notin> set (map of_char s)"
    "length (map (of_char :: char \<Rightarrow> nat) s) < MaximumMetricLength" "ascii s"
proof -
  have c: "of_char c \<noteq> RuneSpace \<and> of_char c \<noteq> RuneNull \<and> of_char c \<noteq> RunePipe \<and> of_char c < (128::nat)"
    if "c \<in> set s" for c
    using assms that unfolding plain_field_def of_char_eq_rune by blast
  show "map of_char s \<noteq> []" "length (map (of_char :: char \<Rightarrow> nat) s) < MaximumMetricLength"
    using assms by (simp_all add: plain_field_def)
  show "\<forall>r \<in> set (map of_char s). \<not> blank r" "ascii s"
    using c by (simp_all add: blank_def ascii_def)
  show "RunePipe \<notin> set (map of_char s)"
    using c by (metis (no_types, lifting) imageE list.set_map)
qed

definition parsed_metric :: "string \<Rightarrow> f64 \<Rightarrow> int \<Rightarrow> f64 \<Rightarrow> Metric" where
  "parsed_metric key v t rate =
     new_Metric\<lparr>Key := key, MetricType := t, LastValue := v, AllValues := [v], SampleRate := rate,
       TotalHits := (if rate < 1 then 1 / rate else 1)\<rparr>"

lemma runes_of_field: "ascii s \<Longrightarrow> utf8_encode (map of_char s) = s"
  by (rule utf8_encode_ascii)

lemma sample_rate_Nil: "sample_rate [] = 1"
  by (simp add: sample_rate_def ParseFloat32_def special_def read_float_def read_sign_def)

lemma metric_of_well_formed:
  assumes "plain_runes ks" "plain_field val" "plain_field typ"
    and "ParseFloat32 val = (v, None)" "getMetricType typ = (t, True)"
  shows "metric_of_segments msg [ks, map of_char val, map of_char typ, x, y] =
    (parsed_metric (utf8_encode ks) v t (sample_rate (utf8_encode y)), None)"
  using assms plain_field_runes [OF assms(2)] plain_field_runes [OF assms(3)]
  by (simp add: metric_of_segments_def runes_of_field parsed_metric_def plain_runes_def Let_def)

lemma of_char_colon: "of_char (CHR '':'') = RuneColon" "of_char (CHR ''|'') = RunePipe" "of_char (CHR ''@'') = RuneAt"
  by (simp_all add: rune_defs)

lemma decode_message:
  assumes "plain_runes ks" "ascii rest"
  shows "utf8_decode (utf8_encode ks @ rest) = ks @ map of_char rest"
  using assms utf8_decode_encode_append [of ks rest] utf8_decode_ascii [of rest]
  by (simp add: plain_runes_def)

lemma first_cuts:
  assumes "plain_runes ks" "RuneColon \<notin> set ks" "plain_field val"
  shows "scan_segments delimeters [] (ks @ RuneColon # map of_char val @ RunePipe # rs) =
    ks # map of_char val # scan_segments [RunePipe, RuneAt] [] rs"
  using assms plain_field_runes [OF assms(3)] scan_segments_cut [of ks RuneColon]
    scan_segments_cut [of "map of_char val" RunePipe]
  by (simp add: delimeters_def plain_runes_def)

lemma well_formed_message:
  assumes "plain_runes ks" "RuneColon \<notin> set ks" "plain_field val" "plain_field typ"
    and "ParseFloat32 val = (v, None)" "getMetricType typ = (t, True)"
  shows "ParseMetricString (utf8_encode ks @ '':'' @ val @ ''|'' @ typ) =
    Some (parsed_metric (utf8_encode ks) v t 1, None)"
proof -
  note F = plain_field_runes [OF assms(3)] plain_field_runes [OF assms(4)]
  have dec: "utf8_decode (utf8_encode ks @ '':'' @ val @ ''|'' @ typ) =
      ks @ RuneColon # map of_char val @ RunePipe # map of_char typ"
    using decode_message [OF assms(1), of "'':'' @ val @ ''|'' @ typ"] F by (simp add: rune_defs)
  have "scan_segments [RunePipe, RuneAt] [] (map of_char typ) = [map of_char typ]"
    using F by (intro scan_segments_end) auto
  then have "pad_segments (scan_segments delimeters [] (utf8_decode (utf8_encode ks @ '':'' @ val @ ''|'' @ typ))) =
      [ks, map of_char val, map of_char typ, [], []]"
    unfolding dec using first_cuts [OF assms(1-3)] by (simp add: pad_segments_def eval_nat_numeral)
  then show ?thesis
    using metric_of_well_formed [OF assms(1,3-6)]
    by (simp add: parse_refines parse_spec_def utf8_encode_def sample_rate_Nil)
qed

text \<open>
  Fact.  A well-formed message \<open>namespace:value|type\<close> parses without error into the
  metric it spells: its namespace (any UTF-8 without colon and blanks), its value and type,
  one hit and sample rate 1.
\<close>
theorem ParseMetricString_well_formed:
  assumes "plain_runes ks" "RuneColon \<notin> set ks" "plain_field val" "plain_field typ"
    and "ParseFloat32 val = (v, None)" "getMetricType typ = (t, True)"
  shows "ParseMetricString (utf8_encode ks @ '':'' @ val @ ''|'' @ typ) =
    Some (parsed_metric (utf8_encode ks) v t 1, None)"
  using assms by (rule well_formed_message)

lemma parse_two: "ParseFloat32 ''2'' = (Fin 2, None)"
proof -
  have "to_float binary32 False 2 = Fin 2" by code_simp
  then show ?thesis
    by (simp add: ParseFloat32_def special_def lower_def read_float_def read_sign_def read_exponent_def
        is_digit_def digits_val_def digit_val_def decimal_def)
qed

theorem ParseMetricString_well_formed_witness:
  "ParseMetricString (utf8_encode [102, 233] @ '':'' @ ''2'' @ ''|'' @ ''g'') =
    Some (parsed_metric (utf8_encode [102, 233]) (Fin 2) MetricTypeGauge 1, None)"
proof (rule ParseMetricString_well_formed)
  show "plain_runes [102, 233]" by (simp add: field_eval)
  show "RuneColon \<notin> set [102, 233]" by (simp add: rune_defs)
  show "plain_field ''2''" "plain_field ''g''" by (simp_all add: field_eval)
  show "ParseFloat32 ''2'' = (Fin 2, None)" by (rule parse_two)
  show "getMetricType ''g'' = (MetricTypeGauge, True)" by (simp add: getMetricType_def)
qed

text \<open>
  Fact.  A message with a sample rate, \<open>namespace:value|type|@rate\<close>, parses into the
  metric with that sample rate and with \<open>1/rate\<close> hits; a rate outside \<open>(0, 1]\<close>, or one that
  is no number, counts as 1.
\<close>
theorem ParseMetricString_sampled:
  assumes "plain_runes ks" "RuneColon \<notin> set ks" "plain_field val" "plain_field typ" "plain_field rate"
    and "ParseFloat32 val = (v, None)" "getMetricType typ = (t, True)"
  shows "ParseMetricString (utf8_encode ks @ '':'' @ val @ ''|'' @ typ @ ''|@'' @ rate) =
    Some (parsed_metric (utf8_encode ks) v t
      (case ParseFloat32 rate of (r, err) \<Rightarrow> if err = None \<and> 0 < r \<and> r \<le> 1 then r else 1), None)"
proof -
  note F = plain_field_runes [OF assms(3)] plain_field_runes [OF assms(4)] plain_field_runes [OF assms(5)]
  let ?msg = "utf8_encode ks @ '':'' @ val @ ''|'' @ typ @ ''|@'' @ rate"
  have dec: "utf8_decode ?msg =
      ks @ RuneColon # map of_char val @ RunePipe # map of_char typ @ RunePipe # RuneAt # map of_char rate"
    using decode_message [OF assms(1), of "'':'' @ val @ ''|'' @ typ @ ''|@'' @ rate"] F
    by (simp add: rune_defs)
  have "scan_segments [RunePipe, RuneAt] [] (map of_char typ @ RunePipe # RuneAt # map of_char rate) =
      [map of_char typ, [], map of_char rate]"
    using F scan_segments_cut [of "map of_char typ" RunePipe "[RuneAt]"]
      scan_segments_cut [of "[]" RuneAt "[]"] scan_segments_end [of "map of_char rate" "[]"]
    by (simp add: MaximumMetricLength_def)
  then have "pad_segments (scan_segments delimeters [] (utf8_decode ?msg)) =
      [ks, map of_char val, map of_char typ, [], map of_char rate]"
    unfolding dec using first_cuts [OF assms(1-3)] by (simp add: pad_segments_def)
  then show ?thesis
    using metric_of_well_formed [OF assms(1,3,4,6,7)] F
    by (simp add: parse_refines parse_spec_def runes_of_field sample_rate_def)
qed

theorem ParseMetricString_sampled_witness:
  "ParseMetricString (utf8_encode [102] @ '':'' @ ''2'' @ ''|'' @ ''c'' @ ''|@'' @ ''0.5'') =
    Some (parsed_metric (utf8_encode [102]) (Fin 2) MetricTypeCounter
      (case ParseFloat32 ''0.5'' of (r, err) \<Rightarrow> if err = None \<and> 0 < r \<and> r \<le> 1 then r else 1), None)"
proof (rule ParseMetricString_sampled)
  show "plain_runes [102]" by (simp add: field_eval)
  show "RuneColon \<notin> set [102]" by (simp add: rune_defs)
  show "plain_field ''2''" "plain_field ''c''" "plain_field ''0.5''" by (simp_all add: field_eval)
  show "ParseFloat32 ''2'' = (Fin 2, None)" by (rule parse_two)
  show "getMetricType ''c'' = (MetricTypeCounter, True)" by (simp add: getMetricType_def)
qed

lemma digit_plain: "is_digit c \<Longrightarrow> of_char c < (128::nat) \<and> c \<noteq> CHR '' '' \<and> c \<noteq> CHR 0x00 \<and> c \<noteq> CHR ''|''"
  by (auto simp: is_digit_def)

lemma printed_plain:
  assumes "rep binary32 q" "q = 0 \<or> ilog2 \<bar>q\<bar> < 128" "q * 1000000 = of_int k"
  shows "plain_field (FormatFloat32 (Fin q))"
proof -
  let ?a = "nat_digits (nat \<bar>k\<bar> div 1000000)" and ?b = "pad_left 6 (nat_digits (nat \<bar>k\<bar> mod 1000000))"
  have "length ?a \<le> 39" by (rule micro_digits [OF assms(2,3)])
  moreover have b: "length ?b = 6" "\<forall>c \<in> set ?b. is_digit c" using pad_left_digits [of "nat \<bar>k\<bar> mod 1000000"] by simp_all
  moreover have "\<forall>c \<in> set ?a. is_digit c" using nat_digits_all by blast
  ultimately show ?thesis
    unfolding FormatFloat32_micro [OF assms] format_fixed_def plain_field_def
    by (auto simp: MaximumMetricLength_def dest: digit_plain)
qed

text \<open>
  Property C34.  Printing and parsing agree on the values that six decimals can show: for every
  \<open>float32\<close> value that is a multiple of a millionth (any count up to \<open>2^24\<close>, 0.5, 0.75, larger
  values with fewer significant bits), a message that has it as \<open>FormatFloat\<close> prints it gives back
  exactly that value.  \<open>FormatFloat32_accurate\<close> bounds what the printing of any other value loses.
\<close>
theorem ParseMetricString_printed_value:
  assumes "plain_runes ks" "RuneColon \<notin> set ks" "plain_field typ" "getMetricType typ = (t, True)"
    and "rep binary32 q" "q = 0 \<or> ilog2 \<bar>q\<bar> < 128" "q * 1000000 = of_int k"
  shows "ParseMetricString (utf8_encode ks @ '':'' @ FormatFloat32 (Fin q) @ ''|'' @ typ) =
    Some (parsed_metric (utf8_encode ks) (Fin q) t 1, None)"
proof -
  have "ParseFloat32 (FormatFloat32 (Fin q)) = (Fin q, None)"
    using assms(5-7) by (rule ParseFloat32_printed)
  then show ?thesis using assms(1-4) printed_plain [OF assms(5-7)] by (intro well_formed_message) auto
qed

theorem ParseMetricString_printed_value_witness:
  "ParseMetricString (utf8_encode [102] @ '':'' @ FormatFloat32 (Fin 3) @ ''|'' @ ''g'') =
    Some (parsed_metric (utf8_encode [102]) (Fin 3) MetricTypeGauge 1, None)"
proof (rule ParseMetricString_printed_value)
  show "plain_runes [102]" by (simp add: field_eval)
  show "RuneColon \<notin> set [102]" by (simp add: rune_defs)
  show "plain_field ''g''" by (simp add: field_eval)
  show "getMetricType ''g'' = (MetricTypeGauge, True)" by (simp add: getMetricType_def)
  have "rnd binary32 3 = 3" by code_simp
  then show "rep binary32 3" by (simp add: b32.rep_iff_rnd)
  show "3 = (0::rat) \<or> ilog2 \<bar>3\<bar> < 128" by code_simp
  show "(3 :: rat) * 1000000 = of_int 3000000" by simp
qed

subsection \<open>What every parsed metric satisfies\<close>

definition parsed_ok :: "Metric \<Rightarrow> bool" where
  "parsed_ok m \<longleftrightarrow>
     Key m \<noteq> [] \<and> MetricType m \<in> {MetricTypeCounter, MetricTypeGauge, MetricTypeSet, MetricTypeTimer} \<and>
     f64_ok (LastValue m) \<and> AllValues m = [LastValue m] \<and>
     f64_ok (SampleRate m) \<and> 0 < SampleRate m \<and> SampleRate m \<le> 1 \<and>
     f64_ok (TotalHits m) \<and> is_finite (TotalHits m) \<and> 1 \<le> TotalHits m"

lemma f64_one [simp]: "f64_ok 1" "\<not> is_nan 1" "is_finite 1" "fval 1 = 1" "(0::f64) < 1" "(1::f64) \<le> 1"
proof -
  show "f64_ok 1" using float_of_int_ok [of 1] float_of_int_exact [of 1] by (simp add: one_f64_def)
qed (simp_all add: one_f64_def zero_f64_def)

lemma sample_rate_range: "f64_ok (sample_rate s)" "0 < sample_rate s" "sample_rate s \<le> 1"
proof -
  obtain r err where r: "ParseFloat32 s = (r, err)" by fastforce
  then show "f64_ok (sample_rate s)" "0 < sample_rate s" "sample_rate s \<le> 1"
    using ParseFloat32_ok [of s r] by (auto simp: sample_rate_def)
qed

lemma sample_rate_small:
  assumes "sample_rate s < 1"
  shows "\<exists>q. sample_rate s = Fin q \<and> rep binary32 q \<and> 0 < q \<and> q < 1"
proof -
  obtain r err where r: "ParseFloat32 s = (r, err)" by fastforce
  then have eq: "sample_rate s = r" and ok: "err = None" "0 < r" "r \<le> 1"
    using assms by (auto simp: sample_rate_def split: if_splits)
  obtain b q where q: "r = to_float binary32 b q \<and> is_finite r"
    using ParseFloat32_cases [of s r] r ok by (auto simp: one_f64_def zero_f64_def)
  obtain p where p: "to_float binary32 b q \<in> {Inf (q < 0), NegZero, Fin p}" "rep binary32 p"
    using to_float32_result by metis
  then have "r = Fin p" using q ok(2) by (auto simp: zero_f64_def)
  then show ?thesis using p(2) eq ok(2) assms by (auto simp: zero_f64_def one_f64_def)
qed

lemma extrapolated_hits:
  assumes "sample_rate s < 1"
  shows "f64_ok (1 / sample_rate s)" "is_finite (1 / sample_rate s)" "1 \<le> 1 / sample_rate s"
proof -
  obtain q where q: "sample_rate s = Fin q" "rep binary32 q" "0 < q" "q < 1"
    using sample_rate_small [OF assms] by blast
  have "(2::rat) powi (-149) \<le> q"
    using b32.rep_diff_ge [OF b32.rep_zero q(2,3)] by (simp add: binary32_def)
  moreover have "(2::rat) powi (-1023) \<le> 2 powi (-149)" by (simp only: powi_le_iff)
  ultimately have "2 powi (-1023) \<le> q" by linarith
  then have "1 / q \<le> 1 / 2 powi (-1023)" using q(3) by (intro divide_left_mono) auto
  then have le: "1 / q \<le> safe" by (simp only: safe_def power_int_minus) simp
  then have "\<bar>fval 1 / fval (Fin q)\<bar> \<le> safe" using q(3) by simp
  note D = divide_in_range [OF f64_one(3) _ _ this, simplified]
  have "1 \<le> rnd binary64 (1 / q)"
    using q b64.rep_of_int [of 1] by (intro b64.rnd_ge_rep) (auto simp: binary64_def)
  then show "f64_ok (1 / sample_rate s)" "is_finite (1 / sample_rate s)" "1 \<le> 1 / sample_rate s"
    using D q by (simp_all add: le_f64_fval)
qed

lemma getMetricType_ok:
  "snd (getMetricType s) \<Longrightarrow>
    fst (getMetricType s) \<in> {MetricTypeCounter, MetricTypeGauge, MetricTypeSet, MetricTypeTimer}"
  by (auto simp: getMetricType_def split: if_splits)

lemma utf8_encode_not_Nil: "rs \<noteq> [] \<Longrightarrow> utf8_encode rs \<noteq> []"
  by (cases rs) (auto simp: utf8_encode_def encode_rune_def Let_def)

lemma parse_parsed_ok:
  assumes "ParseMetricString msg = Some (m, None)"
  shows "parsed_ok m"
proof -
  let ?L = "pad_segments (scan_segments delimeters [] (utf8_decode msg))"
  let ?str = "\<lambda>i. utf8_encode (?L ! i)"
  have m: "metric_of_segments msg ?L = (m, None)"
    using assms by (simp add: parse_refines parse_spec_def)
  then have ok: "?L ! 0 \<noteq> []" "snd (ParseFloat32 (?str 1)) = None" "snd (getMetricType (?str 2))"
    unfolding metric_of_segments_def Let_def by (auto split: if_splits)
  have eq: "m = parsed_metric (?str 0) (fst (ParseFloat32 (?str 1))) (fst (getMetricType (?str 2))) (sample_rate (?str 4))"
    using m unfolding metric_of_segments_def parsed_metric_def Let_def by (auto split: if_splits)
  have "f64_ok (fst (ParseFloat32 (?str 1)))"
    using ok(2) ParseFloat32_ok [of "?str 1"] by (metis prod.collapse)
  then show ?thesis
    using ok utf8_encode_not_Nil [OF ok(1)] getMetricType_ok [OF ok(3)] sample_rate_range [of "?str 4"]
      extrapolated_hits [of "?str 4"]
    unfolding eq by (simp add: parsed_ok_def parsed_metric_def)
qed

text \<open>
  Property C38.  Whatever the message, a metric that parses without error has a namespace, one
  of the four types, exactly one sample (its last value), a sample rate in \<open>(0, 1]\<close> and a
  finite hit count of at least 1.
\<close>
theorem ParseMetricString_parsed_ok:
  assumes "ParseMetricString msg = Some (m, None)"
  shows "parsed_ok m"
  using assms by (rule parse_parsed_ok)

theorem ParseMetricString_parsed_ok_witness:
  "parsed_ok (parsed_metric (utf8_encode [102, 233]) (Fin 2) MetricTypeGauge 1)"
proof (rule ParseMetricString_parsed_ok)
  have f: "plain_runes [102, 233]" "RuneColon \<notin> set [102, 233]" "plain_field ''2''" "plain_field ''g''"
      "ParseFloat32 ''2'' = (Fin 2, None)" "getMetricType ''g'' = (MetricTypeGauge, True)"
    using parse_two by (simp_all add: field_eval getMetricType_def)
  have "scan_segments [RunePipe, RuneAt] [] (map of_char ''g'') = [map of_char ''g'']"
    by (simp add: field_eval)
  then show "ParseMetricString (utf8_encode [102, 233] @ '':2|g'') =
      Some (parsed_metric (utf8_encode [102, 233]) (Fin 2) MetricTypeGauge 1, None)"
    using first_cuts [OF f(1-3)] metric_of_well_formed [OF f(1,3-6)] decode_message [OF f(1), of "'':2|g''"]
    by (simp add: parse_refines parse_spec_def sample_rate_Nil pad_segments_def
        eval_nat_numeral rune_defs utf8_encode_def)
qed

subsection \<open>Rejected messages\<close>

text \<open>
  Fact.  A message is rejected with \<open>missing elements\<close>, and no metric is built, when it
  has no colon or when 512 or more runes (blanks not counted) come before the first one.
\<close>
theorem ParseMetricString_rejects_namespace:
  assumes "RuneColon \<notin> set (utf8_decode msg) \<or>
    MaximumMetricLength \<le> length (takeWhile (\<lambda>r. r \<noteq> RuneColon) (filter (\<lambda>r. \<not> blank r) (utf8_decode msg)))"
  shows "ParseMetricString msg = Some (new_Metric, Some (MissingElements msg))"
proof -
  have "\<exists>x. scan_segments (RuneColon # [RunePipe, RunePipe, RuneAt]) [] (utf8_decode msg) = [x]"
    using assms by (intro scan_segments_single) (auto simp: MaximumMetricLength_def)
  then obtain x where "scan_segments delimeters [] (utf8_decode msg) = [x]"
    by (auto simp: delimeters_def)
  then show ?thesis
    by (simp add: parse_refines parse_spec_def metric_of_segments_def pad_segments_def
        eval_nat_numeral)
qed

theorem ParseMetricString_rejects_namespace_witness:
  "ParseMetricString ''test3|g'' = Some (new_Metric, Some (MissingElements ''test3|g''))"
proof (rule ParseMetricString_rejects_namespace)
  show "RuneColon \<notin> set (utf8_decode ''test3|g'') \<or>
    MaximumMetricLength \<le> length (takeWhile (\<lambda>r. r \<noteq> RuneColon) (filter (\<lambda>r. \<not> blank r) (utf8_decode ''test3|g'')))"
    by (simp add: utf8_decode_ascii field_eval)
qed

text \<open>
  Fact.  Blanks and null bytes never matter: two messages with the same runes apart from
  them parse to the same metric, and both are accepted or both rejected.
\<close>
theorem ParseMetricString_ignores_blanks:
  assumes "filter (\<lambda>r. \<not> blank r) (utf8_decode a) = filter (\<lambda>r. \<not> blank r) (utf8_decode b)"
  shows "\<exists>m ea eb. ParseMetricString a = Some (m, ea) \<and> ParseMetricString b = Some (m, eb) \<and>
    (ea = None \<longleftrightarrow> eb = None)"
proof -
  have "scan_segments delimeters [] (utf8_decode a) = scan_segments delimeters [] (utf8_decode b)"
    using assms scan_segments_blanks by metis
  then show ?thesis
    by (auto simp: parse_refines parse_spec_def metric_of_segments_def Let_def)
qed

theorem ParseMetricString_ignores_blanks_witness:
  "\<exists>m ea eb. ParseMetricString '' test.four:4| g |@0.75'' = Some (m, ea) \<and>
    ParseMetricString ''test.four:4|g|@0.75 '' = Some (m, eb) \<and> (ea = None \<longleftrightarrow> eb = None)"
proof (rule ParseMetricString_ignores_blanks)
  show "filter (\<lambda>r. \<not> blank r) (utf8_decode '' test.four:4| g |@0.75'') =
      filter (\<lambda>r. \<not> blank r) (utf8_decode ''test.four:4|g|@0.75 '')"
    by (simp add: utf8_decode_ascii field_eval)
qed

end
