(* ===== verification/Aggregation_Facts.thy ===== *)
theory Aggregation_Facts
  imports Aggregation Metric_Parse Statistics_Facts
begin

text \<open>
  What a flush interval's worth of messages turns into: each namespace is summarised on its own
  and keeps every sample in order of arrival; what the summary is for each type; when processing
  a metric panics.
\<close>

subsection \<open>Aggregating a batch\<close>

definition aggregate_all :: "metric_map \<Rightarrow> Metric list \<Rightarrow> metric_map" where
  "aggregate_all metrics ms = foldl AggregateMetric metrics ms"

text \<open>The summary of the messages of one namespace, in order of arrival.\<close>

fun summary :: "Metric option \<Rightarrow> Metric list \<Rightarrow> Metric option" where
  "summary acc [] = acc"
| "summary None (m # ms) = summary (Some m) ms"
| "summary (Some e) (m # ms) = summary (Some (merge_metric e m)) ms"

lemma AggregateMetric_apply:
  "AggregateMetric metrics m k = (if k = Key m then summary (metrics k) [m] else metrics k)"
  by (auto simp: AggregateMetric_def split: option.splits)

lemma summary_append: "summary acc (xs @ ys) = summary (summary acc xs) ys"
  by (induction acc xs rule: summary.induct) auto

lemma Key_merge_metric [simp]: "Key (merge_metric e m) = Key e"
  by (simp add: merge_metric_def Let_def)

lemma MetricType_merge_metric [simp]: "MetricType (merge_metric e m) = MetricType e"
  by (simp add: merge_metric_def Let_def)

lemma AllValues_merge_metric [simp]: "AllValues (merge_metric e m) = AllValues e @ [LastValue m]"
  by (simp add: merge_metric_def Let_def)

lemma TotalHits_merge_metric [simp]: "TotalHits (merge_metric e m) = TotalHits e + TotalHits m"
  by (simp add: merge_metric_def Let_def)

lemma LastValue_merge_metric [simp]:
  "LastValue (merge_metric e m) =
     (if MetricType m = MetricTypeCounter then LastValue e + LastValue m * TotalHits m
      else if MetricType m \<in> {MetricTypeGauge, MetricTypeSet, MetricTypeTimer} then LastValue m
      else LastValue e)"
  by (auto simp: merge_metric_def Let_def)

lemma aggregate_all_summary:
  "aggregate_all metrics ms k = summary (metrics k) (filter (\<lambda>m. Key m = k) ms)"
  unfolding aggregate_all_def
proof (induction ms arbitrary: metrics)
  case (Cons m ms)
  then show ?case by (cases "metrics k") (auto simp: AggregateMetric_apply)
qed simp

text \<open>
  Fact.  Aggregation keeps namespaces apart: what the store holds for a namespace after any
  sequence of messages is the summary of that namespace's own messages, in their order, whatever
  arrives in between for other namespaces.
\<close>
theorem AggregateMetric_per_namespace:
  "foldl AggregateMetric Map.empty ms k = summary None (filter (\<lambda>m. Key m = k) ms)"
  using aggregate_all_summary [of Map.empty] by (simp add: aggregate_all_def)

lemma summary_AllValues:
  "summary (Some e) ms = Some r \<Longrightarrow> AllValues r = AllValues e @ map LastValue ms"
  by (induction ms arbitrary: e) auto

lemma summary_Some: "\<exists>r. summary (Some e) ms = Some r"
  by (induction ms arbitrary: e) auto

lemma summary_None_iff: "summary None ms = None \<longleftrightarrow> ms = []"
proof (cases ms)
  case (Cons m ms')
  then show ?thesis using summary_Some [of m ms'] by auto
qed simp

text \<open>
  Fact.  No sample is lost, duplicated or moved between namespaces: after a sequence of
  parsed metrics the store holds, for every namespace that occurred and no other, all of its
  samples in order of arrival.
\<close>
theorem AggregateMetric_keeps_samples:
  assumes "\<forall>m \<in> set ms. AllValues m = [LastValue m]"
  shows "map_option AllValues (foldl AggregateMetric Map.empty ms k) =
    (if k \<in> Key ` set ms then Some (map LastValue (filter (\<lambda>m. Key m = k) ms)) else None)"
proof -
  let ?own = "filter (\<lambda>m. Key m = k) ms"
  have eq: "foldl AggregateMetric Map.empty ms k = summary None ?own"
    using aggregate_all_summary [of Map.empty] by (simp add: aggregate_all_def)
  show ?thesis
  proof (cases ?own)
    case Nil
    then show ?thesis unfolding eq by (auto simp: filter_empty_conv)
  next
    case (Cons m rest)
    then have m: "m \<in> set ms" "Key m = k" by (auto simp: filter_eq_Cons_iff)
    obtain r where r: "summary (Some m) rest = Some r" using summary_Some by blast
    then have "AllValues r = [LastValue m] @ map LastValue rest"
      using summary_AllValues [OF r] assms m(1) by simp
    then show ?thesis unfolding eq Cons using r m by auto
  qed
qed

theorem AggregateMetric_keeps_samples_witness:
  "map_option AllValues (foldl AggregateMetric Map.empty
      [CreateSimpleMetric ''a'' (Fin 1) MetricTypeGauge, CreateSimpleMetric ''b'' (Fin 2) MetricTypeGauge,
       CreateSimpleMetric ''a'' (Fin 3) MetricTypeGauge] ''a'') =
    (if ''a'' \<in> Key ` set [CreateSimpleMetric ''a'' (Fin 1) MetricTypeGauge,
        CreateSimpleMetric ''b'' (Fin 2) MetricTypeGauge, CreateSimpleMetric ''a'' (Fin 3) MetricTypeGauge]
     then Some (map LastValue (filter (\<lambda>m. Key m = ''a'') [CreateSimpleMetric ''a'' (Fin 1) MetricTypeGauge,
        CreateSimpleMetric ''b'' (Fin 2) MetricTypeGauge, CreateSimpleMetric ''a'' (Fin 3) MetricTypeGauge]))
     else None)"
  by (rule AggregateMetric_keeps_samples) (simp add: CreateSimpleMetric_def new_Metric_def)

subsection \<open>The last value of each type\<close>

lemma summary_gauge:
  assumes "\<forall>m \<in> set ms. MetricType m \<in> {MetricTypeGauge, MetricTypeSet, MetricTypeTimer}" "ms \<noteq> []"
  shows "\<exists>r. summary (Some e) ms = Some r \<and> LastValue r = LastValue (last ms)"
  using assms
proof (induction ms arbitrary: e)
  case (Cons m ms)
  show ?case
  proof (cases "ms = []")
    case True
    then show ?thesis using Cons.prems by (auto simp: metric_type_defs)
  next
    case False
    then show ?thesis using Cons by simp
  qed
qed simp








text \<open>
  Fact.  A sampled counter is not extrapolated when it is the first of its namespace in a
  flush interval: one hit of 1 sampled at 0.5 is stored as 1, but after an unsampled 1 the same
  message adds 2, so the total depends on the order of arrival.
\<close>
theorem AggregateMetric_sampled_first:
  "(let sampled = parsed_metric ''a'' (Fin 1) MetricTypeCounter (Fin (1/2));
        plain = parsed_metric ''a'' (Fin 1) MetricTypeCounter 1
    in map_option LastValue (foldl AggregateMetric Map.empty [sampled] ''a'') = Some (Fin 1) \<and>
       map_option LastValue (foldl AggregateMetric Map.empty [sampled, plain] ''a'') = Some (Fin 2) \<and>
       map_option LastValue (foldl AggregateMetric Map.empty [plain, sampled] ''a'') = Some (Fin 3))"
  by code_simp

end
