(* ===== verification/Processing_Facts.thy ===== *)
theory Processing_Facts
  imports Aggregation_Facts
begin

text \<open>
  What \<open>ProcessMetric\<close> computes for each type, and exactly when it panics.
\<close>

subsection \<open>The quantile loop\<close>

abbreviation add_quantile :: "int \<Rightarrow> Metric \<Rightarrow> Metric option" where
  "add_quantile q m \<equiv> (case quantile_of (AllValues m) q of
     None \<Rightarrow> None | Some quantile \<Rightarrow> Some (m\<lparr>Quantiles := Quantiles m @ [quantile]\<rparr>))"

lemma quantile_loop_None_iff:
  "fold_option add_quantile qs m = None \<longleftrightarrow> (\<exists>q \<in> set qs. quantile_of (AllValues m) q = None)"
  by (induction qs arbitrary: m) (auto split: option.splits)


text \<open>The boundary that interpolation yields lies below every sample, or cannot be computed.\<close>

definition boundary_fails :: "ValueSlice \<Rightarrow> int \<Rightarrow> bool" where
  "boundary_fails vals q \<longleftrightarrow>
     (case Quantile vals (float_of_int q / float_of_int 100) of
        None \<Rightarrow> True | Some b \<Rightarrow> vals = [] \<or> b < hd vals)"

lemma takeWhile_le_Nil: "takeWhile (\<lambda>v. \<not> b < v) vals = [] \<longleftrightarrow> vals = [] \<or> b < hd vals"
  by (cases vals) auto

lemma quantile_of_None_iff: "quantile_of vals q = None \<longleftrightarrow> boundary_fails vals q"
proof (cases "Quantile vals (float_of_int q / float_of_int 100)")
  case (Some b)
  let ?q = "takeWhile (\<lambda>v. \<not> b < v) vals"
  obtain med where med: "Median ?q = Some med" using Median_not_None by blast
  show ?thesis
  proof (cases "?q = []")
    case True
    then have "Minmax ?q = None" by (simp add: Minmax_None_iff)
    with Some True show ?thesis
      by (simp add: quantile_of_def boundary_fails_def Let_def takeWhile_le_Nil [symmetric])
  next
    case False
    then obtain mn mx err where "Minmax ?q = Some (mn, mx, err)"
      using Minmax_None_iff by (metis option.exhaust prod_cases3)
    with Some False med show ?thesis
      by (simp add: quantile_of_def boundary_fails_def Let_def takeWhile_le_Nil [symmetric])
  qed
qed (simp add: quantile_of_def boundary_fails_def Let_def)

subsection \<open>Panics\<close>

lemma process_panics_iff:
  "ProcessMetric m d qs = None \<longleftrightarrow>
    MetricType m = MetricTypeTimer \<and>
    (AllValues m = [] \<or> (\<exists>q \<in> set qs. boundary_fails (sort_values (AllValues m)) q))"
proof -
  let ?vals = "sort_values (AllValues m)"
  obtain med where med: "Median ?vals = Some med" using Median_not_None by blast
  have nil: "?vals = [] \<longleftrightarrow> AllValues m = []"
    using go_sort.srt_length [of "AllValues m"] by (metis length_0_conv)
  show ?thesis
  proof (cases "MetricType m = MetricTypeTimer")
    case True
    then have "ProcessMetric m d qs =
        process_timer (m\<lparr>AllValues := ?vals\<rparr>) (go_div d Second) qs"
      by (simp add: ProcessMetric_def Let_def metric_type_defs)
    moreover have "process_timer (m\<lparr>AllValues := ?vals\<rparr>) (go_div d Second) qs = None \<longleftrightarrow>
        ?vals = [] \<or> (\<exists>q \<in> set qs. quantile_of ?vals q = None)"
      using Minmax_None_iff [of ?vals] med
      by (auto simp: process_timer_def quantile_loop_None_iff split: option.splits)
    ultimately show ?thesis using True nil by (simp add: quantile_of_None_iff)
  next
    case False
    then show ?thesis using med by (simp add: ProcessMetric_def Let_def split: prod.splits)
  qed
qed

text \<open>
  Property C18.  \<open>ProcessMetric\<close> panics exactly for a timer that has no sample, or for which some
  configured quantile reads outside the slice or yields a boundary below every sample; counters,
  gauges and sets are always processed.
\<close>
theorem ProcessMetric_panics_iff:
  "ProcessMetric m d qs = None \<longleftrightarrow>
    MetricType m = MetricTypeTimer \<and>
    (AllValues m = [] \<or> (\<exists>q \<in> set qs. boundary_fails (sort_values (AllValues m)) q))"
  by (rule process_panics_iff)

text \<open>
  Fact.  A panic that clients can cause: with the 30th percentile configured, two timer
  messages with the value 3 for one namespace make \<open>ProcessMetric\<close>, and with it the process,
  panic at the next flush.
\<close>
theorem ProcessMetric_equal_timers_panic:
  "map_option (\<lambda>m. ProcessMetric m (10 * Second) [30])
    (foldl AggregateMetric Map.empty
      [parsed_metric ''t'' (Fin 3) MetricTypeTimer 1, parsed_metric ''t'' (Fin 3) MetricTypeTimer 1] ''t'') =
   Some None"
proof -
  have "foldl AggregateMetric Map.empty
      [parsed_metric ''t'' (Fin 3) MetricTypeTimer 1, parsed_metric ''t'' (Fin 3) MetricTypeTimer 1] ''t'' =
    Some (merge_metric (parsed_metric ''t'' (Fin 3) MetricTypeTimer 1) (parsed_metric ''t'' (Fin 3) MetricTypeTimer 1))"
    by (simp add: AggregateMetric_def parsed_metric_def new_Metric_def)
  moreover have "MetricType (merge_metric (parsed_metric ''t'' (Fin 3) MetricTypeTimer 1)
      (parsed_metric ''t'' (Fin 3) MetricTypeTimer 1)) = MetricTypeTimer"
    by (simp add: parsed_metric_def)
  moreover have "boundary_fails (sort_values [Fin 3, Fin 3]) 30" by code_simp
  ultimately show ?thesis
    by (simp add: process_panics_iff) (simp add: parsed_metric_def new_Metric_def)
qed

subsection \<open>Counters, gauges, sets\<close>

text \<open>
  Fact.  A flush interval of less than a second makes the counter rate infinite: the whole
  seconds are 0, and a positive finite count divided by 0 is plus infinity.
\<close>
theorem ProcessMetric_subsecond_rate:
  assumes "MetricType m = MetricTypeCounter" "0 \<le> d" "d < Second" "is_finite (LastValue m)" "0 < LastValue m"
  shows "map_option ValuesPerSecond (ProcessMetric m d qs) = Some (Inf False)"
proof -
  have "go_div d Second = 0" using assms(2,3) by (simp add: go_div_nonneg Second_def)
  moreover have "float_of_int 0 = Fin 0" by (simp add: float_of_int_exact)
  moreover have "LastValue m / Fin 0 = Inf False"
    using assms(4,5) by (cases "LastValue m") (auto simp: zero_f64_def)
  ultimately show ?thesis using assms(1) by (simp add: ProcessMetric_def Let_def)
qed

theorem ProcessMetric_subsecond_rate_witness:
  "map_option ValuesPerSecond
    (ProcessMetric (CreateSimpleMetric ''a'' (Fin 2) MetricTypeCounter) 500000000 []) = Some (Inf False)"
  by (rule ProcessMetric_subsecond_rate) (simp_all add: CreateSimpleMetric_def Second_def zero_f64_def)

text \<open>
  Fact.  A set metric is flushed as the number of different values that were sent in the
  interval.
\<close>
theorem ProcessMetric_set_count:
  assumes "MetricType m = MetricTypeSet" "no_nan (AllValues m)"
  shows "map_option LastValue (ProcessMetric m d qs) =
    Some (float_of_int (int (card (canon ` set (AllValues m)))))"
proof -
  let ?v = "sort_values (AllValues m)"
  have "set ?v = set (AllValues m)" by (rule go_sort.srt_set)
  moreover have "no_nan ?v" using assms(2) calculation by simp
  then have "snd (UniqueCount ?v) = int (card (canon ` set ?v))" by (rule unique_count)
  ultimately show ?thesis
    using assms(1) by (simp add: ProcessMetric_def Let_def metric_type_defs split_beta)
qed

theorem ProcessMetric_set_count_witness:
  "map_option LastValue (ProcessMetric (CreateSimpleMetric ''a'' (Fin 2) MetricTypeSet) Second []) =
    Some (float_of_int (int (card (canon ` set (AllValues (CreateSimpleMetric ''a'' (Fin 2) MetricTypeSet))))))"
  by (rule ProcessMetric_set_count) (simp_all add: CreateSimpleMetric_def new_Metric_def)

subsection \<open>Timers\<close>





end
