(* ===== verification/Config.thy ===== *)
theory Config
  imports Go_Text
begin

text \<open>
  The configuration of \<open>statsgod/config.go\<close>.  The nested structs of \<open>ConfigValues\<close> are one
  record each.  Reading the file, parsing YAML (the package \<open>gopkg.in/yaml.v2\<close>) and asking the
  operating system for its host name are parameters of the functions that use them.
\<close>

subsection \<open>Values\<close>

record ServiceConfig =
  svcName :: string
  svcDebug :: bool
  svcAuth :: string
  svcTokens :: "(string \<times> bool) list"
  svcHostname :: string

record TcpConfig =
  tcpEnabled :: bool
  tcpHost :: string
  tcpPort :: int

record UdpConfig =
  udpEnabled :: bool
  udpHost :: string
  udpPort :: int
  udpMaxpacket :: int

record UnixConfig =
  unixEnabled :: bool
  unixFile :: string

record RelayConfig =
  relayType :: string
  relayConcurrency :: int
  relayTimeout :: duration
  relayFlush :: duration

record TypeNames =
  nsCounters :: string
  nsGauges :: string
  nsRates :: string
  nsSets :: string
  nsTimers :: string

record NamespaceConfig =
  nsPrefix :: string
  nsPrefixes :: TypeNames
  nsSuffix :: string
  nsSuffixes :: TypeNames

record DebugConfig =
  dbgVerbose :: bool
  dbgReceipt :: bool
  dbgProfile :: bool
  dbgRelay :: bool

record ConfigValues =
  cfgService :: ServiceConfig
  cfgTcp :: TcpConfig
  cfgUdp :: UdpConfig
  cfgUnix :: UnixConfig
  cfgRelay :: RelayConfig
  cfgNamespace :: NamespaceConfig
  carbonHost :: string
  carbonPort :: int
  statsPercentile :: "int list"
  cfgDebug :: DebugConfig

definition RelayTypeCarbon :: string where "RelayTypeCarbon = ''carbon''"
definition RelayTypeMock :: string where "RelayTypeMock = ''mock''"

text \<open>\<open>new(ConfigValues)\<close>.\<close>

definition new_ConfigValues :: ConfigValues where
  "new_ConfigValues =
    \<lparr>cfgService = \<lparr>svcName = [], svcDebug = False, svcAuth = [], svcTokens = [], svcHostname = []\<rparr>,
     cfgTcp = \<lparr>tcpEnabled = False, tcpHost = [], tcpPort = 0\<rparr>,
     cfgUdp = \<lparr>udpEnabled = False, udpHost = [], udpPort = 0, udpMaxpacket = 0\<rparr>,
     cfgUnix = \<lparr>unixEnabled = False, unixFile = []\<rparr>,
     cfgRelay = \<lparr>relayType = [], relayConcurrency = 0, relayTimeout = 0, relayFlush = 0\<rparr>,
     cfgNamespace = \<lparr>nsPrefix = [],
       nsPrefixes = \<lparr>nsCounters = [], nsGauges = [], nsRates = [], nsSets = [], nsTimers = []\<rparr>,
       nsSuffix = [],
       nsSuffixes = \<lparr>nsCounters = [], nsGauges = [], nsRates = [], nsSets = [], nsTimers = []\<rparr>\<rparr>,
     carbonHost = [], carbonPort = 0, statsPercentile = [],
     cfgDebug = \<lparr>dbgVerbose = False, dbgReceipt = False, dbgProfile = False, dbgRelay = False\<rparr>\<rparr>"

subsection \<open>Host name\<close>

definition alphanumeric :: "rune \<Rightarrow> bool" where
  "alphanumeric r \<longleftrightarrow> 97 \<le> r \<and> r \<le> 122 \<or> 65 \<le> r \<and> r \<le> 90 \<or> 48 \<le> r \<and> r \<le> 57"

text \<open>The replacement of every match of \<open>[^a-zA-Z0-9]\<close> by a dash.\<close>

definition sanitize :: "string \<Rightarrow> string" where
  "sanitize s = utf8_encode (map (\<lambda>r. if alphanumeric r then r else 45) (utf8_decode s))"

definition GetHostname :: "string option \<Rightarrow> string \<Rightarrow> string" where
  "GetHostname osHostname defaultValue =
     sanitize (if defaultValue = [] then (case osHostname of Some hn \<Rightarrow> hn | None \<Rightarrow> ''unknown'')
               else defaultValue)"

subsection \<open>Loading\<close>

text \<open>
  The defaults.  Tokens and percentiles are not reset here: the code gives them defaults only
  after reading the file.
\<close>

definition load_defaults :: "ConfigValues \<Rightarrow> ConfigValues" where
  "load_defaults config = config\<lparr>
     cfgService := (cfgService config)\<lparr>svcName := ''statsgod'', svcDebug := False, svcAuth := ''none'',
       svcHostname := ''''\<rparr>,
     cfgTcp := \<lparr>tcpEnabled = True, tcpHost = ''127.0.0.1'', tcpPort = 8125\<rparr>,
     cfgUdp := \<lparr>udpEnabled = True, udpHost = ''127.0.0.1'', udpPort = 8126, udpMaxpacket = 1024\<rparr>,
     cfgUnix := \<lparr>unixEnabled = True, unixFile = ''/var/run/statsgod/statsgod.sock''\<rparr>,
     cfgRelay := \<lparr>relayType = RelayTypeCarbon, relayConcurrency = 1,
       relayTimeout = 30 * 1000000000, relayFlush = 10 * 1000000000\<rparr>,
     carbonHost := ''127.0.0.1'', carbonPort := 2003,
     cfgNamespace := \<lparr>nsPrefix = ''stats'',
       nsPrefixes = \<lparr>nsCounters = ''counts'', nsGauges = ''gauges'', nsRates = ''rates'',
         nsSets = ''sets'', nsTimers = ''timers''\<rparr>,
       nsSuffix = '''',
       nsSuffixes = \<lparr>nsCounters = '''', nsGauges = '''', nsRates = '''', nsSets = '''', nsTimers = ''''\<rparr>\<rparr>,
     cfgDebug := \<lparr>dbgVerbose = False, dbgReceipt = False, dbgProfile = False, dbgRelay = False\<rparr>\<rparr>"

datatype 'e load_error = ReadError | YamlError 'e

text \<open>
  \<open>readFile\<close> is \<open>ioutil.ReadFile\<close> (\<open>None\<close> for an error); \<open>unmarshal\<close> is \<open>yaml.Unmarshal\<close> into
  the existing values.  The code passes it the address of the pointer \<open>config\<close>, so it may also
  set that pointer to nil (\<open>None\<close>), and the next field access panics: the result is \<open>None\<close>.
\<close>

definition LoadFile ::
  "(string \<Rightarrow> string option) \<Rightarrow> (string \<Rightarrow> ConfigValues \<Rightarrow> ConfigValues option \<times> 'e option) \<Rightarrow> string option \<Rightarrow>
   string \<Rightarrow> ConfigValues \<Rightarrow> (ConfigValues \<times> 'e load_error option) option" where
  "LoadFile readFile unmarshal osHostname filePath config0 =
     (let config1 = load_defaults config0;
          (pointer, err) =
            (if filePath \<noteq> [] then
               (case readFile filePath of
                  None \<Rightarrow> (Some config1, Some ReadError)
                | Some contents \<Rightarrow>
                    (case unmarshal contents config1 of (c, e) \<Rightarrow> (c, map_option YamlError e)))
             else (Some config1, None))
      in case pointer of
           None \<Rightarrow> None
         | Some config2 \<Rightarrow>
             (let config3 = (if length (statsPercentile config2) = 0 then config2\<lparr>statsPercentile := [80]\<rparr> else config2);
                  config4 = (if length (svcTokens (cfgService config3)) = 0
                             then config3\<lparr>cfgService := (cfgService config3)\<lparr>svcTokens := [(''token-name'', False)]\<rparr>\<rparr>
                             else config3);
                  config5 = config4\<lparr>cfgService := (cfgService config4)
                              \<lparr>svcHostname := GetHostname osHostname (svcHostname (cfgService config4))\<rparr>\<rparr>
              in Some (config5, err)))"

definition CreateConfig ::
  "(string \<Rightarrow> string option) \<Rightarrow> (string \<Rightarrow> ConfigValues \<Rightarrow> ConfigValues option \<times> 'e option) \<Rightarrow> string option \<Rightarrow>
   string \<Rightarrow> (ConfigValues \<times> 'e load_error option) option" where
  "CreateConfig readFile unmarshal osHostname filePath =
     LoadFile readFile unmarshal osHostname filePath new_ConfigValues"

subsection \<open>What loading guarantees\<close>

definition host_char :: "char \<Rightarrow> bool" where
  "host_char c \<longleftrightarrow> alphanumeric (of_char c) \<or> c = CHR ''-''"

lemma alphanumeric_ascii: "alphanumeric r \<Longrightarrow> encode_rune r = [char_of r] \<and> r < 128"
  by (auto simp: alphanumeric_def encode_rune_def valid_rune_def surrogate_def)

lemma char_of_dash: "(char_of (45::nat) :: char) = CHR ''-''"
  by code_simp

lemma host_char_rune: "c \<in> set (encode_rune (if alphanumeric r then r else 45)) \<Longrightarrow> host_char c"
proof (cases "alphanumeric r")
  case True
  assume "c \<in> set (encode_rune (if alphanumeric r then r else 45))"
  moreover have "encode_rune r = [char_of r]" "r < 128" using alphanumeric_ascii [OF True] by simp_all
  ultimately show ?thesis using True by (simp add: host_char_def)
next
  case False
  assume "c \<in> set (encode_rune (if alphanumeric r then r else 45))"
  with False show ?thesis
    by (simp add: encode_rune_def valid_rune_def surrogate_def char_of_dash host_char_def)
qed

lemma sanitize_host_chars: "\<forall>c \<in> set (sanitize s). host_char c"
  using host_char_rune by (auto simp: sanitize_def utf8_encode_def)

lemma length_sanitize: "length (sanitize s) = length (utf8_decode s)"
proof -
  have "length (encode_rune (if alphanumeric r then r else 45)) = 1" for r
    using alphanumeric_ascii [of r] by (simp add: encode_rune_def [of 45] valid_rune_def surrogate_def)
  then show ?thesis by (simp add: sanitize_def utf8_encode_def length_concat comp_def sum_list_triv)
qed

lemma host_char_ascii: "host_char c \<Longrightarrow> of_char c < (128::nat)"
  by (auto simp: host_char_def alphanumeric_def)

lemma sanitize_id: "\<forall>c \<in> set s. host_char c \<Longrightarrow> sanitize s = s"
proof -
  assume h: "\<forall>c \<in> set s. host_char c"
  then have a: "ascii s" by (auto simp: ascii_def host_char_ascii)
  have "(if alphanumeric r then r else 45) = r" if mem: "r \<in> set (map of_char s)" for r
  proof -
    obtain c where "c \<in> set s" and r: "r = of_char c" using mem by auto
    then have "host_char c" using h by simp
    then show ?thesis using r unfolding host_char_def by (elim disjE) simp_all
  qed
  then have "map (\<lambda>r. if alphanumeric r then r else 45) (map of_char s) = map of_char s"
    by (rule map_idI)
  then show ?thesis unfolding sanitize_def utf8_decode_ascii [OF a] by (simp only: utf8_encode_ascii [OF a])
qed

text \<open>
  Fact.  The host name put into the names of internal metrics consists of ASCII letters,
  digits and dashes only, one per rune of the configured or system name, so it never adds a
  level or a separator to a metric name; a name of that form is kept as it is.
\<close>
theorem GetHostname_sanitized:
  "list_all host_char (GetHostname os def) \<and>
   (GetHostname os (GetHostname os def) = GetHostname os def) \<and>
   length (GetHostname os def) = length (utf8_decode
     (if def = [] then case os of Some hn \<Rightarrow> hn | None \<Rightarrow> ''unknown'' else def))"
proof -
  have chars: "\<forall>c \<in> set (GetHostname os def). host_char c"
    unfolding GetHostname_def by (rule sanitize_host_chars)
  have "GetHostname os (GetHostname os def) = GetHostname os def"
  proof (cases "GetHostname os def = []")
    case True
    then have nil: "sanitize (if def = [] then case os of Some hn \<Rightarrow> hn | None \<Rightarrow> ''unknown'' else def) = []"
      by (simp add: GetHostname_def)
    have "def = []"
    proof (rule ccontr)
      assume "def \<noteq> []"
      then have "utf8_decode def \<noteq> []" by (cases "def") (auto simp: utf8_decode.simps(2) split: prod.splits)
      then show False using nil \<open>def \<noteq> []\<close> length_sanitize [of "def"] by simp
    qed
    with True show ?thesis by simp
  next
    case False
    then show ?thesis using sanitize_id [OF chars] by (simp add: GetHostname_def)
  qed
  then show ?thesis using chars by (simp add: GetHostname_def length_sanitize list_all_iff)
qed

lemma load_usable:
  "case LoadFile readFile unmarshal os path config of
     None \<Rightarrow> (\<exists>contents. path \<noteq> [] \<and> readFile path = Some contents \<and> fst (unmarshal contents (load_defaults config)) = None)
   | Some (c, err) \<Rightarrow>
     statsPercentile c \<noteq> [] \<and> svcTokens (cfgService c) \<noteq> [] \<and>
     (\<forall>ch \<in> set (svcHostname (cfgService c)). host_char ch) \<and>
     (path \<noteq> [] \<and> readFile path = None \<longrightarrow> err = Some ReadError) \<and>
     (path = [] \<longrightarrow> err = None) \<and>
     (path = [] \<or> readFile path = None \<longrightarrow>
        cfgTcp c = cfgTcp (load_defaults config) \<and> cfgUdp c = cfgUdp (load_defaults config) \<and>
        cfgUnix c = cfgUnix (load_defaults config) \<and> cfgRelay c = cfgRelay (load_defaults config) \<and>
        cfgNamespace c = cfgNamespace (load_defaults config) \<and> cfgDebug c = cfgDebug (load_defaults config))"
  unfolding LoadFile_def GetHostname_def
  using sanitize_host_chars by (auto simp: Let_def split: prod.splits option.splits)

text \<open>
  Fact.  However the file reads (missing, malformed, partial), loading leaves a usable
  configuration: at least one percentile, at least one token and a clean host name; without
  a readable file the error is reported and every other value is its default.  It panics only
  when the YAML package clears the pointer to the configuration.
\<close>
theorem LoadFile_usable:
  "case LoadFile readFile unmarshal os path config of
     None \<Rightarrow> (\<exists>contents. path \<noteq> [] \<and> readFile path = Some contents \<and> fst (unmarshal contents (load_defaults config)) = None)
   | Some (c, err) \<Rightarrow>
     statsPercentile c \<noteq> [] \<and> svcTokens (cfgService c) \<noteq> [] \<and>
     (\<forall>ch \<in> set (svcHostname (cfgService c)). host_char ch) \<and>
     (path \<noteq> [] \<and> readFile path = None \<longrightarrow> err = Some ReadError) \<and>
     (path = [] \<longrightarrow> err = None) \<and>
     (path = [] \<or> readFile path = None \<longrightarrow>
        cfgTcp c = cfgTcp (load_defaults config) \<and> cfgUdp c = cfgUdp (load_defaults config) \<and>
        cfgUnix c = cfgUnix (load_defaults config) \<and> cfgRelay c = cfgRelay (load_defaults config) \<and>
        cfgNamespace c = cfgNamespace (load_defaults config) \<and> cfgDebug c = cfgDebug (load_defaults config))"
  by (rule load_usable)

theorem LoadFile_usable_witness:
  "\<exists>c. LoadFile (\<lambda>_. None) (\<lambda>_ c. (Some c, None)) None ''config.yml'' new_ConfigValues =
     Some (c, Some (ReadError :: unit load_error)) \<and> relayConcurrency (cfgRelay c) = 1"
  using LoadFile_usable [where readFile = "\<lambda>_. None" and unmarshal = "\<lambda>_ c. (Some c, None :: unit option)" and os = None
    and path = "''config.yml''" and config = new_ConfigValues]
  by (auto simp: load_defaults_def split: prod.splits option.splits)

end
