(* ===== verification/Authentication.thy ===== *)
theory Authentication
  imports Go_Text Config
begin

text \<open>
  Authentication of messages, \<open>statsgod/auth.go\<close>.  An authenticator takes the message by
  reference: the third result is the message after the call.  The locale \<open>authenticator\<close> is
  the contract of the interface \<open>Auth\<close> that the parse loop relies on.
\<close>

subsection \<open>The authenticators\<close>

definition AuthTypeNone :: string where "AuthTypeNone = ''none''"
definition AuthTypeConfigToken :: string where "AuthTypeConfigToken = ''token''"

text \<open>
  Tokens are a Go map, here the association list the configuration holds.  The authenticator has the
  tokens of the configuration it was created from: the code shares the map with the configuration,
  and what a later reload does to that map in place is not modelled.
\<close>

datatype Auth = AuthNone | AuthConfigToken (Tokens: "(string \<times> bool) list")

datatype auth_error = InvalidToken | MissingToken

definition CreateAuth :: "ConfigValues \<Rightarrow> Auth" where
  "CreateAuth config =
     (if svcAuth (cfgService config) = AuthTypeConfigToken
      then AuthConfigToken (svcTokens (cfgService config))
      else AuthNone)"

definition token_authenticate :: "(string \<times> bool) list \<Rightarrow> string \<Rightarrow> bool \<times> auth_error option \<times> string" where
  "token_authenticate tokens metric =
     (case split_n2 CHR ''.'' metric of
        [tok, rest] \<Rightarrow>
          (case map_of tokens tok of
             Some True \<Rightarrow> (True, None, rest)
           | _ \<Rightarrow> (False, Some InvalidToken, metric))
      | _ \<Rightarrow> (False, Some MissingToken, metric))"

fun Authenticate :: "Auth \<Rightarrow> string \<Rightarrow> bool \<times> auth_error option \<times> string" where
  "Authenticate AuthNone metric = (True, None, metric)"
| "Authenticate (AuthConfigToken tokens) metric = token_authenticate tokens metric"

subsection \<open>The contract of the interface\<close>

text \<open>
  Flag and error agree, a rejected message is left as it was, and an accepted one is the end of
  what was sent.
\<close>

locale authenticator =
  fixes authenticate :: "string \<Rightarrow> bool \<times> 'e option \<times> string"
  assumes flag_iff: "authenticate msg = (ok, err, msg') \<Longrightarrow> ok \<longleftrightarrow> err = None"
    and rejected_same: "authenticate msg = (False, err, msg') \<Longrightarrow> msg' = msg"
    and accepted_suffix: "authenticate msg = (True, err, msg') \<Longrightarrow> \<exists>token. msg = token @ msg'"
begin

lemma guard_iff: "authenticate msg = (ok, err, msg') \<Longrightarrow> err \<noteq> None \<or> \<not> ok \<longleftrightarrow> \<not> ok"
  using flag_iff by blast

lemma length_result: "authenticate msg = (ok, err, msg') \<Longrightarrow> length msg' \<le> length msg"
  using rejected_same [of msg err msg'] accepted_suffix [of msg err msg'] by (cases ok) auto

end

lemma token_authenticate_cases:
  obtains (accepted) tok rest where "metric = tok @ CHR ''.'' # rest" "CHR ''.'' \<notin> set tok"
      "map_of tokens tok = Some True" "token_authenticate tokens metric = (True, None, rest)"
    | (invalid) tok rest where "metric = tok @ CHR ''.'' # rest" "CHR ''.'' \<notin> set tok"
      "map_of tokens tok \<noteq> Some True" "token_authenticate tokens metric = (False, Some InvalidToken, metric)"
    | (missing) "CHR ''.'' \<notin> set metric" "token_authenticate tokens metric = (False, Some MissingToken, metric)"
proof (cases "CHR ''.'' \<in> set metric")
  case False
  then show ?thesis by (intro missing) (simp_all add: token_authenticate_def split_n2_no_sep)
next
  case True
  then obtain tok rest where m: "metric = tok @ CHR ''.'' # rest" "CHR ''.'' \<notin> set tok"
    by (auto dest: split_list_first)
  show ?thesis
  proof (cases "map_of tokens tok = Some True")
    case t: True
    show ?thesis by (rule accepted [OF m t]) (simp add: token_authenticate_def split_n2_cut m t)
  next
    case t: False
    then show ?thesis
      by (intro invalid [OF m t]) (auto simp: token_authenticate_def split_n2_cut m split: option.splits bool.splits)
  qed
qed

interpretation token_auth: authenticator "token_authenticate tokens" for tokens
proof
  fix msg ok err msg'
  assume a: "token_authenticate tokens msg = (ok, err, msg')"
  show "ok \<longleftrightarrow> err = None" by (rule token_authenticate_cases [of msg tokens]) (use a in auto)
next
  fix msg err msg'
  assume a: "token_authenticate tokens msg = (False, err, msg')"
  show "msg' = msg" by (rule token_authenticate_cases [of msg tokens]) (use a in auto)
next
  fix msg err msg'
  assume a: "token_authenticate tokens msg = (True, err, msg')"
  show "\<exists>token. msg = token @ msg'"
    by (rule token_authenticate_cases [of msg tokens]) (use a in \<open>auto intro: exI [of _ "tok @ ''.''" for tok]\<close>)
qed

interpretation any_auth: authenticator "Authenticate a" for a
proof (cases a)
  case AuthNone
  then show "authenticator (Authenticate a)" by unfold_locales auto
next
  case (AuthConfigToken tokens)
  then have "Authenticate a = token_authenticate tokens" by auto
  then show "authenticator (Authenticate a)" by (simp add: token_auth.authenticator_axioms)
qed

lemma token_authenticate_accepts:
  "token_authenticate tokens metric = (True, None, rest) \<longleftrightarrow>
   (\<exists>tok. metric = tok @ CHR ''.'' # rest \<and> CHR ''.'' \<notin> set tok \<and> map_of tokens tok = Some True)"
proof
  assume a: "token_authenticate tokens metric = (True, None, rest)"
  show "\<exists>tok. metric = tok @ CHR ''.'' # rest \<and> CHR ''.'' \<notin> set tok \<and> map_of tokens tok = Some True"
    by (rule token_authenticate_cases [of metric tokens]) (use a in auto)
next
  assume "\<exists>tok. metric = tok @ CHR ''.'' # rest \<and> CHR ''.'' \<notin> set tok \<and> map_of tokens tok = Some True"
  then show "token_authenticate tokens metric = (True, None, rest)"
    by (auto simp: token_authenticate_def split_n2_cut)
qed

text \<open>
  Property C35.  Token authentication, as configured with \<open>service.auth = token\<close>: a message is
  accepted exactly when it starts with a token that the configuration maps to true, followed
  by a dot, and what is parsed is the message without that token and dot.
\<close>
theorem Authenticate_token:
  "Authenticate (CreateAuth (config\<lparr>cfgService := svc\<lparr>svcAuth := AuthTypeConfigToken\<rparr>\<rparr>)) metric = (True, None, rest) \<longleftrightarrow>
   (\<exists>tok. metric = tok @ CHR ''.'' # rest \<and> CHR ''.'' \<notin> set tok \<and> map_of (svcTokens svc) tok = Some True)"
  by (simp add: CreateAuth_def token_authenticate_accepts)

text \<open>
  Fact.  A rejected message is rejected with an error and unchanged, and an accepted one
  has no error, whatever authenticator the configuration selects; with any other setting than
  \<open>token\<close> every message is accepted as it is.
\<close>
theorem Authenticate_contract:
  "case Authenticate (CreateAuth config) metric of (ok, err, metric') \<Rightarrow>
     (ok \<longleftrightarrow> err = None) \<and> (metric' = metric \<or> ok) \<and>
     (svcAuth (cfgService config) = AuthTypeConfigToken \<or> (ok \<and> metric' = metric))"
proof -
  obtain ok err metric' where r: "Authenticate (CreateAuth config) metric = (ok, err, metric')"
    by (metis prod.exhaust)
  have "svcAuth (cfgService config) = AuthTypeConfigToken \<or> (ok \<and> metric' = metric)"
    using r by (auto simp: CreateAuth_def split: if_splits)
  then show ?thesis
    using any_auth.flag_iff [OF r] any_auth.rejected_same [of "CreateAuth config" metric err metric'] r by auto
qed

end
