(* ===== verification/Channel.thy ===== *)
theory Channel
  imports Prelude
begin

text \<open>
  Buffered Go channels.  A channel holds at most its capacity; a send to a full channel and a
  receive from an empty one block, which is \<open>None\<close> here: the caller's step is not enabled.  The
  program's channels (\<open>parseChannel\<close>, \<open>relayChannel\<close>, the pool's \<open>Connections\<close>) are all of
  this kind.  The interface the components rely on is the locale \<open>fifo_channel\<close>.
\<close>

record 'a chan =
  chan_buf :: "'a list"
  chan_cap :: nat

definition make_chan :: "nat \<Rightarrow> 'a chan" where
  "make_chan n = \<lparr>chan_buf = [], chan_cap = n\<rparr>"

definition chan_send :: "'a chan \<Rightarrow> 'a \<Rightarrow> 'a chan option" where
  "chan_send c x =
     (if length (chan_buf c) < chan_cap c then Some (c\<lparr>chan_buf := chan_buf c @ [x]\<rparr>) else None)"

definition chan_recv :: "'a chan \<Rightarrow> ('a \<times> 'a chan) option" where
  "chan_recv c = (case chan_buf c of [] \<Rightarrow> None | x # xs \<Rightarrow> Some (x, c\<lparr>chan_buf := xs\<rparr>))"

text \<open>The contract of a first-in first-out channel of bounded capacity.\<close>

locale fifo_channel =
  fixes send :: "'c \<Rightarrow> 'a \<Rightarrow> 'c option" and recv :: "'c \<Rightarrow> ('a \<times> 'c) option"
    and contents :: "'c \<Rightarrow> 'a list" and capacity :: "'c \<Rightarrow> nat"
  assumes send_full: "send c x = None \<longleftrightarrow> capacity c \<le> length (contents c)"
    and send_contents: "send c x = Some c' \<Longrightarrow> contents c' = contents c @ [x]"
    and send_capacity: "send c x = Some c' \<Longrightarrow> capacity c' = capacity c"
    and recv_empty: "recv c = None \<longleftrightarrow> contents c = []"
    and recv_contents: "recv c = Some (x, c') \<Longrightarrow> contents c = x # contents c'"
    and recv_capacity: "recv c = Some (x, c') \<Longrightarrow> capacity c' = capacity c"
begin

lemma send_bound: "send c x = Some c' \<Longrightarrow> length (contents c') \<le> capacity c'"
  using send_full [of c x] by (simp add: send_contents send_capacity)

lemma recv_bound:
  "recv c = Some (x, c') \<Longrightarrow> length (contents c) \<le> capacity c \<Longrightarrow> length (contents c') < capacity c'"
  using recv_contents [of c x c'] recv_capacity [of c x c'] by simp

text \<open>What was received, followed by what is still buffered, is what was sent: nothing is lost,
  repeated or reordered.\<close>

lemma send_history: "send c x = Some c' \<Longrightarrow> taken @ contents c = given \<Longrightarrow> taken @ contents c' = given @ [x]"
  by (auto dest: send_contents)

lemma recv_history: "recv c = Some (x, c') \<Longrightarrow> taken @ contents c = given \<Longrightarrow> (taken @ [x]) @ contents c' = given"
  by (auto dest: recv_contents)

lemma recv_after_send:
  "send c x = Some c' \<Longrightarrow> contents c = [] \<Longrightarrow> \<exists>c''. recv c' = Some (x, c'') \<and> contents c'' = []"
  using recv_empty [of c'] send_contents [of c x c'] recv_contents [of c']
  by (cases "recv c'") auto

end

interpretation go_chan: fifo_channel chan_send chan_recv chan_buf chan_cap
  by unfold_locales (auto simp: chan_send_def chan_recv_def split: if_splits list.splits)

lemma make_chan_simps [simp]: "chan_buf (make_chan n) = []" "chan_cap (make_chan n) = n"
  by (simp_all add: make_chan_def)

end
