(* ===== verification/Parse_Loop.thy ===== *)
theory Parse_Loop
  imports Metric_Parse Authentication Channel
begin

text \<open>
  The goroutine \<open>ParseMetrics\<close> of \<open>statsgod/metric.go\<close>: it takes messages from the parse
  channel, authenticates and parses them, and gives the metrics to the relay channel.  One
  iteration is \<open>parse_message\<close>; the loop is the step relation \<open>parse_step\<close>, whose events
  include what the goroutines at the other ends of the two channels do.
\<close>

subsection \<open>One message\<close>

datatype parse_outcome =
    AuthRejected bool "auth_error option"
  | MetricRejected parse_error
  | Accepted Metric
  | ParsePanic

definition parse_message :: "Auth \<Rightarrow> string \<Rightarrow> parse_outcome" where
  "parse_message auth metricString =
     (case Authenticate auth metricString of (authOk, authErr, metricString') \<Rightarrow>
        if authErr \<noteq> None \<or> \<not> authOk then AuthRejected authOk authErr
        else (case ParseMetricString metricString' of
                None \<Rightarrow> ParsePanic
              | Some (metric, Some err) \<Rightarrow> MetricRejected err
              | Some (metric, None) \<Rightarrow> Accepted metric))"

definition accepted_metric :: "Auth \<Rightarrow> string \<Rightarrow> Metric option" where
  "accepted_metric auth msg = (case parse_message auth msg of Accepted m \<Rightarrow> Some m | _ \<Rightarrow> None)"

subsection \<open>The loop\<close>

text \<open>
  Where the goroutine is: in the \<open>select\<close>, at the send to the relay channel, at the test of
  the quit flag, or returned.
\<close>

datatype parser_pc = Selecting | Sending Metric | Testing | Returned | Dead

record parse_state =
  parseChannel :: "string chan"
  relayChannel :: "Metric chan"
  parserPc :: parser_pc
  quitFlag :: bool

text \<open>
  \<open>Enqueued\<close>, \<open>Dequeued\<close> and \<open>QuitSet\<close> are steps of other goroutines, the rest are the
  parser's own.  The timer of the \<open>select\<close> may win whether or not a message is waiting.
\<close>

datatype parse_event =
    Enqueued string | Dequeued Metric | QuitSet
  | Took string | TimerFired | Gave Metric | QuitTested

inductive parse_step :: "Auth \<Rightarrow> parse_state \<Rightarrow> parse_event \<Rightarrow> parse_state \<Rightarrow> bool" for auth where
  enqueue: "chan_send (parseChannel s) msg = Some c \<Longrightarrow>
    parse_step auth s (Enqueued msg) (s\<lparr>parseChannel := c\<rparr>)"
| dequeue: "chan_recv (relayChannel s) = Some (m, c) \<Longrightarrow>
    parse_step auth s (Dequeued m) (s\<lparr>relayChannel := c\<rparr>)"
| quit: "parse_step auth s QuitSet (s\<lparr>quitFlag := True\<rparr>)"
| accept: "parserPc s = Selecting \<Longrightarrow> chan_recv (parseChannel s) = Some (msg, c) \<Longrightarrow>
    parse_message auth msg = Accepted m \<Longrightarrow>
    parse_step auth s (Took msg) (s\<lparr>parseChannel := c, parserPc := Sending m\<rparr>)"
| reject: "parserPc s = Selecting \<Longrightarrow> chan_recv (parseChannel s) = Some (msg, c) \<Longrightarrow>
    parse_message auth msg = AuthRejected ok err \<or> parse_message auth msg = MetricRejected perr \<Longrightarrow>
    parse_step auth s (Took msg) (s\<lparr>parseChannel := c, parserPc := Testing\<rparr>)"
| die: "parserPc s = Selecting \<Longrightarrow> chan_recv (parseChannel s) = Some (msg, c) \<Longrightarrow>
    parse_message auth msg = ParsePanic \<Longrightarrow>
    parse_step auth s (Took msg) (s\<lparr>parseChannel := c, parserPc := Dead\<rparr>)"
| timer: "parserPc s = Selecting \<Longrightarrow> parse_step auth s TimerFired (s\<lparr>parserPc := Testing\<rparr>)"
| give: "parserPc s = Sending m \<Longrightarrow> chan_send (relayChannel s) m = Some c \<Longrightarrow>
    parse_step auth s (Gave m) (s\<lparr>relayChannel := c, parserPc := Testing\<rparr>)"
| stop: "parserPc s = Testing \<Longrightarrow> quitFlag s \<Longrightarrow> parse_step auth s QuitTested (s\<lparr>parserPc := Returned\<rparr>)"
| again: "parserPc s = Testing \<Longrightarrow> \<not> quitFlag s \<Longrightarrow> parse_step auth s QuitTested (s\<lparr>parserPc := Selecting\<rparr>)"

inductive parse_run :: "Auth \<Rightarrow> parse_state \<Rightarrow> parse_event list \<Rightarrow> parse_state \<Rightarrow> bool" for auth where
  none: "parse_run auth s [] s"
| more: "parse_run auth s es s' \<Longrightarrow> parse_step auth s' e s'' \<Longrightarrow> parse_run auth s (es @ [e]) s''"

text \<open>The channels as \<open>main\<close> makes them.\<close>

definition MaxReqs :: nat where
  "MaxReqs = 10 * 2 ^ 20 div (10 * 2 ^ 10)"

definition parse_init :: parse_state where
  "parse_init = \<lparr>parseChannel = make_chan MaxReqs, relayChannel = make_chan MaxReqs,
     parserPc = Selecting, quitFlag = False\<rparr>"

inductive_cases parse_step_cases: "parse_step auth s e s'"
inductive_simps parse_step_took: "parse_step auth s (Took msg) s'"
inductive_simps parse_step_gave: "parse_step auth s (Gave m) s'"
inductive_simps parse_step_tested: "parse_step auth s QuitTested s'"
inductive_simps parse_step_timer: "parse_step auth s TimerFired s'"
inductive_simps parse_run_Nil: "parse_run auth s [] s'"

subsection \<open>What the history of a run says\<close>

fun enqueued_of :: "parse_event \<Rightarrow> string list" where
  "enqueued_of (Enqueued msg) = [msg]"
| "enqueued_of _ = []"

fun taken_of :: "parse_event \<Rightarrow> string list" where
  "taken_of (Took msg) = [msg]"
| "taken_of _ = []"

fun dequeued_of :: "parse_event \<Rightarrow> Metric list" where
  "dequeued_of (Dequeued m) = [m]"
| "dequeued_of _ = []"

fun own_of :: "parse_event \<Rightarrow> unit list" where
  "own_of (Took _) = [()]"
| "own_of TimerFired = [()]"
| "own_of (Gave _) = [()]"
| "own_of QuitTested = [()]"
| "own_of _ = []"

definition history :: "(parse_event \<Rightarrow> 'a list) \<Rightarrow> parse_event list \<Rightarrow> 'a list" where
  "history f es = concat (map f es)"

lemma history_simps [simp]:
  "history f [] = []" "history f (es @ fs) = history f es @ history f fs" "history f [e] = f e"
  by (simp_all add: history_def)

fun pending :: "parser_pc \<Rightarrow> Metric list" where
  "pending (Sending m) = [m]"
| "pending _ = []"

definition accepted_metrics :: "Auth \<Rightarrow> string list \<Rightarrow> Metric list" where
  "accepted_metrics auth msgs = List.map_filter (accepted_metric auth) msgs"

lemma accepted_metrics_simps [simp]:
  "accepted_metrics auth [] = []"
  "accepted_metrics auth (xs @ ys) = accepted_metrics auth xs @ accepted_metrics auth ys"
  "accepted_metrics auth [x] = (case accepted_metric auth x of Some m \<Rightarrow> [m] | None \<Rightarrow> [])"
  by (simp_all add: accepted_metrics_def List.map_filter_def split: option.splits)

lemma parse_message_total: "parse_message auth msg \<noteq> ParsePanic"
  by (auto simp: parse_message_def parse_refines split: prod.splits option.splits)

text \<open>The state of the loop, read off its history.\<close>

definition parse_inv :: "Auth \<Rightarrow> parse_event list \<Rightarrow> parse_state \<Rightarrow> bool" where
  "parse_inv auth es s \<longleftrightarrow>
     history enqueued_of es = history taken_of es @ chan_buf (parseChannel s) \<and>
     accepted_metrics auth (history taken_of es) =
       history dequeued_of es @ chan_buf (relayChannel s) @ pending (parserPc s) \<and>
     length (chan_buf (parseChannel s)) \<le> MaxReqs \<and> chan_cap (parseChannel s) = MaxReqs \<and>
     length (chan_buf (relayChannel s)) \<le> MaxReqs \<and> chan_cap (relayChannel s) = MaxReqs \<and>
     parserPc s \<noteq> Dead"

lemma parse_inv_init: "parse_inv auth [] parse_init"
  by (simp add: parse_inv_def parse_init_def)

lemma parse_inv_step: "parse_step auth s e s' \<Longrightarrow> parse_inv auth es s \<Longrightarrow> parse_inv auth (es @ [e]) s'"
proof (induction rule: parse_step.cases)
  case (enqueue s msg c)
  then show ?case
    using go_chan.send_bound [of "parseChannel s" msg c]
    by (auto simp: parse_inv_def go_chan.send_contents go_chan.send_capacity)
next
  case (dequeue s m c)
  then show ?case
    using go_chan.recv_contents [of "relayChannel s" m c] go_chan.recv_capacity [of "relayChannel s" m c]
    by (auto simp: parse_inv_def)
next
  case (accept s msg c m)
  then show ?case
    using go_chan.recv_contents [of "parseChannel s" msg c] go_chan.recv_capacity [of "parseChannel s" msg c]
    by (auto simp: parse_inv_def accepted_metric_def)
next
  case (reject s msg c ok err perr)
  then show ?case
    using go_chan.recv_contents [of "parseChannel s" msg c] go_chan.recv_capacity [of "parseChannel s" msg c]
    by (auto simp: parse_inv_def accepted_metric_def)
next
  case (die s msg c)
  then show ?case using parse_message_total by simp
next
  case (give s m c)
  then show ?case
    using go_chan.send_bound [of "relayChannel s" m c]
    by (auto simp: parse_inv_def go_chan.send_contents go_chan.send_capacity)
qed (auto simp: parse_inv_def)

lemma parse_inv_run: "parse_run auth s es s' \<Longrightarrow> parse_inv auth fs s \<Longrightarrow> parse_inv auth (fs @ es) s'"
  by (induction rule: parse_run.induct) (auto dest: parse_inv_step)

text \<open>
  Property C12.  The parse goroutine neither loses, repeats nor reorders anything, and never
  panics: in every run, whatever the other goroutines do, the messages taken are a prefix of
  those sent, and the metrics given out so far, those still in the relay channel and the one
  in hand are, in order, the metrics of the accepted messages among those taken.
\<close>
theorem ParseMetrics_in_order:
  assumes "parse_run auth parse_init es s"
  shows "history enqueued_of es = history taken_of es @ chan_buf (parseChannel s) \<and>
    history dequeued_of es @ chan_buf (relayChannel s) @ pending (parserPc s) =
      accepted_metrics auth (history taken_of es) \<and>
    length (chan_buf (relayChannel s)) \<le> MaxReqs \<and> parserPc s \<noteq> Dead"
  using parse_inv_run [OF assms parse_inv_init] by (simp add: parse_inv_def)

lemma char_of_a: "(char_of (97::nat) :: char) = CHR ''a''"
  by code_simp

lemma parse_plain_gauge:
  "parse_message AuthNone ''a:2|g'' = Accepted (parsed_metric ''a'' (Fin 2) MetricTypeGauge 1)"
proof -
  have u: "utf8_encode [97] = ''a''" by (simp add: utf8_encode_def encode_rune_def valid_rune_def surrogate_def char_of_a)
  have "ParseMetricString (utf8_encode [97] @ '':'' @ ''2'' @ ''|'' @ ''g'') =
      Some (parsed_metric (utf8_encode [97]) (Fin 2) MetricTypeGauge 1, None)"
    by (rule well_formed_message) (simp_all add: field_eval rune_defs parse_two getMetricType_def)
  then show ?thesis unfolding u by (simp add: parse_message_def)
qed

lemma run_snoc: "parse_run auth s es s' \<Longrightarrow> parse_step auth s' e s'' \<Longrightarrow> fs = es @ [e] \<Longrightarrow> parse_run auth s fs s''"
  by (auto intro: parse_run.more)

theorem ParseMetrics_in_order_witness:
  "accepted_metrics AuthNone [''a:2|g''] = [parsed_metric ''a'' (Fin 2) MetricTypeGauge 1]"
proof -
  let ?m = "parsed_metric ''a'' (Fin 2) MetricTypeGauge 1"
  let ?p = "\<lparr>chan_buf = [''a:2|g''], chan_cap = MaxReqs\<rparr>"
  let ?s1 = "parse_init\<lparr>parseChannel := ?p\<rparr>"
  let ?s2 = "?s1\<lparr>parseChannel := ?p\<lparr>chan_buf := []\<rparr>, parserPc := Sending ?m\<rparr>"
  let ?s3 = "?s2\<lparr>relayChannel := \<lparr>chan_buf = [?m], chan_cap = MaxReqs\<rparr>, parserPc := Testing\<rparr>"
  have "parse_step AuthNone parse_init (Enqueued ''a:2|g'') ?s1"
    by (rule parse_step.enqueue) (simp add: parse_init_def chan_send_def make_chan_def MaxReqs_def)
  then have "parse_run AuthNone parse_init [Enqueued ''a:2|g''] ?s1"
    by (rule run_snoc [OF parse_run.none]) simp
  moreover have "parse_step AuthNone ?s1 (Took ''a:2|g'') ?s2"
    by (rule parse_step.accept) (simp_all add: parse_init_def chan_recv_def parse_plain_gauge)
  ultimately have "parse_run AuthNone parse_init [Enqueued ''a:2|g'', Took ''a:2|g''] ?s2"
    by (rule run_snoc) simp
  moreover have "parse_step AuthNone ?s2 (Gave ?m) ?s3"
    by (rule parse_step.give) (simp_all add: parse_init_def chan_send_def make_chan_def MaxReqs_def)
  ultimately have "parse_run AuthNone parse_init [Enqueued ''a:2|g'', Took ''a:2|g'', Gave ?m] ?s3"
    by (rule run_snoc) simp
  from ParseMetrics_in_order [OF this] show ?thesis by (simp add: history_def)
qed

subsection \<open>Stopping\<close>

text \<open>Own steps left once the quit flag is set.\<close>

fun steps_left :: "parser_pc \<Rightarrow> nat" where
  "steps_left Selecting = 3"
| "steps_left (Sending _) = 2"
| "steps_left Testing = 1"
| "steps_left Returned = 0"
| "steps_left Dead = 0"

lemma quit_step:
  "parse_step auth s e s' \<Longrightarrow> quitFlag s \<Longrightarrow>
    quitFlag s' \<and> length (own_of e) + steps_left (parserPc s') \<le> steps_left (parserPc s)"
  by (induction rule: parse_step.cases) auto

lemma quit_run:
  "parse_run auth s es s' \<Longrightarrow> quitFlag s \<Longrightarrow>
    quitFlag s' \<and> length (history own_of es) + steps_left (parserPc s') \<le> steps_left (parserPc s)"
proof (induction rule: parse_run.induct)
  case (more s es s' e s'')
  then show ?case using quit_step [OF more.hyps(2)] by simp
qed simp

definition blocked :: "parse_state \<Rightarrow> bool" where
  "blocked s \<longleftrightarrow> (\<exists>m. parserPc s = Sending m) \<and> chan_cap (relayChannel s) \<le> length (chan_buf (relayChannel s))"

lemma own_step_enabled:
  assumes "parserPc s \<noteq> Returned" "parserPc s \<noteq> Dead" "\<not> blocked s"
  shows "\<exists>e s'. parse_step auth s e s' \<and> own_of e \<noteq> []"
proof (cases "parserPc s")
  case Selecting
  then have "parse_step auth s TimerFired (s\<lparr>parserPc := Testing\<rparr>)" by (rule parse_step.timer)
  then show ?thesis by (intro exI [of _ TimerFired] exI) simp
next
  case (Sending m)
  with assms(3) obtain c where "chan_send (relayChannel s) m = Some c"
    by (auto simp: blocked_def chan_send_def)
  with Sending have "parse_step auth s (Gave m) (s\<lparr>relayChannel := c, parserPc := Testing\<rparr>)"
    by (rule parse_step.give)
  then show ?thesis by (intro exI [of _ "Gave m"] exI) simp
next
  case Testing
  show ?thesis
  proof (cases "quitFlag s")
    case True
    from parse_step.stop [OF Testing True, of auth] show ?thesis by (intro exI [of _ QuitTested] exI) simp
  next
    case False
    from parse_step.again [OF Testing False, of auth] show ?thesis by (intro exI [of _ QuitTested] exI) simp
  qed
qed (use assms in simp_all)

text \<open>
  Property C36.  Once the quit flag is set the parse goroutine makes at most three more steps of
  its own, and it is only ever without a next step when it has returned or waits at a full
  relay channel; in particular it cannot be stuck in the \<open>select\<close>.
\<close>
theorem ParseMetrics_quits:
  assumes "parse_run auth parse_init es s" "quitFlag s" "parse_run auth s fs s'"
  shows "length (history own_of fs) \<le> 3 \<and>
    (parserPc s' = Returned \<or> blocked s' \<or> (\<exists>e t. parse_step auth s' e t \<and> own_of e \<noteq> []))"
proof -
  have "parse_inv auth (([] @ es) @ fs) s'"
    by (rule parse_inv_run [OF assms(3) parse_inv_run [OF assms(1) parse_inv_init]])
  then have "parserPc s' \<noteq> Dead" by (simp add: parse_inv_def)
  moreover have "steps_left (parserPc s) \<le> 3" by (cases "parserPc s") auto
  ultimately show ?thesis using quit_run [OF assms(3,2)] own_step_enabled [of s'] by auto
qed

theorem ParseMetrics_quits_witness:
  "length (history own_of [TimerFired, QuitTested]) \<le> 3"
proof -
  let ?s = "parse_init\<lparr>quitFlag := True\<rparr>"
  have "parse_run AuthNone parse_init [QuitSet] ?s"
    by (rule run_snoc [OF parse_run.none parse_step.quit]) simp
  moreover have "quitFlag ?s" by simp
  moreover have "parse_run AuthNone ?s [TimerFired] (?s\<lparr>parserPc := Testing\<rparr>)"
    by (rule run_snoc [OF parse_run.none]) (simp_all add: parse_step_timer parse_init_def)
  then have "parse_run AuthNone ?s [TimerFired, QuitTested] (?s\<lparr>parserPc := Returned\<rparr>)"
    by (rule run_snoc) (simp_all add: parse_step_tested)
  ultimately show ?thesis by (rule ParseMetrics_quits [THEN conjunct1])
qed

end
