(* ===== verification/Connection_Pool.thy ===== *)
theory Connection_Pool
  imports Channel Go_Text
begin

text \<open>
  Connections to the backend: \<open>statsgod/nilconn.go\<close> and \<open>statsgod/connectionpool.go\<close>.  What
  the network does is the environment \<open>net_env\<close>: whether the k-th dial succeeds, how the k-th
  write ends, whether the timer of the k-th \<open>GetConnection\<close> wins over a waiting connection.  The
  record \<open>net\<close> logs what the program does to it.  The pool is modelled as its one user sees it;
  several users at once are the subject of \<open>Pool_Clients\<close>.
\<close>

subsection \<open>Outcomes, connections and the network\<close>

text \<open>A call returns, panics, or blocks for ever.\<close>

datatype 'a outcome = Done 'a | Panicked string | Hung

datatype conn = Conn nat | NilConn

record net_env =
  dial_ok :: "nat \<Rightarrow> string \<Rightarrow> string \<Rightarrow> bool"
  write_fails :: "nat \<Rightarrow> nat option"  \<comment> \<open>\<open>Some n\<close>: an error after \<open>n\<close> bytes\<close>
  timer_first :: "nat \<Rightarrow> bool"

record net =
  dials :: nat
  writes :: nat
  gets :: nat
  wire :: "(nat \<times> string) list"
  closed :: "nat list"
  deadlines :: "(nat \<times> duration) list"

definition NilConnPanicMsg :: string where
  "NilConnPanicMsg = ''Use of a nil connection.''"

text \<open>The methods of \<open>net.Conn\<close>; on a \<open>NilConn\<close> each of them panics.\<close>

datatype conn_method =
  Read nat | Write string | Close | LocalAddr | RemoteAddr
  | SetDeadline duration | SetReadDeadline duration | SetWriteDeadline duration

fun nil_call :: "conn_method \<Rightarrow> 'a outcome" where
  "nil_call (Read n) = Panicked NilConnPanicMsg"
| "nil_call (Write b) = Panicked NilConnPanicMsg"
| "nil_call Close = Panicked NilConnPanicMsg"
| "nil_call LocalAddr = Panicked NilConnPanicMsg"
| "nil_call RemoteAddr = Panicked NilConnPanicMsg"
| "nil_call (SetDeadline t) = Panicked NilConnPanicMsg"
| "nil_call (SetReadDeadline t) = Panicked NilConnPanicMsg"
| "nil_call (SetWriteDeadline t) = Panicked NilConnPanicMsg"

fun conn_close :: "conn \<Rightarrow> net \<Rightarrow> net outcome" where
  "conn_close NilConn n = nil_call Close"
| "conn_close (Conn i) n = Done (n\<lparr>closed := closed n @ [i]\<rparr>)"

fun conn_set_deadline :: "conn \<Rightarrow> duration \<Rightarrow> net \<Rightarrow> net outcome" where
  "conn_set_deadline NilConn t n = nil_call (SetDeadline t)"
| "conn_set_deadline (Conn i) t n = Done (n\<lparr>deadlines := deadlines n @ [(i, t)]\<rparr>)"

text \<open>
  \<open>fmt.Fprint(conn, payload)\<close> makes one write; the flag says whether it succeeded.  A write that
  fails may have delivered any part of the payload, all of it included.
\<close>

fun conn_write :: "net_env \<Rightarrow> conn \<Rightarrow> string \<Rightarrow> net \<Rightarrow> (bool \<times> net) outcome" where
  "conn_write env NilConn payload n = nil_call (Write payload)"
| "conn_write env (Conn i) payload n =
     (let n1 = n\<lparr>writes := writes n + 1\<rparr>
      in case write_fails env (writes n) of
           None \<Rightarrow> Done (True, n1\<lparr>wire := wire n1 @ [(i, payload)]\<rparr>)
         | Some k \<Rightarrow> Done (False, n1\<lparr>wire := wire n1 @ [(i, take k payload)]\<rparr>))"

subsection \<open>The pool\<close>

definition ConnPoolTypeTcp :: int where "ConnPoolTypeTcp = 0"
definition ConnPoolTypeUnix :: int where "ConnPoolTypeUnix = 1"
definition ConnPoolTypeNone :: int where "ConnPoolTypeNone = 2"

record ConnectionPool =
  Size :: int
  Connections :: "conn chan"
  Addr :: string
  Type :: int
  Timeout :: duration
  ErrorCount :: int

datatype pool_error = UnknownConnType | DialFailed | TooMany | ConnTimeout | ConnectionsFailed int

definition conn_type :: "int \<Rightarrow> string option" where
  "conn_type t = (if t = ConnPoolTypeTcp then Some ''tcp'' else if t = ConnPoolTypeUnix then Some ''unix'' else None)"

definition CreateConnection ::
  "net_env \<Rightarrow> ConnectionPool \<Rightarrow> net \<Rightarrow> ((bool \<times> pool_error option) \<times> ConnectionPool \<times> net) outcome" where
  "CreateConnection env pool n =
     (if int (length (chan_buf (Connections pool))) < Size pool then
        (case conn_type (Type pool) of
           None \<Rightarrow> Done ((False, Some UnknownConnType), pool, n)
         | Some connType \<Rightarrow>
             (let conn = Conn (dials n); n1 = n\<lparr>dials := dials n + 1\<rparr>
              in if \<not> dial_ok env (dials n) connType (Addr pool)
                 then Done ((False, Some DialFailed), pool\<lparr>ErrorCount := ErrorCount pool + 1\<rparr>, n1)
                 else (case conn_set_deadline conn (Timeout pool) n1 of
                         Panicked p \<Rightarrow> Panicked p
                       | Hung \<Rightarrow> Hung
                       | Done n2 \<Rightarrow>
                           (case chan_send (Connections pool) conn of
                              None \<Rightarrow> Hung
                            | Some c \<Rightarrow> Done ((True, None), pool\<lparr>Connections := c\<rparr>, n2)))))
      else Done ((False, Some TooMany), pool, n))"

text \<open>The loop of \<open>CreateConnectionPool\<close>, counting the failures.\<close>

fun create_loop :: "net_env \<Rightarrow> nat \<Rightarrow> ConnectionPool \<Rightarrow> net \<Rightarrow> int \<Rightarrow> (int \<times> ConnectionPool \<times> net) outcome" where
  "create_loop env 0 pool n errorCount = Done (errorCount, pool, n)"
| "create_loop env (Suc i) pool n errorCount =
     (case CreateConnection env pool n of
        Done ((added, err), pool', n') \<Rightarrow>
          create_loop env i pool' n' (if \<not> added \<or> err \<noteq> None then errorCount + 1 else errorCount)
      | Panicked p \<Rightarrow> Panicked p
      | Hung \<Rightarrow> Hung)"

text \<open>A negative size makes \<open>make(chan net.Conn, size)\<close> panic.\<close>

definition CreateConnectionPool ::
  "net_env \<Rightarrow> int \<Rightarrow> string \<Rightarrow> int \<Rightarrow> duration \<Rightarrow> net \<Rightarrow> (ConnectionPool \<times> pool_error option \<times> net) outcome" where
  "CreateConnectionPool env sz addr connType timeout n =
     (if sz < 0 then Panicked ''makechan: size out of range''
      else
        (let pool = \<lparr>Size = sz, Connections = make_chan (nat sz), Addr = addr, Type = connType,
                     Timeout = timeout, ErrorCount = 0\<rparr>
         in case create_loop env (nat sz) pool n 0 of
              Done (errorCount, pool', n') \<Rightarrow>
                Done (pool', if errorCount > 0 then Some (ConnectionsFailed errorCount) else None, n')
            | Panicked p \<Rightarrow> Panicked p
            | Hung \<Rightarrow> Hung))"

text \<open>With an empty channel the timer is all that can end the \<open>select\<close>.\<close>

definition GetConnection ::
  "net_env \<Rightarrow> ConnectionPool \<Rightarrow> net \<Rightarrow> (conn \<times> pool_error option) \<times> ConnectionPool \<times> net" where
  "GetConnection env pool n =
     (let n1 = n\<lparr>gets := gets n + 1\<rparr>
      in if timer_first env (gets n) then ((NilConn, Some ConnTimeout), pool, n1)
         else (case chan_recv (Connections pool) of
                 Some (conn, c) \<Rightarrow> ((conn, None), pool\<lparr>Connections := c\<rparr>, n1)
               | None \<Rightarrow> ((NilConn, Some ConnTimeout), pool, n1)))"

definition ReleaseConnection ::
  "net_env \<Rightarrow> ConnectionPool \<Rightarrow> conn \<Rightarrow> bool \<Rightarrow> net \<Rightarrow>
   ((bool \<times> pool_error option) \<times> ConnectionPool \<times> net) outcome" where
  "ReleaseConnection env pool conn recreate n =
     (if recreate then
        (case conn_close conn n of
           Done n1 \<Rightarrow>
             (case CreateConnection env pool n1 of
                Done ((added, err), pool', n2) \<Rightarrow>
                  if \<not> added \<or> err \<noteq> None then Done ((False, err), pool', n2)
                  else Done ((True, None), pool', n2)
              | Panicked p \<Rightarrow> Panicked p
              | Hung \<Rightarrow> Hung)
         | Panicked p \<Rightarrow> Panicked p
         | Hung \<Rightarrow> Hung)
      else
        (case conn_set_deadline conn (Timeout pool) n of
           Done n1 \<Rightarrow>
             (case chan_send (Connections pool) conn of
                None \<Rightarrow> Hung
              | Some c \<Rightarrow> Done ((True, None), pool\<lparr>Connections := c\<rparr>, n1))
         | Panicked p \<Rightarrow> Panicked p
         | Hung \<Rightarrow> Hung))"

end
