(* ===== verification/Relay.thy ===== *)
theory Relay
  imports Connection_Pool Aggregation Config
begin

text \<open>
  The relays of \<open>statsgod/relay.go\<close>: naming, sending to carbon, the two implementations of
  \<open>MetricRelay\<close>, the flush of a store and one iteration of the loop \<open>RelayMetrics\<close>.  The
  pool a relay points to and the network are the state \<open>backend\<close> threaded through the calls.
\<close>

subsection \<open>Names\<close>

definition NamespaceTypeCounter :: int where "NamespaceTypeCounter = 2"
definition NamespaceTypeGauge :: int where "NamespaceTypeGauge = 3"
definition NamespaceTypeRate :: int where "NamespaceTypeRate = 4"
definition NamespaceTypeSet :: int where "NamespaceTypeSet = 5"
definition NamespaceTypeTimer :: int where "NamespaceTypeTimer = 6"

lemmas namespace_type_defs =
  NamespaceTypeCounter_def NamespaceTypeGauge_def NamespaceTypeRate_def NamespaceTypeSet_def NamespaceTypeTimer_def

record CarbonRelay =
  FlushInterval :: duration
  Percentile :: "int list"
  Prefixes :: "int \<rightharpoonup> string"
  Suffixes :: "int \<rightharpoonup> string"

text \<open>The two maps from type to configured name, as lists in the order of the source; the
  result does not depend on the order, since the keys differ.\<close>

definition type_names :: "TypeNames \<Rightarrow> (int \<times> string) list" where
  "type_names names =
     [(NamespaceTypeCounter, nsCounters names), (NamespaceTypeGauge, nsGauges names),
      (NamespaceTypeRate, nsRates names), (NamespaceTypeSet, nsSets names), (NamespaceTypeTimer, nsTimers names)]"

definition SetPrefixesAndSuffixes :: "CarbonRelay \<Rightarrow> ConfigValues \<Rightarrow> CarbonRelay" where
  "SetPrefixesAndSuffixes c config =
     (let ns = cfgNamespace config;
          prefix = (if nsPrefix ns \<noteq> '''' then nsPrefix ns @ ''.'' else '''');
          prefixes = foldl (\<lambda>m (metricType, typePrefix).
            m(metricType \<mapsto> if typePrefix \<noteq> '''' then prefix @ typePrefix @ ''.'' else prefix))
            Map.empty (type_names (nsPrefixes ns));
          suffix = (if nsSuffix ns \<noteq> '''' then ''.'' @ nsSuffix ns else '''');
          suffixes = foldl (\<lambda>m (metricType, typeSuffix).
            m(metricType \<mapsto> if typeSuffix \<noteq> '''' then ''.'' @ typeSuffix @ suffix else suffix))
            Map.empty (type_names (nsSuffixes ns))
      in c\<lparr>Prefixes := prefixes, Suffixes := suffixes\<rparr>)"

text \<open>Reading a key that is not in a Go map gives the empty string.\<close>

definition lookup_string :: "(int \<rightharpoonup> string) \<Rightarrow> int \<Rightarrow> string" where
  "lookup_string m k = (case m k of Some s \<Rightarrow> s | None \<Rightarrow> '''')"

definition ApplyPrefixAndSuffix :: "CarbonRelay \<Rightarrow> string \<Rightarrow> int \<Rightarrow> string" where
  "ApplyPrefixAndSuffix c namespace metricType =
     lookup_string (Prefixes c) metricType @ namespace @ lookup_string (Suffixes c) metricType"

subsection \<open>Sending\<close>

type_synonym backend = "ConnectionPool \<times> net"

definition payload :: "string \<Rightarrow> f64 \<Rightarrow> string \<Rightarrow> string" where
  "payload key v t = key @ '' '' @ FormatFloat32 v @ '' '' @ t @ [CHR 0x0A]"

text \<open>The body of \<open>sendCarbonMetric\<close> up to the retry.\<close>

definition carbon_attempt :: "net_env \<Rightarrow> string \<Rightarrow> f64 \<Rightarrow> string \<Rightarrow> backend \<Rightarrow> (bool \<times> backend) outcome" where
  "carbon_attempt env key v t st =
     (case st of (pool, n) \<Rightarrow>
      (case GetConnection env pool n of
         ((conn, Some connErr), pool1, n1) \<Rightarrow>
           (case ReleaseConnection env pool1 conn True n1 of
              Done (_, pool2, n2) \<Rightarrow> Done (False, (pool2, n2))
            | Panicked p \<Rightarrow> Panicked p
            | Hung \<Rightarrow> Hung)
       | ((conn, None), pool1, n1) \<Rightarrow>
           (case conn_write env conn (payload key v t) n1 of
              Done (ok, n2) \<Rightarrow>
                (case ReleaseConnection env pool1 conn (\<not> ok) n2 of
                   Done (_, pool3, n3) \<Rightarrow> Done (ok, (pool3, n3))
                 | Panicked p \<Rightarrow> Panicked p
                 | Hung \<Rightarrow> Hung)
            | Panicked p \<Rightarrow> Panicked p
            | Hung \<Rightarrow> Hung)))"

function sendCarbonMetric ::
  "net_env \<Rightarrow> string \<Rightarrow> f64 \<Rightarrow> string \<Rightarrow> bool \<Rightarrow> backend \<Rightarrow> (bool \<times> backend) outcome" where
  "sendCarbonMetric env key v t retry st =
     (case carbon_attempt env key v t st of
        Done (dataSent, st') \<Rightarrow>
          if \<not> dataSent \<and> retry then sendCarbonMetric env key v t False st' else Done (dataSent, st')
      | Panicked p \<Rightarrow> Panicked p
      | Hung \<Rightarrow> Hung)"
  by pat_completeness auto
termination by (relation "measure (\<lambda>(env, key, v, t, retry, st). if retry then 1 else 0)") auto

declare sendCarbonMetric.simps [simp del]

text \<open>What \<open>Relay\<close> sends for a processed metric, in order.\<close>

definition quantile_sends :: "CarbonRelay \<Rightarrow> Metric \<Rightarrow> MetricQuantile \<Rightarrow> (string \<times> f64) list" where
  "quantile_sends c metric q =
     (let qkey = itoa (qQuantile q)
      in [(ApplyPrefixAndSuffix c (Key metric @ ''.mean_'' @ qkey) NamespaceTypeTimer, qMean q),
          (ApplyPrefixAndSuffix c (Key metric @ ''.median_'' @ qkey) NamespaceTypeTimer, qMedian q),
          (ApplyPrefixAndSuffix c (Key metric @ ''.upper_'' @ qkey) NamespaceTypeTimer, qMax q),
          (ApplyPrefixAndSuffix c (Key metric @ ''.sum_'' @ qkey) NamespaceTypeTimer, qSum q)])"

definition carbon_sends :: "CarbonRelay \<Rightarrow> Metric \<Rightarrow> (string \<times> f64) list" where
  "carbon_sends c metric =
     (if MetricType metric = MetricTypeGauge then
        [(ApplyPrefixAndSuffix c (Key metric) NamespaceTypeGauge, LastValue metric)]
      else if MetricType metric = MetricTypeCounter then
        [(ApplyPrefixAndSuffix c (Key metric) NamespaceTypeRate, ValuesPerSecond metric),
         (ApplyPrefixAndSuffix c (Key metric) NamespaceTypeCounter, LastValue metric)]
      else if MetricType metric = MetricTypeSet then
        [(ApplyPrefixAndSuffix c (Key metric) NamespaceTypeSet, LastValue metric)]
      else if MetricType metric = MetricTypeTimer then
        [(ApplyPrefixAndSuffix c (Key metric) NamespaceTypeRate, ValuesPerSecond metric),
         (ApplyPrefixAndSuffix c (Key metric @ ''.mean_value'') NamespaceTypeTimer, MeanValue metric),
         (ApplyPrefixAndSuffix c (Key metric @ ''.median_value'') NamespaceTypeTimer, MedianValue metric),
         (ApplyPrefixAndSuffix c (Key metric @ ''.max_value'') NamespaceTypeTimer, MaxValue metric),
         (ApplyPrefixAndSuffix c (Key metric @ ''.min_value'') NamespaceTypeTimer, MinValue metric)]
        @ concat (map (quantile_sends c metric) (Quantiles metric))
      else [])"

text \<open>The sends one after the other; their results are ignored, a panic ends the call.\<close>

fun send_list :: "net_env \<Rightarrow> string \<Rightarrow> (string \<times> f64) list \<Rightarrow> backend \<Rightarrow> backend outcome" where
  "send_list env t [] st = Done st"
| "send_list env t ((key, v) # kvs) st =
     (case sendCarbonMetric env key v t True st of
        Done (_, st') \<Rightarrow> send_list env t kvs st'
      | Panicked p \<Rightarrow> Panicked p
      | Hung \<Rightarrow> Hung)"

definition index_panic :: string where
  "index_panic = ''runtime error: index out of range''"

definition CarbonRelay_Relay :: "net_env \<Rightarrow> CarbonRelay \<Rightarrow> Metric \<Rightarrow> backend \<Rightarrow> (bool \<times> backend) outcome" where
  "CarbonRelay_Relay env c metric st =
     (case ProcessMetric metric (FlushInterval c) (Percentile c) of
        None \<Rightarrow> Panicked index_panic
      | Some metric' \<Rightarrow>
          (case send_list env (itoa (FlushTime metric')) (carbon_sends c metric') st of
             Done st' \<Rightarrow> Done (True, st')
           | Panicked p \<Rightarrow> Panicked p
           | Hung \<Rightarrow> Hung))"

record MockRelay =
  mockFlushInterval :: duration
  mockPercentile :: "int list"

definition MockRelay_Relay :: "MockRelay \<Rightarrow> Metric \<Rightarrow> backend \<Rightarrow> (bool \<times> backend) outcome" where
  "MockRelay_Relay c metric st =
     (case ProcessMetric metric (mockFlushInterval c) (mockPercentile c) of
        None \<Rightarrow> Panicked index_panic
      | Some metric' \<Rightarrow> Done (True, st))"

subsection \<open>The interface and its factory\<close>

datatype MetricRelay = Carbon CarbonRelay | Mock MockRelay

fun Relay :: "net_env \<Rightarrow> MetricRelay \<Rightarrow> Metric \<Rightarrow> backend \<Rightarrow> (bool \<times> backend) outcome" where
  "Relay env (Carbon c) metric st = CarbonRelay_Relay env c metric st"
| "Relay env (Mock c) metric st = MockRelay_Relay c metric st"

text \<open>A mock relay has no pool.\<close>

definition CreateRelay :: "net_env \<Rightarrow> ConfigValues \<Rightarrow> net \<Rightarrow> (MetricRelay \<times> ConnectionPool option \<times> net) outcome" where
  "CreateRelay env config n =
     (if relayType (cfgRelay config) = RelayTypeCarbon then
        (let relay = SetPrefixesAndSuffixes
               \<lparr>FlushInterval = relayFlush (cfgRelay config), Percentile = statsPercentile config,
                Prefixes = Map.empty, Suffixes = Map.empty\<rparr> config;
             addr = carbonHost config @ '':'' @ itoa (carbonPort config)
         in case CreateConnectionPool env (relayConcurrency (cfgRelay config)) addr ConnPoolTypeTcp
                   (relayTimeout (cfgRelay config)) n of
              Done (pool, Some err, n') \<Rightarrow>
                Panicked (''Fatal error, could not create a connection pool to '' @ addr)
            | Done (pool, None, n') \<Rightarrow> Done (Carbon relay, Some pool, n')
            | Panicked p \<Rightarrow> Panicked p
            | Hung \<Rightarrow> Hung)
      else Done (Mock \<lparr>mockFlushInterval = relayFlush (cfgRelay config), mockPercentile = statsPercentile config\<rparr>,
                 None, n))"

end
