(* ===== verification/Pool_Facts.thy ===== *)
theory Pool_Facts
  imports Connection_Pool
begin

text \<open>
  The pool of \<open>statsgod/connectionpool.go\<close> is sound: its connections are distinct, open and
  dialled by it, it never holds more than its size, and the calls of a client that got a
  connection never block.  The locale \<open>conn_source\<close> is what the relay relies on.
\<close>

subsection \<open>Well-formed pools\<close>

definition live :: "net \<Rightarrow> conn \<Rightarrow> bool" where
  "live n c \<longleftrightarrow> (\<exists>i < dials n. c = Conn i \<and> i \<notin> set (closed n))"

definition idle :: "ConnectionPool \<Rightarrow> conn list" where
  "idle pool = chan_buf (Connections pool)"

definition pool_wf :: "ConnectionPool \<Rightarrow> net \<Rightarrow> bool" where
  "pool_wf pool n \<longleftrightarrow>
     0 \<le> Size pool \<and> chan_cap (Connections pool) = nat (Size pool) \<and>
     length (idle pool) \<le> nat (Size pool) \<and> distinct (idle pool) \<and>
     (\<forall>c \<in> set (idle pool). live n c) \<and> (\<forall>i \<in> set (closed n). i < dials n)"

text \<open>A connection in the hands of the client, and the free slot it will go back to.\<close>

definition checked_out :: "ConnectionPool \<Rightarrow> net \<Rightarrow> conn \<Rightarrow> bool" where
  "checked_out pool n c \<longleftrightarrow> live n c \<and> c \<notin> set (idle pool) \<and> length (idle pool) < nat (Size pool)"

lemmas pool_defs = pool_wf_def checked_out_def idle_def live_def

lemma pool_wf_same_net:
  "dials n' = dials n \<Longrightarrow> closed n' = closed n \<Longrightarrow>
    (pool_wf pool n' \<longleftrightarrow> pool_wf pool n) \<and> (checked_out pool n' c \<longleftrightarrow> checked_out pool n c)"
  by (simp add: pool_defs)

lemma conn_type_cases:
  "conn_type t = (if t \<in> {ConnPoolTypeTcp, ConnPoolTypeUnix} then conn_type t else None)"
  by (simp add: conn_type_def)

text \<open>Adding a connection: it fails without a free slot, for an unknown type or when the dial
  fails; else the new connection is last in the channel.\<close>

lemma CreateConnection_cases:
  assumes "pool_wf pool n"
  obtains (full) "length (idle pool) = nat (Size pool)"
      "CreateConnection env pool n = Done ((False, Some TooMany), pool, n)"
    | (unknown) "length (idle pool) < nat (Size pool)" "conn_type (Type pool) = None"
      "CreateConnection env pool n = Done ((False, Some UnknownConnType), pool, n)"
    | (refused) t where "length (idle pool) < nat (Size pool)" "conn_type (Type pool) = Some t"
      "\<not> dial_ok env (dials n) t (Addr pool)"
      "CreateConnection env pool n = Done ((False, Some DialFailed), pool\<lparr>ErrorCount := ErrorCount pool + 1\<rparr>,
        n\<lparr>dials := dials n + 1\<rparr>)"
    | (dialled) t where "length (idle pool) < nat (Size pool)" "conn_type (Type pool) = Some t"
      "dial_ok env (dials n) t (Addr pool)"
      "CreateConnection env pool n = Done ((True, None),
        pool\<lparr>Connections := (Connections pool)\<lparr>chan_buf := idle pool @ [Conn (dials n)]\<rparr>\<rparr>,
        n\<lparr>dials := dials n + 1, deadlines := deadlines n @ [(dials n, Timeout pool)]\<rparr>)"
proof -
  have sz: "int (length (chan_buf (Connections pool))) < Size pool \<longleftrightarrow> length (idle pool) < nat (Size pool)"
    by (auto simp: idle_def)
  have cap: "chan_cap (Connections pool) = nat (Size pool)" and le: "length (idle pool) \<le> nat (Size pool)"
    using assms by (auto simp: pool_wf_def)
  show ?thesis
  proof (cases "length (idle pool) < nat (Size pool)")
    case False
    with le show ?thesis by (intro full) (auto simp: CreateConnection_def sz)
  next
    case True
    then have send: "chan_send (Connections pool) x = Some ((Connections pool)\<lparr>chan_buf := idle pool @ [x]\<rparr>)" for x
      by (simp add: chan_send_def cap idle_def)
    show ?thesis
    proof (cases "conn_type (Type pool)")
      case None
      with True show ?thesis by (intro unknown) (auto simp: CreateConnection_def sz)
    next
      case (Some t)
      show ?thesis
      proof (cases "dial_ok env (dials n) t (Addr pool)")
        case ok: True
        show ?thesis by (rule dialled [OF True Some ok]) (simp add: CreateConnection_def sz True Some ok Let_def send)
      next
        case False
        show ?thesis by (rule refused [OF True Some False]) (simp add: CreateConnection_def sz True Some False Let_def)
      qed
    qed
  qed
qed

lemma live_dial: "live n c \<Longrightarrow> live (n\<lparr>dials := dials n + 1\<rparr>) c"
  by (auto simp: live_def)

lemma pool_wf_dial: "pool_wf pool n \<Longrightarrow> pool_wf (pool\<lparr>ErrorCount := e\<rparr>) (n\<lparr>dials := dials n + 1\<rparr>)"
  unfolding pool_wf_def by (auto simp: idle_def live_def less_Suc_eq)

lemma pool_wf_add:
  assumes "pool_wf pool n" "length (idle pool) < nat (Size pool)"
  shows "pool_wf (pool\<lparr>Connections := (Connections pool)\<lparr>chan_buf := idle pool @ [Conn (dials n)]\<rparr>\<rparr>)
    (n\<lparr>dials := dials n + 1, deadlines := ds\<rparr>)"
  using assms unfolding pool_wf_def by (auto simp: idle_def live_def less_Suc_eq)

text \<open>One attempt, in one statement: it returns, keeps the pool sound and adds one connection or none.\<close>

lemma CreateConnection_ok:
  assumes "pool_wf pool n"
  shows "\<exists>err pool' n'. CreateConnection env pool n = Done ((err = None, err), pool', n') \<and> pool_wf pool' n' \<and>
    Size pool' = Size pool \<and> Type pool' = Type pool \<and> Addr pool' = Addr pool \<and> Timeout pool' = Timeout pool \<and>
    wire n' = wire n \<and> writes n' = writes n \<and> gets n' = gets n \<and> closed n' = closed n \<and> dials n \<le> dials n' \<and>
    idle pool' = (if err = None then idle pool @ [Conn (dials n)] else idle pool) \<and>
    (err = None \<longleftrightarrow> length (idle pool) < nat (Size pool) \<and>
       (\<exists>t. conn_type (Type pool) = Some t \<and> dial_ok env (dials n) t (Addr pool)))"
  by (rule CreateConnection_cases [OF assms, of env])
    (use assms pool_wf_dial [OF assms] pool_wf_add [OF assms] in \<open>auto simp: idle_def\<close>)

subsection \<open>Creating a pool\<close>

text \<open>The failures among \<open>m\<close> dials that start with the k-th.\<close>

definition failed_dials :: "net_env \<Rightarrow> string \<Rightarrow> string \<Rightarrow> nat \<Rightarrow> nat \<Rightarrow> nat" where
  "failed_dials env t addr k m = length (filter (\<lambda>i. \<not> dial_ok env i t addr) [k ..< k + m])"

lemma failed_dials_Suc:
  "failed_dials env t addr k (Suc m) =
    (if dial_ok env k t addr then 0 else 1) + failed_dials env t addr (Suc k) m"
  by (simp add: failed_dials_def upt_conv_Cons del: upt_Suc)

lemma create_loop_ok:
  assumes "pool_wf pool n" "length (idle pool) + m \<le> nat (Size pool)" "conn_type (Type pool) = Some t"
  shows "\<exists>pool' n'. create_loop env m pool n ec =
      Done (ec + int (failed_dials env t (Addr pool) (dials n) m), pool', n') \<and> pool_wf pool' n' \<and>
    Size pool' = Size pool \<and> Type pool' = Type pool \<and> ErrorCount pool' = ErrorCount pool + int (failed_dials env t (Addr pool) (dials n) m) \<and>
    length (idle pool') + failed_dials env t (Addr pool) (dials n) m = length (idle pool) + m"
  using assms
proof (induction m arbitrary: pool n ec)
  case 0
  then show ?case by (simp add: failed_dials_def)
next
  case (Suc m)
  have room: "length (idle pool) < nat (Size pool)" using Suc.prems by simp
  show ?case
  proof (cases "dial_ok env (dials n) t (Addr pool)")
    case True
    let ?p = "pool\<lparr>Connections := (Connections pool)\<lparr>chan_buf := idle pool @ [Conn (dials n)]\<rparr>\<rparr>"
    let ?n = "n\<lparr>dials := dials n + 1, deadlines := deadlines n @ [(dials n, Timeout pool)]\<rparr>"
    have create: "CreateConnection env pool n = Done ((True, None), ?p, ?n)"
      by (rule CreateConnection_cases [OF Suc.prems(1), of env]) (use room Suc.prems True in auto)
    show ?thesis
      using Suc.IH [of ?p ?n ec] pool_wf_add [OF Suc.prems(1) room] Suc.prems True
      by (auto simp: create failed_dials_Suc idle_def)
  next
    case False
    let ?p = "pool\<lparr>ErrorCount := ErrorCount pool + 1\<rparr>"
    let ?n = "n\<lparr>dials := dials n + 1\<rparr>"
    have create: "CreateConnection env pool n = Done ((False, Some DialFailed), ?p, ?n)"
      by (rule CreateConnection_cases [OF Suc.prems(1), of env]) (use room Suc.prems False in auto)
    show ?thesis
      using Suc.IH [of ?p ?n "ec + 1"] pool_wf_dial [OF Suc.prems(1)] Suc.prems False
      by (auto simp: create failed_dials_Suc idle_def)
  qed
qed

lemma pool_wf_new:
  assumes "0 \<le> sz" "\<forall>i \<in> set (closed n). i < dials n"
  shows "pool_wf \<lparr>Size = sz, Connections = make_chan (nat sz), Addr = addr, Type = t, Timeout = tm, ErrorCount = 0\<rparr> n"
  using assms by (simp add: pool_wf_def idle_def)

lemma create_pool:
  assumes "0 \<le> sz" "conn_type ty = Some t" "\<forall>i \<in> set (closed n). i < dials n"
  shows "\<exists>pool n'. CreateConnectionPool env sz addr ty tm n =
      Done (pool, if failed_dials env t addr (dials n) (nat sz) = 0 then None
                  else Some (ConnectionsFailed (int (failed_dials env t addr (dials n) (nat sz)))), n') \<and>
    pool_wf pool n' \<and> Size pool = sz \<and> Type pool = ty \<and> ErrorCount pool = int (failed_dials env t addr (dials n) (nat sz)) \<and>
    length (idle pool) + failed_dials env t addr (dials n) (nat sz) = nat sz"
proof -
  let ?p = "\<lparr>Size = sz, Connections = make_chan (nat sz), Addr = addr, Type = ty, Timeout = tm, ErrorCount = 0\<rparr>"
  have "pool_wf ?p n" using assms by (intro pool_wf_new) auto
  from create_loop_ok [OF this, of "nat sz" t env 0] show ?thesis
    using assms by (auto simp: CreateConnectionPool_def idle_def)
qed

text \<open>
  Fact.  Creating a pool never blocks or panics for a size that is not negative: it holds
  one open connection per dial that succeeded, and the error, if any, counts the ones that did
  not.
\<close>
theorem CreateConnectionPool_fills:
  assumes "0 \<le> sz" "conn_type ty = Some t" "\<forall>i \<in> set (closed n). i < dials n"
  shows "\<exists>pool n'. CreateConnectionPool env sz addr ty tm n =
      Done (pool, if failed_dials env t addr (dials n) (nat sz) = 0 then None
                  else Some (ConnectionsFailed (int (failed_dials env t addr (dials n) (nat sz)))), n') \<and>
    pool_wf pool n' \<and> Size pool = sz \<and>
    length (idle pool) + failed_dials env t addr (dials n) (nat sz) = nat sz"
  using create_pool [OF assms, of env addr tm] by blast

definition new_net :: net where
  "new_net = \<lparr>dials = 0, writes = 0, gets = 0, wire = [], closed = [], deadlines = []\<rparr>"

theorem CreateConnectionPool_fills_witness:
  "\<exists>pool n'. CreateConnectionPool \<lparr>dial_ok = \<lambda>k _ _. k \<noteq> 1, write_fails = \<lambda>_. None, timer_first = \<lambda>_. False\<rparr>
      3 ''127.0.0.1:2003'' ConnPoolTypeTcp 30 new_net = Done (pool, Some (ConnectionsFailed 1), n') \<and>
    length (idle pool) = 2"
  using CreateConnectionPool_fills [of 3 ConnPoolTypeTcp "''tcp''" new_net
      "\<lparr>dial_ok = \<lambda>k _ _. k \<noteq> 1, write_fails = \<lambda>_. None, timer_first = \<lambda>_. False\<rparr>" "''127.0.0.1:2003''" 30]
  by (auto simp: conn_type_def new_net_def failed_dials_def upt_rec numeral_3_eq_3 numeral_2_eq_2)

subsection \<open>Getting and releasing\<close>

lemma GetConnection_cases:
  assumes "pool_wf pool n"
  obtains (timeout) "timer_first env (gets n) \<or> idle pool = []"
      "GetConnection env pool n = ((NilConn, Some ConnTimeout), pool, n\<lparr>gets := gets n + 1\<rparr>)"
    | (got) c cs where "\<not> timer_first env (gets n)" "idle pool = c # cs"
      "GetConnection env pool n = ((c, None), pool\<lparr>Connections := (Connections pool)\<lparr>chan_buf := cs\<rparr>\<rparr>,
        n\<lparr>gets := gets n + 1\<rparr>)"
proof (cases "timer_first env (gets n) \<or> idle pool = []")
  case True
  then show ?thesis by (intro timeout) (auto simp: GetConnection_def Let_def idle_def chan_recv_def)
next
  case False
  then obtain c cs where cs: "idle pool = c # cs" by (cases "idle pool") auto
  with False show ?thesis by (intro got [OF _ cs]) (auto simp: GetConnection_def Let_def idle_def chan_recv_def)
qed

lemma checked_out_got:
  assumes "pool_wf pool n" "idle pool = c # cs"
    and "pool' = pool\<lparr>Connections := (Connections pool)\<lparr>chan_buf := cs\<rparr>\<rparr>" "n' = n\<lparr>gets := g\<rparr>"
  shows "pool_wf pool' n' \<and> checked_out pool' n' c \<and> idle pool' = cs"
  using assms by (auto simp: pool_wf_def checked_out_def idle_def live_def)

lemma release_keep:
  assumes "pool_wf pool n" "checked_out pool n c"
  shows "\<exists>n' pool'. ReleaseConnection env pool c False n = Done ((True, None), pool', n') \<and> pool_wf pool' n' \<and>
    idle pool' = idle pool @ [c] \<and> Size pool' = Size pool \<and> Type pool' = Type pool \<and> Addr pool' = Addr pool \<and>
    Timeout pool' = Timeout pool \<and>
    wire n' = wire n \<and> dials n' = dials n \<and> writes n' = writes n \<and> gets n' = gets n \<and> closed n' = closed n"
proof -
  obtain i where i: "c = Conn i" "i < dials n" "i \<notin> set (closed n)"
    using assms(2) by (auto simp: checked_out_def live_def)
  have "chan_send (Connections pool) c = Some ((Connections pool)\<lparr>chan_buf := idle pool @ [c]\<rparr>)"
    using assms by (simp add: chan_send_def pool_wf_def checked_out_def idle_def)
  then show ?thesis
    using assms by (auto simp: ReleaseConnection_def i pool_wf_def checked_out_def idle_def live_def)
qed

lemma pool_wf_close:
  assumes "pool_wf pool n" "checked_out pool n (Conn i)"
  shows "pool_wf pool (n\<lparr>closed := closed n @ [i]\<rparr>)"
  using assms by (auto simp: pool_wf_def checked_out_def idle_def live_def)

lemma release_recreate:
  assumes "pool_wf pool n" "checked_out pool n (Conn i)"
  shows "\<exists>n' pool' err. ReleaseConnection env pool (Conn i) True n = Done ((err = None, err), pool', n') \<and>
    pool_wf pool' n' \<and>
    idle pool' = (if err = None then idle pool @ [Conn (dials n)] else idle pool) \<and>
    Size pool' = Size pool \<and> Type pool' = Type pool \<and> Addr pool' = Addr pool \<and> Timeout pool' = Timeout pool \<and>
    wire n' = wire n \<and> writes n' = writes n \<and> gets n' = gets n \<and> closed n' = closed n @ [i] \<and> dials n \<le> dials n' \<and>
    (err = None \<longleftrightarrow> (\<exists>t. conn_type (Type pool) = Some t \<and> dial_ok env (dials n) t (Addr pool)))"
proof -
  let ?n = "n\<lparr>closed := closed n @ [i]\<rparr>"
  have room: "length (idle pool) < nat (Size pool)" using assms(2) by (simp add: checked_out_def)
  obtain err pool' n' where c: "CreateConnection env pool ?n = Done ((err = None, err), pool', n')"
    "pool_wf pool' n'" "Size pool' = Size pool" "Type pool' = Type pool" "Addr pool' = Addr pool"
    "Timeout pool' = Timeout pool" "wire n' = wire n" "writes n' = writes n" "gets n' = gets n"
    "closed n' = closed n @ [i]" "dials n \<le> dials n'"
    "idle pool' = (if err = None then idle pool @ [Conn (dials n)] else idle pool)"
    "err = None \<longleftrightarrow> (\<exists>t. conn_type (Type pool) = Some t \<and> dial_ok env (dials n) t (Addr pool))"
    using CreateConnection_ok [OF pool_wf_close [OF assms], of env] room by (fastforce simp del: not_None_eq)
  show ?thesis using c by (cases err) (auto simp: ReleaseConnection_def)
qed

subsection \<open>The pool as the relay sees it\<close>

text \<open>
  The contract: a connection that was got is held by the caller alone and left the front of
  the idle ones; giving it back, or replacing it, always returns, and only a replacement can
  lose the slot.
\<close>

locale conn_source =
  fixes get :: "'s \<Rightarrow> 'c option \<times> 's" and release :: "'s \<Rightarrow> 'c \<Rightarrow> bool \<Rightarrow> (bool \<times> 's) outcome"
    and ok :: "'s \<Rightarrow> bool" and free :: "'s \<Rightarrow> 'c list" and held :: "'s \<Rightarrow> 'c \<Rightarrow> bool"
  assumes get_held: "ok s \<Longrightarrow> get s = (Some c, s') \<Longrightarrow> ok s' \<and> held s' c \<and> free s = c # free s'"
    and get_timeout: "ok s \<Longrightarrow> get s = (None, s') \<Longrightarrow> ok s' \<and> free s' = free s"
    and release_same: "ok s \<Longrightarrow> held s c \<Longrightarrow> \<exists>s'. release s c False = Done (True, s') \<and> ok s' \<and> free s' = free s @ [c]"
    and release_new: "ok s \<Longrightarrow> held s c \<Longrightarrow>
      \<exists>done s'. release s c True = Done (done, s') \<and> ok s' \<and> (if done then \<exists>c'. free s' = free s @ [c'] else free s' = free s)"
begin

text \<open>A client step that leaves the pool alone between the two calls cannot grow the pool, and
  loses at most one connection.\<close>

lemma exchange:
  assumes "ok s" "get s = (Some c, s1)" "ok s2" "held s2 c" "free s2 = free s1"
  shows "\<exists>done s'. release s2 c recreate = Done (done, s') \<and> ok s' \<and>
    length (free s) \<le> Suc (length (free s')) \<and> length (free s') \<le> length (free s)"
proof -
  have len: "length (free s) = Suc (length (free s2))"
    using get_held [OF assms(1,2)] assms(5) by simp
  show ?thesis
  proof (cases recreate)
    case True
    then show ?thesis using release_new [OF assms(3,4)] len by (fastforce split: if_splits)
  next
    case False
    then show ?thesis using release_same [OF assms(3,4)] len by fastforce
  qed
qed

lemma healthy_exchange:
  assumes "ok s" "get s = (Some c, s1)" "ok s2" "held s2 c" "free s2 = free s1"
  shows "\<exists>s'. release s2 c False = Done (True, s') \<and> ok s' \<and> free s' = rotate1 (free s)"
  using release_same [OF assms(3,4)] get_held [OF assms(1,2)] assms(5) by auto

end

definition pool_get :: "net_env \<Rightarrow> ConnectionPool \<times> net \<Rightarrow> conn option \<times> ConnectionPool \<times> net" where
  "pool_get env st = (case st of (pool, n) \<Rightarrow>
     (case GetConnection env pool n of
        ((c, None), st') \<Rightarrow> (Some c, st')
      | ((c, Some err), st') \<Rightarrow> (None, st')))"

definition pool_release :: "net_env \<Rightarrow> ConnectionPool \<times> net \<Rightarrow> conn \<Rightarrow> bool \<Rightarrow> (bool \<times> ConnectionPool \<times> net) outcome" where
  "pool_release env st c recreate = (case st of (pool, n) \<Rightarrow>
     (case ReleaseConnection env pool c recreate n of
        Done ((done, err), st') \<Rightarrow> Done (done, st')
      | Panicked p \<Rightarrow> Panicked p
      | Hung \<Rightarrow> Hung))"

interpretation go_pool: conn_source "pool_get env" "pool_release env"
  "\<lambda>(pool, n). pool_wf pool n" "\<lambda>(pool, n). idle pool" "\<lambda>(pool, n). checked_out pool n" for env
proof (unfold_locales, goal_cases)
  case (1 s c s')
  obtain pool n where s: "s = (pool, n)" by (cases s)
  with 1 have wf: "pool_wf pool n" by simp
  show ?case
  proof (rule GetConnection_cases [OF wf, of env])
    fix c' cs
    assume "\<not> timer_first env (gets n)" "idle pool = c' # cs"
      "GetConnection env pool n = ((c', None), pool\<lparr>Connections := (Connections pool)\<lparr>chan_buf := cs\<rparr>\<rparr>,
        n\<lparr>gets := gets n + 1\<rparr>)"
    then show ?case using 1 s checked_out_got [OF wf \<open>idle pool = c' # cs\<close> refl refl, of "gets n + 1"]
      by (auto simp: pool_get_def)
  qed (use 1 s in \<open>simp_all add: pool_get_def\<close>)
next
  case (2 s s')
  obtain pool n where s: "s = (pool, n)" by (cases s)
  with 2 have wf: "pool_wf pool n" by simp
  show ?case
    by (rule GetConnection_cases [OF wf, of env])
      (use 2 s pool_wf_same_net [of "n\<lparr>gets := gets n + 1\<rparr>" n pool] in \<open>auto simp: pool_get_def\<close>)
next
  case (3 s c)
  obtain pool n where s: "s = (pool, n)" by (cases s)
  with 3 show ?case using release_keep [of pool n c env] by (auto simp: pool_release_def)
next
  case (4 s c)
  obtain pool n where s: "s = (pool, n)" by (cases s)
  obtain i where "c = Conn i" using 4 s by (auto simp: checked_out_def live_def)
  with 4 s show ?case using release_recreate [of pool n i env] by (auto simp: pool_release_def)
qed

text \<open>
  Fact.  Releasing after a successful get never blocks and never panics, with or without
  a replacement: the pool is sound afterwards, holds no more connections than before the get,
  and at most one fewer.
\<close>
theorem ReleaseConnection_returns:
  assumes "pool_wf pool n" "GetConnection env pool n = ((c, None), pool', n')"
  shows "\<exists>done err pool'' n''. ReleaseConnection env pool' c recreate n' = Done ((done, err), pool'', n'') \<and>
    pool_wf pool'' n'' \<and> length (idle pool) \<le> Suc (length (idle pool'')) \<and>
    length (idle pool'') \<le> length (idle pool)"
proof -
  have get: "pool_get env (pool, n) = (Some c, (pool', n'))" using assms(2) by (simp add: pool_get_def)
  have held: "pool_wf pool' n' \<and> checked_out pool' n' c"
    using go_pool.get_held [OF _ get] assms(1) by simp
  obtain fin st'' where r: "pool_release env (pool', n') c recreate = Done (fin, st'')"
    "case st'' of (pool'', n'') \<Rightarrow> pool_wf pool'' n'' \<and> length (idle pool) \<le> Suc (length (idle pool'')) \<and>
      length (idle pool'') \<le> length (idle pool)"
    using go_pool.exchange [OF _ get, of "(pool', n')" recreate] assms(1) held by auto
  then show ?thesis
    by (cases st'') (auto simp: pool_release_def split: outcome.splits prod.splits)
qed

definition steady :: net_env where
  "steady = \<lparr>dial_ok = \<lambda>_ _ _. True, write_fails = \<lambda>_. None, timer_first = \<lambda>_. False\<rparr>"

definition one_conn :: ConnectionPool where
  "one_conn = \<lparr>Size = 1, Connections = \<lparr>chan_buf = [Conn 0], chan_cap = 1\<rparr>, Addr = ''127.0.0.1:2003'',
     Type = ConnPoolTypeTcp, Timeout = 30, ErrorCount = 0\<rparr>"

lemma one_conn_wf: "pool_wf one_conn (new_net\<lparr>dials := 1\<rparr>)"
  by (simp add: pool_wf_def one_conn_def idle_def live_def new_net_def)

theorem ReleaseConnection_returns_witness:
  "case GetConnection steady one_conn (new_net\<lparr>dials := 1\<rparr>) of ((c, err), pool', n') \<Rightarrow>
     \<exists>done err pool'' n''. ReleaseConnection steady pool' c True n' = Done ((done, err), pool'', n'') \<and> pool_wf pool'' n''"
proof -
  obtain pool' n' where g: "GetConnection steady one_conn (new_net\<lparr>dials := 1\<rparr>) = ((Conn 0, None), pool', n')"
    by (simp add: GetConnection_def steady_def one_conn_def chan_recv_def new_net_def)
  from ReleaseConnection_returns [OF one_conn_wf g, of True] show ?thesis unfolding g by auto
qed

end
