(* ===== verification/Relay_Facts.thy ===== *)
theory Relay_Facts
  imports Relay Pool_Facts Processing_Facts
begin

text \<open>
  Sending to carbon, \<open>statsgod/relay.go\<close>: what one \<open>sendCarbonMetric\<close> does to the pool and the
  wire, when it panics, and what a whole \<open>Relay\<close> writes.
\<close>

subsection \<open>One attempt\<close>

text \<open>The fields of a pool that no operation changes.\<close>

definition same_pool :: "ConnectionPool \<Rightarrow> ConnectionPool \<Rightarrow> bool" where
  "same_pool p q \<longleftrightarrow> Size p = Size q \<and> Type p = Type q \<and> Addr p = Addr q \<and> Timeout p = Timeout q"

lemma same_pool_refl [simp]: "same_pool p p"
  by (simp add: same_pool_def)

lemma same_pool_trans: "same_pool p q \<Longrightarrow> same_pool q r \<Longrightarrow> same_pool p r"
  by (simp add: same_pool_def)

definition dial_works :: "net_env \<Rightarrow> ConnectionPool \<Rightarrow> nat \<Rightarrow> bool" where
  "dial_works env pool k \<longleftrightarrow> (\<exists>t. conn_type (Type pool) = Some t \<and> dial_ok env k t (Addr pool))"

lemma dial_works_same: "same_pool p q \<Longrightarrow> dial_works env p k = dial_works env q k"
  by (simp add: same_pool_def dial_works_def)

text \<open>The three ways an attempt ends.  Without a connection the code closes the \<open>NilConn\<close> it was
  given, which panics.\<close>

lemma attempt_timeout:
  assumes "pool_wf pool n" "timer_first env (gets n) \<or> idle pool = []"
  shows "carbon_attempt env key v t (pool, n) = Panicked NilConnPanicMsg"
proof (rule GetConnection_cases [OF assms(1), of env])
  assume "GetConnection env pool n = ((NilConn, Some ConnTimeout), pool, n\<lparr>gets := gets n + 1\<rparr>)"
  then show ?thesis by (simp add: carbon_attempt_def ReleaseConnection_def)
qed (use assms(2) in auto)

lemma attempt_sent:
  assumes "pool_wf pool n" "\<not> timer_first env (gets n)" "idle pool = c # cs" "write_fails env (writes n) = None"
  shows "\<exists>i pool' n'. c = Conn i \<and> carbon_attempt env key v t (pool, n) = Done (True, (pool', n')) \<and>
    pool_wf pool' n' \<and> same_pool pool' pool \<and> idle pool' = cs @ [Conn i] \<and>
    wire n' = wire n @ [(i, payload key v t)] \<and> dials n' = dials n \<and> closed n' = closed n \<and>
    gets n' = gets n + 1 \<and> writes n' = writes n + 1"
proof -
  let ?p = "pool\<lparr>Connections := (Connections pool)\<lparr>chan_buf := cs\<rparr>\<rparr>"
  let ?n = "n\<lparr>gets := gets n + 1\<rparr>"
  obtain i where i: "c = Conn i" using assms(1,3) by (auto simp: pool_wf_def live_def)
  have get: "GetConnection env pool n = ((c, None), ?p, ?n)"
    by (rule GetConnection_cases [OF assms(1), of env]) (use assms in auto)
  let ?m = "?n\<lparr>writes := writes n + 1, wire := wire n @ [(i, payload key v t)]\<rparr>"
  have out: "pool_wf ?p ?n \<and> checked_out ?p ?n c \<and> idle ?p = cs"
    using checked_out_got [OF assms(1,3) refl refl] .
  then have "pool_wf ?p ?m" "checked_out ?p ?m c"
    using pool_wf_same_net [of ?m ?n ?p c] by auto
  from release_keep [OF this, of env] obtain n' pool' where r:
    "ReleaseConnection env ?p c False ?m = Done ((True, None), pool', n')" "pool_wf pool' n'"
    "idle pool' = idle ?p @ [c]" "same_pool pool' pool" "wire n' = wire ?m" "dials n' = dials n"
    "writes n' = writes n + 1" "gets n' = gets n + 1" "closed n' = closed n"
    by (auto simp: same_pool_def)
  then show ?thesis using out assms(4) by (auto simp: carbon_attempt_def get i)
qed

lemma attempt_failed:
  assumes "pool_wf pool n" "\<not> timer_first env (gets n)" "idle pool = c # cs" "write_fails env (writes n) = Some k"
  shows "\<exists>i pool' n'. c = Conn i \<and> carbon_attempt env key v t (pool, n) = Done (False, (pool', n')) \<and>
    pool_wf pool' n' \<and> same_pool pool' pool \<and>
    idle pool' = cs @ (if dial_works env pool (dials n) then [Conn (dials n)] else []) \<and>
    wire n' = wire n @ [(i, take k (payload key v t))] \<and> closed n' = closed n @ [i] \<and>
    gets n' = gets n + 1 \<and> writes n' = writes n + 1 \<and> dials n \<le> dials n'"
proof -
  let ?p = "pool\<lparr>Connections := (Connections pool)\<lparr>chan_buf := cs\<rparr>\<rparr>"
  let ?n = "n\<lparr>gets := gets n + 1\<rparr>"
  obtain i where i: "c = Conn i" using assms(1,3) by (auto simp: pool_wf_def live_def)
  have get: "GetConnection env pool n = ((c, None), ?p, ?n)"
    by (rule GetConnection_cases [OF assms(1), of env]) (use assms in auto)
  let ?m = "?n\<lparr>writes := writes n + 1, wire := wire n @ [(i, take k (payload key v t))]\<rparr>"
  have out: "pool_wf ?p ?n \<and> checked_out ?p ?n c \<and> idle ?p = cs"
    using checked_out_got [OF assms(1,3) refl refl] .
  then have "pool_wf ?p ?m" "checked_out ?p ?m (Conn i)"
    using pool_wf_same_net [of ?m ?n ?p c] i by auto
  from release_recreate [OF this, of env] obtain n' pool' err where r:
    "ReleaseConnection env ?p (Conn i) True ?m = Done ((err = None, err), pool', n')" "pool_wf pool' n'"
    "idle pool' = (if err = None then idle ?p @ [Conn (dials n)] else idle ?p)"
    "same_pool pool' pool" "wire n' = wire ?m" "dials n \<le> dials n'"
    "writes n' = writes n + 1" "gets n' = gets n + 1" "closed n' = closed n @ [i]"
    "err = None \<longleftrightarrow> dial_works env pool (dials n)"
    by (auto simp: same_pool_def dial_works_def simp del: not_None_eq)
  then show ?thesis using out assms(4) by (auto simp: carbon_attempt_def get i simp del: not_None_eq)
qed

subsection \<open>Sending with the retry\<close>

text \<open>The attempt can be made: a connection is idle and the timer does not win.\<close>

definition ready :: "net_env \<Rightarrow> ConnectionPool \<Rightarrow> net \<Rightarrow> bool" where
  "ready env pool n \<longleftrightarrow> \<not> timer_first env (gets n) \<and> idle pool \<noteq> []"

lemma attempt_cases:
  assumes "pool_wf pool n"
  obtains (unready) "\<not> ready env pool n" "carbon_attempt env key v t (pool, n) = Panicked NilConnPanicMsg"
    | (sent) i pool' n' where "ready env pool n" "write_fails env (writes n) = None"
      "carbon_attempt env key v t (pool, n) = Done (True, (pool', n'))"
      "pool_wf pool' n'" "same_pool pool' pool" "idle pool' = rotate1 (idle pool)" "hd (idle pool) = Conn i"
      "wire n' = wire n @ [(i, payload key v t)]" "gets n' = gets n + 1" "writes n' = writes n + 1"
      "dials n' = dials n" "closed n' = closed n"
    | (failed) i k pool' n' where "ready env pool n" "write_fails env (writes n) = Some k"
      "carbon_attempt env key v t (pool, n) = Done (False, (pool', n'))"
      "pool_wf pool' n'" "same_pool pool' pool" "hd (idle pool) = Conn i"
      "idle pool' = tl (idle pool) @ (if dial_works env pool (dials n) then [Conn (dials n)] else [])"
      "wire n' = wire n @ [(i, take k (payload key v t))]" "gets n' = gets n + 1" "writes n' = writes n + 1"
      "closed n' = closed n @ [i]"
proof (cases "ready env pool n")
  case False
  then have "timer_first env (gets n) \<or> idle pool = []" by (simp add: ready_def)
  from attempt_timeout [OF assms this] show ?thesis by (rule unready [OF False])
next
  case True
  then obtain c cs where cs: "\<not> timer_first env (gets n)" "idle pool = c # cs"
    by (cases "idle pool") (auto simp: ready_def)
  show ?thesis
  proof (cases "write_fails env (writes n)")
    case None
    from attempt_sent [OF assms cs None, of key v t] show ?thesis
      using sent [OF True None] cs(2) by auto
  next
    case (Some k)
    from attempt_failed [OF assms cs Some, of key v t] show ?thesis
      using failed [OF True Some] cs(2) by (auto simp del: append_is_Nil_conv)
  qed
qed

text \<open>When the whole call fails for want of a connection.\<close>

definition send_panics :: "net_env \<Rightarrow> ConnectionPool \<Rightarrow> net \<Rightarrow> bool" where
  "send_panics env pool n \<longleftrightarrow>
     \<not> ready env pool n \<or>
     write_fails env (writes n) \<noteq> None \<and>
       (timer_first env (gets n + 1) \<or> length (idle pool) = 1 \<and> \<not> dial_works env pool (dials n))"

text \<open>
  What one send may have put on the wire: the beginning of the payload that a failed write delivered
  on a connection that is then closed, at most once, then the whole payload on an open connection;
  or two such beginnings.
\<close>

definition broken_off :: "net_env \<Rightarrow> string \<Rightarrow> net \<Rightarrow> nat \<times> string \<Rightarrow> bool" where
  "broken_off env msg n x \<longleftrightarrow> fst x \<in> set (closed n) \<and> (\<exists>j k. write_fails env j = Some k \<and> snd x = take k msg)"

definition sent_once :: "net_env \<Rightarrow> string \<Rightarrow> net \<Rightarrow> (nat \<times> string) list \<Rightarrow> bool" where
  "sent_once env msg n w \<longleftrightarrow>
     (\<exists>bs i. w = bs @ [(i, msg)] \<and> i \<notin> set (closed n) \<and> length bs \<le> 1 \<and> (\<forall>x \<in> set bs. broken_off env msg n x))"

definition failed_twice :: "net_env \<Rightarrow> string \<Rightarrow> net \<Rightarrow> (nat \<times> string) list \<Rightarrow> bool" where
  "failed_twice env msg n w \<longleftrightarrow> length w = 2 \<and> (\<forall>x \<in> set w. broken_off env msg n x)"

lemma sent_onceI:
  "i \<notin> set (closed n) \<Longrightarrow> sent_once env msg n [(i, msg)]"
  "i \<notin> set (closed n) \<Longrightarrow> broken_off env msg n x \<Longrightarrow> sent_once env msg n [x, (i, msg)]"
  unfolding sent_once_def by (rule exI [of _ "[]"], simp) (rule exI [of _ "[x]"], simp)

lemma ready_hd: "pool_wf pool n \<Longrightarrow> ready env pool n \<Longrightarrow> \<exists>i. hd (idle pool) = Conn i \<and> i \<notin> set (closed n)"
  by (cases "idle pool") (auto simp: ready_def pool_wf_def live_def)

lemma send_cases:
  assumes "pool_wf pool n"
  obtains (panics) "send_panics env pool n" "sendCarbonMetric env key v t True (pool, n) = Panicked NilConnPanicMsg"
    | (returns) sent pool' n' w where "\<not> send_panics env pool n"
      "sendCarbonMetric env key v t True (pool, n) = Done (sent, (pool', n'))"
      "pool_wf pool' n'" "same_pool pool' pool" "length (idle pool') \<le> length (idle pool)"
      "wire n' = wire n @ w" "if sent then sent_once env (payload key v t) n' w else failed_twice env (payload key v t) n' w"
      "sent \<longleftrightarrow> write_fails env (writes n) = None \<or> write_fails env (writes n + 1) = None"
      "write_fails env (writes n) = None \<longrightarrow> (\<exists>i. w = [(i, payload key v t)]) \<and>
         length (idle pool') = length (idle pool) \<and> gets n' = gets n + 1 \<and> writes n' = writes n + 1"
proof (rule attempt_cases [OF assms, of env key v t])
  assume "\<not> ready env pool n" "carbon_attempt env key v t (pool, n) = Panicked NilConnPanicMsg"
  then show ?thesis by (intro panics) (simp_all add: send_panics_def sendCarbonMetric.simps)
next
  fix i pool' n'
  assume a: "ready env pool n" "write_fails env (writes n) = None"
    "carbon_attempt env key v t (pool, n) = Done (True, (pool', n'))"
    "pool_wf pool' n'" "same_pool pool' pool" "idle pool' = rotate1 (idle pool)" "hd (idle pool) = Conn i"
    "wire n' = wire n @ [(i, payload key v t)]" "gets n' = gets n + 1" "writes n' = writes n + 1" "closed n' = closed n"
  have "i \<notin> set (closed n')" using ready_hd [OF assms a(1)] a(7,11) by auto
  then show ?thesis
    by (intro returns [of True pool' n' "[(i, payload key v t)]"])
      (use a in \<open>simp_all add: send_panics_def sendCarbonMetric.simps sent_onceI\<close>)
next
  fix i k pool1 n1
  assume a: "ready env pool n" "write_fails env (writes n) = Some k"
    "carbon_attempt env key v t (pool, n) = Done (False, (pool1, n1))"
    "pool_wf pool1 n1" "same_pool pool1 pool" "hd (idle pool) = Conn i"
    "idle pool1 = tl (idle pool) @ (if dial_works env pool (dials n) then [Conn (dials n)] else [])"
    "wire n1 = wire n @ [(i, take k (payload key v t))]" "gets n1 = gets n + 1" "writes n1 = writes n + 1"
    "closed n1 = closed n @ [i]"
  have step: "sendCarbonMetric env key v t True (pool, n) = sendCarbonMetric env key v t False (pool1, n1)"
    using a(3) by (simp add: sendCarbonMetric.simps [of env key v t True])
  have len: "length (idle pool1) \<le> length (idle pool)"
    using a(1,7) by (cases "idle pool") (auto simp: ready_def)
  have ready1: "ready env pool1 n1 \<longleftrightarrow> \<not> send_panics env pool n"
    using a(1,2,7,9) by (cases "idle pool") (auto simp: ready_def send_panics_def)
  show ?thesis
  proof (rule attempt_cases [OF a(4), of env key v t])
    assume "\<not> ready env pool1 n1" "carbon_attempt env key v t (pool1, n1) = Panicked NilConnPanicMsg"
    then show ?thesis using ready1 step by (intro panics) (simp_all add: sendCarbonMetric.simps)
  next
    fix j pool' n'
    assume b: "ready env pool1 n1" "write_fails env (writes n1) = None"
      "carbon_attempt env key v t (pool1, n1) = Done (True, (pool', n'))"
      "pool_wf pool' n'" "same_pool pool' pool1" "idle pool' = rotate1 (idle pool1)" "hd (idle pool1) = Conn j"
      "wire n' = wire n1 @ [(j, payload key v t)]" "closed n' = closed n1"
    have "j \<notin> set (closed n')" using ready_hd [OF a(4) b(1)] b(7,9) by auto
    moreover have "broken_off env (payload key v t) n' (i, take k (payload key v t))"
      using a(2,11) b(9) by (auto simp: broken_off_def)
    ultimately have "sent_once env (payload key v t) n' [(i, take k (payload key v t)), (j, payload key v t)]"
      by (rule sent_onceI)
    then show ?thesis
      by (intro returns [of True pool' n' "[(i, take k (payload key v t)), (j, payload key v t)]"])
        (use a(2,5,8,10) b len ready1 step in \<open>auto simp: sendCarbonMetric.simps intro: same_pool_trans\<close>)
  next
    fix j l pool' n'
    assume b: "ready env pool1 n1" "write_fails env (writes n1) = Some l"
      "carbon_attempt env key v t (pool1, n1) = Done (False, (pool', n'))"
      "pool_wf pool' n'" "same_pool pool' pool1" "hd (idle pool1) = Conn j"
      "idle pool' = tl (idle pool1) @ (if dial_works env pool1 (dials n1) then [Conn (dials n1)] else [])"
      "wire n' = wire n1 @ [(j, take l (payload key v t))]" "closed n' = closed n1 @ [j]"
    have "failed_twice env (payload key v t) n' [(i, take k (payload key v t)), (j, take l (payload key v t))]"
      using a(2,11) b(2,9) by (auto simp: failed_twice_def broken_off_def)
    moreover have "length (idle pool') \<le> length (idle pool)"
      using b(1,7) len by (cases "idle pool1") (auto simp: ready_def)
    ultimately show ?thesis
      by (intro returns [of False pool' n' "[(i, take k (payload key v t)), (j, take l (payload key v t))]"])
        (use a(2,5,8,10) b ready1 step in \<open>auto simp: sendCarbonMetric.simps intro: same_pool_trans\<close>)
  qed
qed

text \<open>
  Property C11.  When a send brings the process down: it never blocks, and it panics with the
  message of \<open>NilConn\<close> exactly when no connection can be had: the pool is empty or the timer
  wins, or the write failed and so did the way to a second connection.
\<close>
theorem sendCarbonMetric_panics_iff:
  assumes "pool_wf pool n"
  shows "sendCarbonMetric env key v t True (pool, n) \<noteq> Hung \<and>
    ((\<exists>p. sendCarbonMetric env key v t True (pool, n) = Panicked p) \<longleftrightarrow>
      timer_first env (gets n) \<or> idle pool = [] \<or>
      write_fails env (writes n) \<noteq> None \<and>
        (timer_first env (gets n + 1) \<or> length (idle pool) = 1 \<and> \<not> dial_works env pool (dials n))) \<and>
    sendCarbonMetric env key v t True (pool, n) \<in> range Done \<union> {Panicked NilConnPanicMsg}"
  by (rule send_cases [OF assms, of env key v t]) (auto simp: send_panics_def ready_def)

definition broken_pipe :: net_env where
  "broken_pipe = \<lparr>dial_ok = \<lambda>k _ _. k = 0, write_fails = \<lambda>_. Some 0, timer_first = \<lambda>_. False\<rparr>"

theorem sendCarbonMetric_panics_iff_witness:
  "\<exists>p. sendCarbonMetric broken_pipe ''a'' (Fin 1) ''0'' True (one_conn, new_net\<lparr>dials := 1\<rparr>) = Panicked p"
  using sendCarbonMetric_panics_iff [OF one_conn_wf, of broken_pipe "''a''" "Fin 1" "''0''"]
  by (auto simp: broken_pipe_def one_conn_def new_net_def dial_works_def idle_def)

lemma whole_once:
  assumes "if sent then sent_once env msg n w else failed_twice env msg n w" "\<And>j k. write_fails env j = Some k \<Longrightarrow> k < length msg"
  shows "length (filter (\<lambda>x. snd x = msg) w) = (if sent then 1 else 0) \<and> length w \<le> 2 \<and>
    (\<forall>x \<in> set w. snd x = msg \<and> fst x \<notin> set (closed n) \<or> (\<exists>k < length msg. snd x = take k msg) \<and> fst x \<in> set (closed n))"
proof -
  have part: "\<exists>k < length msg. snd x = take k msg" "fst x \<in> set (closed n)" if "broken_off env msg n x" for x
    using that assms(2) by (auto simp: broken_off_def)
  have other: "snd x \<noteq> msg" if b: "broken_off env msg n x" for x
  proof -
    obtain k where "k < length msg" "snd x = take k msg" using part(1) [OF b] by blast
    then have "length (snd x) < length msg" by simp
    then show ?thesis by auto
  qed
  then have none: "filter (\<lambda>x. snd x = msg) bs = []" if "\<forall>x \<in> set bs. broken_off env msg n x" for bs
    using that other by (simp add: filter_empty_conv)
  show ?thesis
  proof (cases sent)
    case True
    then obtain bs i where "w = bs @ [(i, msg)]" "i \<notin> set (closed n)" "length bs \<le> 1" "\<forall>x \<in> set bs. broken_off env msg n x"
      using assms(1) by (auto simp: sent_once_def)
    then show ?thesis using True none part by simp
  next
    case False
    then show ?thesis using assms(1) none [of w] part by (simp add: failed_twice_def)
  qed
qed

text \<open>
  Property C15.  What a send that returns has done, where a write that fails has not delivered the
  whole line: the whole line is on the wire exactly once if the send reports success, and never if
  it does not.  Anything else it has written is a proper beginning of the line on a connection that
  has been closed, at most two writes in all.  The pool stays sound and never grows, so a
  connection that could not be replaced is never made up for.
\<close>
theorem sendCarbonMetric_once:
  assumes "pool_wf pool n" "sendCarbonMetric env key v t True (pool, n) = Done (sent, (pool', n'))"
    and "\<And>j k. write_fails env j = Some k \<Longrightarrow> k < length (payload key v t)"
  shows "\<exists>w. wire n' = wire n @ w \<and>
    length (filter (\<lambda>x. snd x = payload key v t) w) = (if sent then 1 else 0) \<and> length w \<le> 2 \<and>
    (\<forall>x \<in> set w. snd x = payload key v t \<and> fst x \<notin> set (closed n') \<or>
       (\<exists>k < length (payload key v t). snd x = take k (payload key v t)) \<and> fst x \<in> set (closed n')) \<and>
    pool_wf pool' n' \<and> length (idle pool') \<le> length (idle pool)"
proof (rule send_cases [OF assms(1), of env key v t])
  assume "sendCarbonMetric env key v t True (pool, n) = Panicked NilConnPanicMsg"
  then show ?thesis using assms(2) by simp
next
  fix sent1 p1 n1 w
  assume r: "sendCarbonMetric env key v t True (pool, n) = Done (sent1, (p1, n1))" "pool_wf p1 n1"
    "length (idle p1) \<le> length (idle pool)" "wire n1 = wire n @ w"
    "if sent1 then sent_once env (payload key v t) n1 w else failed_twice env (payload key v t) n1 w"
  then have "sent1 = sent" "p1 = pool'" "n1 = n'" using assms(2) by simp_all
  then show ?thesis using whole_once [OF r(5) assms(3)] r(2-4) by (intro exI [of _ w]) simp
qed

text \<open>The first write breaks off after two bytes, the second one succeeds.\<close>

definition first_breaks :: net_env where
  "first_breaks = \<lparr>dial_ok = \<lambda>_ _ _. True, write_fails = \<lambda>j. if j = 0 then Some 2 else None, timer_first = \<lambda>_. False\<rparr>"

lemma send_steady:
  "sendCarbonMetric steady ''a'' (Fin 1) ''0'' True (one_conn, new_net\<lparr>dials := 1\<rparr>) \<noteq> Hung \<and>
   \<not> send_panics steady one_conn (new_net\<lparr>dials := 1\<rparr>)"
  by (rule send_cases [OF one_conn_wf, of steady "''a''" "Fin 1" "''0''"])
    (auto simp: send_panics_def ready_def steady_def one_conn_def idle_def)

theorem sendCarbonMetric_once_witness:
  "\<exists>pool' n'. sendCarbonMetric first_breaks ''a'' (Fin 1) ''0'' True (one_conn, new_net\<lparr>dials := 1\<rparr>) = Done (True, (pool', n')) \<and>
    length (filter (\<lambda>x. snd x = payload ''a'' (Fin 1) ''0'') (wire n')) = 1 \<and> length (wire n') \<le> 2"
proof -
  have "\<not> send_panics first_breaks one_conn (new_net\<lparr>dials := 1\<rparr>)"
    by (simp add: send_panics_def ready_def first_breaks_def one_conn_def new_net_def idle_def dial_works_def conn_type_def)
  then obtain sent pool' n' where r:
    "sendCarbonMetric first_breaks ''a'' (Fin 1) ''0'' True (one_conn, new_net\<lparr>dials := 1\<rparr>) = Done (sent, (pool', n'))" sent
    by (rule_tac send_cases [OF one_conn_wf, of first_breaks "''a''" "Fin 1" "''0''"]) (auto simp: first_breaks_def new_net_def)
  have "k < length (payload ''a'' (Fin 1) ''0'')" if "write_fails first_breaks j = Some k" for j k
    using that by (auto simp: first_breaks_def payload_def split: if_splits)
  from sendCarbonMetric_once [OF one_conn_wf r(1) this] r show ?thesis by (auto simp: new_net_def)
qed

subsection \<open>A whole metric\<close>

definition healthy :: "net_env \<Rightarrow> bool" where
  "healthy env \<longleftrightarrow> (\<forall>k. write_fails env k = None \<and> \<not> timer_first env k)"

text \<open>The lines of a metric.\<close>

definition lines_of :: "string \<Rightarrow> (string \<times> f64) list \<Rightarrow> string list" where
  "lines_of t kvs = map (\<lambda>(key, v). payload key v t) kvs"

lemma send_list_healthy:
  assumes "healthy env" "pool_wf pool n" "idle pool \<noteq> []"
  shows "\<exists>pool' n'. send_list env t kvs (pool, n) = Done (pool', n') \<and> pool_wf pool' n' \<and>
    length (idle pool') = length (idle pool) \<and> same_pool pool' pool \<and>
    map snd (wire n') = map snd (wire n) @ lines_of t kvs"
  using assms(2,3)
proof (induction kvs arbitrary: pool n)
  case (Cons kv kvs)
  obtain key v where kv: "kv = (key, v)" by (cases kv)
  obtain p1 n1 sent i where s: "sendCarbonMetric env key v t True (pool, n) = Done (sent, (p1, n1))"
    "pool_wf p1 n1" "length (idle p1) = length (idle pool)" "same_pool p1 pool" "wire n1 = wire n @ [(i, payload key v t)]"
    by (rule send_cases [OF Cons.prems(1), of env key v t])
      (use assms(1) Cons.prems in \<open>auto simp: healthy_def send_panics_def ready_def\<close>)
  from Cons.IH [OF s(2)] s(3) Cons.prems(2) obtain p2 n2 where
    "send_list env t kvs (p1, n1) = Done (p2, n2)" "pool_wf p2 n2" "length (idle p2) = length (idle p1)"
    "same_pool p2 p1" "map snd (wire n2) = map snd (wire n1) @ lines_of t kvs"
    by (metis length_0_conv)
  with s kv show ?case by (auto simp: lines_of_def intro: same_pool_trans)
qed (simp add: lines_of_def)

lemma send_list_returns:
  assumes "pool_wf pool n"
  shows "send_list env t kvs (pool, n) = Panicked NilConnPanicMsg \<or>
    (\<exists>pool' n'. send_list env t kvs (pool, n) = Done (pool', n') \<and> pool_wf pool' n' \<and> same_pool pool' pool \<and>
      length (idle pool') \<le> length (idle pool))"
  using assms
proof (induction kvs arbitrary: pool n)
  case (Cons kv kvs)
  obtain key v where kv: "kv = (key, v)" by (cases kv)
  show ?case
  proof (rule send_cases [OF Cons.prems, of env key v t])
    fix sent p1 n1 w
    assume s: "sendCarbonMetric env key v t True (pool, n) = Done (sent, (p1, n1))" "pool_wf p1 n1"
      "same_pool p1 pool" "length (idle p1) \<le> length (idle pool)"
    from Cons.IH [OF s(2)] s kv show ?thesis by (auto intro: same_pool_trans)
  qed (use kv in simp)
qed simp

lemma process_keeps_flush_time: "ProcessMetric m d qs = Some m' \<Longrightarrow> FlushTime m' = FlushTime m"
proof -
  have loop: "fold_option (\<lambda>q m. case quantile_of (AllValues m) q of None \<Rightarrow> None
      | Some quantile \<Rightarrow> Some (m\<lparr>Quantiles := Quantiles m @ [quantile]\<rparr>)) ks a = Some b \<Longrightarrow>
      FlushTime a = t \<Longrightarrow> FlushTime b = t" for ks a b t
    by (erule fold_option_invariant [where I = "\<lambda>m. FlushTime m = t"]) (auto split: option.splits)
  assume "ProcessMetric m d qs = Some m'"
  then show ?thesis
    by (auto simp: ProcessMetric_def process_timer_def Let_def split: if_splits option.splits prod.splits dest: loop)
qed

text \<open>Against a backend that takes every write the sends of a metric all arrive, in order.\<close>

lemma relay_writes:
  assumes "healthy env" "pool_wf pool n" "idle pool \<noteq> []"
    and "ProcessMetric metric (FlushInterval c) (Percentile c) = Some processed"
  shows "\<exists>pool' n'. CarbonRelay_Relay env c metric (pool, n) = Done (True, (pool', n')) \<and> pool_wf pool' n' \<and>
    length (idle pool') = length (idle pool) \<and>
    map snd (wire n') = map snd (wire n) @ lines_of (itoa (FlushTime metric)) (carbon_sends c processed)"
  using send_list_healthy [OF assms(1-3), of "itoa (FlushTime metric)" "carbon_sends c processed"] assms(4)
    process_keeps_flush_time [OF assms(4)]
  by (auto simp: CarbonRelay_Relay_def)

lemma process_gauge:
  "MetricType m = MetricTypeGauge \<Longrightarrow> \<exists>m'. ProcessMetric m d qs = Some m' \<and> MetricType m' = MetricTypeGauge"
  using process_panics_iff [of m d qs]
  by (cases "ProcessMetric m d qs") (auto simp: ProcessMetric_def Let_def metric_type_defs split: option.splits)

text \<open>
  Fact.  A backend outage brings the daemon down: with one idle connection left (the
  default concurrency is one), a failed write followed by a failed dial makes the relaying of
  any gauge panic, because the retry closes the \<open>NilConn\<close> that the empty pool handed out.
\<close>
theorem CarbonRelay_Relay_outage:
  assumes "pool_wf pool n" "length (idle pool) = 1" "write_fails env (writes n) \<noteq> None"
    and "\<not> dial_works env pool (dials n)" "MetricType metric = MetricTypeGauge"
  shows "CarbonRelay_Relay env c metric (pool, n) = Panicked NilConnPanicMsg"
proof -
  obtain m' where m': "ProcessMetric metric (FlushInterval c) (Percentile c) = Some m'" "MetricType m' = MetricTypeGauge"
    using process_gauge [OF assms(5)] by blast
  have p: "send_panics env pool n" using assms(2-4) by (simp add: send_panics_def)
  have "sendCarbonMetric env key v t True (pool, n) = Panicked NilConnPanicMsg" for key v t
    by (rule send_cases [OF assms(1), of env key v t]) (use p in auto)
  then show ?thesis using m' by (simp add: CarbonRelay_Relay_def carbon_sends_def)
qed

theorem CarbonRelay_Relay_outage_witness:
  "CarbonRelay_Relay broken_pipe \<lparr>FlushInterval = Second, Percentile = [80], Prefixes = Map.empty, Suffixes = Map.empty\<rparr>
     (CreateSimpleMetric ''a'' (Fin 1) MetricTypeGauge) (one_conn, new_net\<lparr>dials := 1\<rparr>) =
     Panicked NilConnPanicMsg"
  by (rule CarbonRelay_Relay_outage [OF one_conn_wf])
    (simp_all add: one_conn_def idle_def broken_pipe_def new_net_def dial_works_def CreateSimpleMetric_def)

end
