(* ===== verification/Relay_Names.thy ===== *)
theory Relay_Names
  imports Relay_Facts Parse_Loop
begin

text \<open>
  The names and lines that reach carbon: prefixes and suffixes are joined with dots, a metric is
  sent as the lines that its type asks for, and the line of a metric that came in over the wire
  always has its three fields.
\<close>

subsection \<open>Prefixes and suffixes\<close>

definition type_name :: "TypeNames \<Rightarrow> int \<Rightarrow> string" where
  "type_name names t = lookup_string (map_of (type_names names)) t"

definition namespace_types :: "int list" where
  "namespace_types =
     [NamespaceTypeCounter, NamespaceTypeGauge, NamespaceTypeRate, NamespaceTypeSet, NamespaceTypeTimer]"

lemma set_prefixes:
  assumes "t \<in> set namespace_types"
  shows "lookup_string (Prefixes (SetPrefixesAndSuffixes c config)) t =
      (let g = nsPrefix (cfgNamespace config); p = type_name (nsPrefixes (cfgNamespace config)) t in
       (if g = [] then [] else g @ ''.'') @ (if p = [] then [] else p @ ''.''))"
    and "lookup_string (Suffixes (SetPrefixesAndSuffixes c config)) t =
      (let g = nsSuffix (cfgNamespace config); p = type_name (nsSuffixes (cfgNamespace config)) t in
       (if p = [] then [] else ''.'' @ p) @ (if g = [] then [] else ''.'' @ g))"
  using assms
  by (auto simp: namespace_types_def SetPrefixesAndSuffixes_def type_names_def type_name_def namespace_type_defs
      lookup_string_def Let_def)

text \<open>
  Fact.  The name of a metric is its namespace between the configured parts: global
  prefix, type prefix, namespace, type suffix, global suffix, the empty ones left out, joined
  with single dots.
\<close>
theorem ApplyPrefixAndSuffix_dotted:
  assumes "t \<in> set namespace_types" "namespace \<noteq> []"
  shows "ApplyPrefixAndSuffix (SetPrefixesAndSuffixes c config) namespace t =
    join CHR ''.'' (filter (\<lambda>part. part \<noteq> [])
      [nsPrefix (cfgNamespace config), type_name (nsPrefixes (cfgNamespace config)) t, namespace,
       type_name (nsSuffixes (cfgNamespace config)) t, nsSuffix (cfgNamespace config)])"
  using assms(2) by (simp add: ApplyPrefixAndSuffix_def set_prefixes [OF assms(1)] Let_def)

theorem ApplyPrefixAndSuffix_dotted_witness:
  "ApplyPrefixAndSuffix (SetPrefixesAndSuffixes
     \<lparr>FlushInterval = 0, Percentile = [], Prefixes = Map.empty, Suffixes = Map.empty\<rparr> (load_defaults new_ConfigValues))
     ''a.b'' NamespaceTypeGauge = ''stats.gauges.a.b''"
  by (subst ApplyPrefixAndSuffix_dotted)
    (simp_all add: namespace_types_def load_defaults_def type_name_def type_names_def namespace_type_defs lookup_string_def)

subsection \<open>The lines of a metric\<close>







lemma type_name_of [simp]:
  "type_name names NamespaceTypeCounter = nsCounters names" "type_name names NamespaceTypeGauge = nsGauges names"
  "type_name names NamespaceTypeRate = nsRates names" "type_name names NamespaceTypeSet = nsSets names"
  "type_name names NamespaceTypeTimer = nsTimers names"
  by (simp_all add: type_name_def type_names_def namespace_type_defs lookup_string_def)










subsection \<open>Bytes of a parsed namespace\<close>

lemma encode_rune_low: "c \<in> set (encode_rune r) \<Longrightarrow> of_char c < (128::nat) \<Longrightarrow> of_char c = r"
  by (auto simp: encode_rune_def Let_def rune_error_def valid_rune_def surrogate_def split: if_splits)

lemma decode_rune_low: "fst (decode_rune c cs) < 128 \<Longrightarrow> fst (decode_rune c cs) = of_char c"
  by (auto simp: decode_rune_def Let_def rune_error_def split: if_splits list.splits)

lemma utf8_decode_low: "r \<in> set (utf8_decode s) \<Longrightarrow> r < 128 \<Longrightarrow> r \<in> of_char ` set s"
proof (induction s rule: utf8_decode.induct)
  case (2 c cs)
  obtain q w where qw: "decode_rune c cs = (q, w)" by (cases "decode_rune c cs")
  have "set (drop (w - 1) cs) \<subseteq> set cs" by (rule set_drop_subset)
  with 2 qw decode_rune_low [of c cs] show ?case by (auto simp: utf8_decode.simps(2))
qed simp

lemma hd_scan_segments:
  "r \<in> set (hd (scan_segments ds cur rs)) \<Longrightarrow> r \<in> set cur \<or> r \<in> set rs \<and> \<not> blank r"
  by (induction ds cur rs rule: scan_segments.induct) (auto simp: blank_def split: if_splits)

lemma scan_segments_not_Nil: "scan_segments ds cur rs \<noteq> []"
  by (induction ds cur rs rule: scan_segments.induct) auto

lemma parsed_key:
  assumes "ParseMetricString msg = Some (m, None)"
  shows "\<exists>ks. Key m = utf8_encode ks \<and> (\<forall>r \<in> set ks. r \<in> set (utf8_decode msg) \<and> \<not> blank r)"
proof -
  let ?L = "scan_segments delimeters [] (utf8_decode msg)"
  have "Key m = utf8_encode (pad_segments ?L ! 0)"
    using assms by (auto simp: parse_refines parse_spec_def metric_of_segments_def Let_def split: if_splits)
  moreover have "pad_segments ?L ! 0 = hd ?L"
    using scan_segments_not_Nil [of delimeters "[]" "utf8_decode msg"]
    by (simp add: pad_segments_def nth_append hd_conv_nth)
  ultimately show ?thesis using hd_scan_segments by fastforce
qed

lemma parsed_key_bytes:
  assumes "ParseMetricString msg = Some (m, None)" "c \<in> set (Key m)" "of_char c < (128::nat)"
  shows "c \<in> set msg \<and> \<not> blank (of_char c)"
proof -
  obtain ks where ks: "Key m = utf8_encode ks" "\<forall>r \<in> set ks. r \<in> set (utf8_decode msg) \<and> \<not> blank r"
    using parsed_key [OF assms(1)] by blast
  then obtain r where r: "r \<in> set ks" "c \<in> set (encode_rune r)" using assms(2) by (auto simp: utf8_encode_def)
  have "of_char c = r" by (rule encode_rune_low [OF r(2) assms(3)])
  moreover have "r \<in> of_char ` set msg"
    using utf8_decode_low [of r msg] ks(2) r(1) assms(3) calculation by auto
  ultimately show ?thesis using ks(2) r(1) by auto
qed

subsection \<open>Lines\<close>

definition field_safe :: "string \<Rightarrow> bool" where
  "field_safe s \<longleftrightarrow> CHR '' '' \<notin> set s \<and> CHR 0x0A \<notin> set s"

lemma field_safe_simps [simp]:
  "field_safe []" "field_safe (s @ t) \<longleftrightarrow> field_safe s \<and> field_safe t"
  "field_safe (c # s) \<longleftrightarrow> c \<noteq> CHR '' '' \<and> c \<noteq> CHR 0x0A \<and> field_safe s"
  by (auto simp: field_safe_def)

lemma digits_safe: "\<forall>c \<in> set s. is_digit c \<Longrightarrow> field_safe s"
  by (auto simp: field_safe_def is_digit_def)

lemma FormatFloat32_safe: "field_safe (FormatFloat32 v)"
proof -
  have "field_safe (format_fixed neg n)" for neg n
    using digits_safe [OF nat_digits_all] by (auto simp: format_fixed_def pad_left_def field_safe_def)
  then show ?thesis by (cases "float32_of v") (auto simp: FormatFloat32_def)
qed

lemma itoa_safe: "field_safe (itoa i)"
  using digits_safe [OF nat_digits_all] by (simp add: itoa_def)

lemma payload_fields:
  assumes "field_safe key"
  shows "split_on CHR '' '' (butlast (payload key v (itoa t))) = [key, FormatFloat32 v, itoa t] \<and>
    payload key v (itoa t) = butlast (payload key v (itoa t)) @ [CHR 0x0A] \<and>
    CHR 0x0A \<notin> set (butlast (payload key v (itoa t)))"
  using assms FormatFloat32_safe [of v] itoa_safe [of t]
  by (simp add: payload_def butlast_append split_on_append_sep split_on_no_sep field_safe_def)

lemma parsed_key_safe:
  assumes "ParseMetricString msg = Some (m, None)" "CHR 0x0A \<notin> set msg"
  shows "field_safe (Key m)"
proof -
  have "CHR '' '' \<notin> set (Key m)" using parsed_key_bytes [OF assms(1), of "CHR '' ''"] by (auto simp: blank_def RuneSpace_def)
  moreover have "CHR 0x0A \<notin> set (Key m)" using parsed_key_bytes [OF assms(1), of "CHR 0x0A"] assms(2) by auto
  ultimately show ?thesis by (simp add: field_safe_def)
qed

text \<open>The names of a relay that add no blank or line end of their own.\<close>

definition names_safe :: "CarbonRelay \<Rightarrow> bool" where
  "names_safe c \<longleftrightarrow> (\<forall>t. field_safe (lookup_string (Prefixes c) t) \<and> field_safe (lookup_string (Suffixes c) t))"

lemma carbon_sends_safe:
  assumes "names_safe c" "field_safe (Key m)" "(key, v) \<in> set (carbon_sends c m)"
  shows "field_safe key"
  using assms itoa_safe
  by (auto simp: carbon_sends_def quantile_sends_def Let_def ApplyPrefixAndSuffix_def names_safe_def split: if_splits)

lemma merge_key [simp]: "Key (merge_metric e m) = Key e"
  by (simp add: merge_metric_def Let_def)

lemma process_keeps_key: "ProcessMetric m d qs = Some m' \<Longrightarrow> Key m' = Key m"
proof -
  have loop: "fold_option (\<lambda>q m. case quantile_of (AllValues m) q of None \<Rightarrow> None
      | Some quantile \<Rightarrow> Some (m\<lparr>Quantiles := Quantiles m @ [quantile]\<rparr>)) ks a = Some b \<Longrightarrow>
      Key a = t \<Longrightarrow> Key b = t" for ks a b t
    by (erule fold_option_invariant [where I = "\<lambda>m. Key m = t"]) (auto split: option.splits)
  assume "ProcessMetric m d qs = Some m'"
  then show ?thesis
    by (auto simp: ProcessMetric_def process_timer_def Let_def split: if_splits option.splits prod.splits dest: loop)
qed

text \<open>
  Property C37.  No client can break the carbon protocol: if a one-line message parses and its
  metric is processed, every line the relay makes of it consists of exactly three fields
  separated by single blanks, the name, the value and the time, and ends at its only line end,
  as long as the configured prefixes and suffixes have no blanks or line ends.
\<close>
theorem carbon_lines_well_formed:
  assumes "ParseMetricString msg = Some (m, None)" "CHR 0x0A \<notin> set msg" "names_safe c"
    and "ProcessMetric (m\<lparr>FlushTime := now\<rparr>) d qs = Some m'" "(key, v) \<in> set (carbon_sends c m')"
  shows "split_on CHR '' '' (butlast (payload key v (itoa now))) = [key, FormatFloat32 v, itoa now] \<and>
    payload key v (itoa now) = butlast (payload key v (itoa now)) @ [CHR 0x0A] \<and>
    CHR 0x0A \<notin> set (butlast (payload key v (itoa now)))"
proof -
  have "Key m' = Key m" using process_keeps_key [OF assms(4)] by simp
  then have "field_safe key"
    using carbon_sends_safe [OF assms(3) _ assms(5)] parsed_key_safe [OF assms(1,2)] by simp
  then show ?thesis by (rule payload_fields)
qed

lemma parse_plain: "parse_message AuthNone msg = Accepted m \<Longrightarrow> ParseMetricString msg = Some (m, None)"
  by (auto simp: parse_message_def split: prod.splits if_splits option.splits)

theorem carbon_lines_well_formed_witness:
  "\<exists>v. split_on CHR '' '' (butlast (payload ''a'' v (itoa 7))) = [''a'', FormatFloat32 v, itoa 7]"
proof -
  let ?c = "\<lparr>FlushInterval = Second, Percentile = [], Prefixes = Map.empty, Suffixes = Map.empty\<rparr>"
  let ?m = "parsed_metric ''a'' (Fin 2) MetricTypeGauge 1"
  obtain m' where m': "ProcessMetric (?m\<lparr>FlushTime := 7\<rparr>) Second [] = Some m'" "MetricType m' = MetricTypeGauge"
    using process_gauge [of "?m\<lparr>FlushTime := 7\<rparr>"] by (auto simp: parsed_metric_def)
  have "Key m' = ''a''" using process_keeps_key [OF m'(1)] by (simp add: parsed_metric_def)
  then have "(''a'', LastValue m') \<in> set (carbon_sends ?c m')"
    using m'(2) by (simp add: carbon_sends_def ApplyPrefixAndSuffix_def lookup_string_def)
  moreover have "names_safe ?c" by (simp add: names_safe_def lookup_string_def)
  ultimately show ?thesis
    using carbon_lines_well_formed [OF parse_plain [OF parse_plain_gauge] _ _ m'(1), of ?c "''a''" "LastValue m'"]
    by auto
qed

end
