(* ===== verification/Flush.thy ===== *)
theory Flush
  imports Relay Parse_Loop
begin

text \<open>
  The flush of \<open>statsgod/relay.go\<close>: \<open>RelayAllMetrics\<close>, the internal metrics, and the loop
  \<open>RelayMetrics\<close> one iteration at a time.  Go iterates over a map in any order: the order is an
  argument, a list of the keys.  The clock and the memory statistics are arguments too.
\<close>

subsection \<open>Relaying a store\<close>

text \<open>
  \<open>relay\<close> is the method of the \<open>MetricRelay\<close>; \<open>clock k\<close> is the Unix time read for the k-th
  metric of this flush.  An entry is deleted after it was relayed.
\<close>

fun relay_loop ::
  "(Metric \<Rightarrow> 's \<Rightarrow> (bool \<times> 's) outcome) \<Rightarrow> (nat \<Rightarrow> int) \<Rightarrow> nat \<Rightarrow> string list \<Rightarrow> metric_map \<Rightarrow> 's \<Rightarrow>
   (metric_map \<times> 's) outcome" where
  "relay_loop relay clock k [] metrics st = Done (metrics, st)"
| "relay_loop relay clock k (key # keys) metrics st =
     (case metrics key of
        None \<Rightarrow> relay_loop relay clock k keys metrics st
      | Some metric \<Rightarrow>
          (case relay (metric\<lparr>FlushTime := clock k\<rparr>) st of
             Done (_, st') \<Rightarrow> relay_loop relay clock (Suc k) keys (metrics(key := None)) st'
           | Panicked p \<Rightarrow> Panicked p
           | Hung \<Rightarrow> Hung))"

definition RelayAllMetrics ::
  "(Metric \<Rightarrow> 's \<Rightarrow> (bool \<times> 's) outcome) \<Rightarrow> (nat \<Rightarrow> int) \<Rightarrow> string list \<Rightarrow> metric_map \<Rightarrow> 's \<Rightarrow>
   (metric_map \<times> 's) outcome" where
  "RelayAllMetrics relay clock order metrics st = relay_loop relay clock 0 order metrics st"

text \<open>The orders a range over the map may take.\<close>

definition map_order :: "metric_map \<Rightarrow> string list \<Rightarrow> bool" where
  "map_order metrics order \<longleftrightarrow> distinct order \<and> set order = dom metrics"

subsection \<open>Internal metrics\<close>

definition Megabyte :: int where "Megabyte = 1048576"
definition Millisecond :: duration where "Millisecond = 1000000"

record mem_stats =
  HeapAlloc :: int
  Alloc :: int
  Sys :: int

definition put_metric :: "metric_map \<Rightarrow> Metric \<Rightarrow> metric_map" where
  "put_metric metrics m = metrics(Key m \<mapsto> m)"

definition PrepareRuntimeMetrics :: "metric_map \<Rightarrow> ConfigValues \<Rightarrow> mem_stats \<Rightarrow> metric_map" where
  "PrepareRuntimeMetrics metrics config memStats =
     (if dbgRelay (cfgDebug config) then
        (let ns = ''statsgod.'' @ svcHostname (cfgService config) @ ''.runtime.memory'';
             mb = float_of_int Megabyte;
             m1 = put_metric metrics (CreateSimpleMetric (ns @ ''.heapalloc'')
                    (float_of_int (HeapAlloc memStats) / mb) MetricTypeGauge);
             m2 = put_metric m1 (CreateSimpleMetric (ns @ ''.alloc'')
                    (float_of_int (Alloc memStats) / mb) MetricTypeGauge)
         in put_metric m2 (CreateSimpleMetric (ns @ ''.sys'')
              (float_of_int (Sys memStats) / mb) MetricTypeGauge))
      else metrics)"

definition PrepareFlushMetrics :: "metric_map \<Rightarrow> ConfigValues \<Rightarrow> int \<Rightarrow> int \<Rightarrow> int \<Rightarrow> metric_map" where
  "PrepareFlushMetrics metrics config flushStart flushStop flushCount =
     (if dbgRelay (cfgDebug config) then
        (let ns = ''statsgod.'' @ svcHostname (cfgService config) @ ''.flush'';
             durationValue = float_of_int (go_div (flushStop - flushStart) Millisecond);
             m1 = put_metric metrics (CreateSimpleMetric (ns @ ''.duration'') durationValue MetricTypeTimer)
         in put_metric m1 (CreateSimpleMetric (ns @ ''.count'') (float_of_int flushCount) MetricTypeGauge))
      else metrics)"

subsection \<open>One iteration of the loop\<close>

text \<open>What the two \<open>select\<close>s of an iteration see: a metric or the end of the waiting time, and a
  tick with all that the flush reads from its surroundings.\<close>

record flush_input =
  fiConfig :: ConfigValues  \<comment> \<open>the configuration at the tick; a reload may have changed it\<close>
  fiMem :: mem_stats
  fiOrder :: "string list"
  fiOrder2 :: "string list"
  fiClock :: "nat \<Rightarrow> int"
  fiClock2 :: "nat \<Rightarrow> int"
  fiStart :: int
  fiStop :: int

definition flush_cycle ::
  "(Metric \<Rightarrow> 's \<Rightarrow> (bool \<times> 's) outcome) \<Rightarrow> flush_input \<Rightarrow> metric_map \<Rightarrow> 's \<Rightarrow>
   (metric_map \<times> 's) outcome" where
  "flush_cycle relay inp metrics st =
     (let m1 = PrepareRuntimeMetrics metrics (fiConfig inp) (fiMem inp);
          flushCount = int (card (dom m1))
      in case RelayAllMetrics relay (fiClock inp) (fiOrder inp) m1 st of
           Done (m2, st2) \<Rightarrow>
             RelayAllMetrics relay (fiClock2 inp) (fiOrder2 inp)
               (PrepareFlushMetrics m2 (fiConfig inp) (fiStart inp) (fiStop inp) flushCount) st2
         | Panicked p \<Rightarrow> Panicked p
         | Hung \<Rightarrow> Hung)"

definition relay_iteration ::
  "(Metric \<Rightarrow> 's \<Rightarrow> (bool \<times> 's) outcome) \<Rightarrow> Metric option \<Rightarrow> flush_input option \<Rightarrow> metric_map \<Rightarrow> 's \<Rightarrow>
   (metric_map \<times> 's) outcome" where
  "relay_iteration relay received tick metrics st =
     (let m1 = (case received of Some metric \<Rightarrow> AggregateMetric metrics metric | None \<Rightarrow> metrics)
      in case tick of Some inp \<Rightarrow> flush_cycle relay inp m1 st | None \<Rightarrow> Done (m1, st))"

text \<open>The inputs of an iteration, and the loop from the empty store while the quit flag is unset.\<close>

type_synonym iteration_input = "Metric option \<times> flush_input option"

fun relay_metrics ::
  "(Metric \<Rightarrow> 's \<Rightarrow> (bool \<times> 's) outcome) \<Rightarrow> iteration_input list \<Rightarrow> metric_map \<Rightarrow> 's \<Rightarrow>
   (metric_map \<times> 's) outcome" where
  "relay_metrics relay [] metrics st = Done (metrics, st)"
| "relay_metrics relay ((received, tick) # inputs) metrics st =
     (case relay_iteration relay received tick metrics st of
        Done (metrics', st') \<Rightarrow> relay_metrics relay inputs metrics' st'
      | Panicked p \<Rightarrow> Panicked p
      | Hung \<Rightarrow> Hung)"

definition RelayMetrics ::
  "(Metric \<Rightarrow> 's \<Rightarrow> (bool \<times> 's) outcome) \<Rightarrow> iteration_input list \<Rightarrow> 's \<Rightarrow>
   (metric_map \<times> 's) outcome" where
  "RelayMetrics relay inputs st = relay_metrics relay inputs Map.empty st"

end
