(* ===== verification/Flush_Facts.thy ===== *)
theory Flush_Facts
  imports Flush Relay_Facts "HOL-Library.Multiset"
begin

text \<open>
  The relay loop of \<open>statsgod/relay.go\<close>: the contract of \<open>MetricRelay\<close> and what follows from it
  for the loop, and the conservation of samples between the relay channel, the store and the
  relay.
\<close>

subsection \<open>The contract of a relay\<close>

text \<open>A relay that returns answers true and keeps its backend sound, and it never blocks.\<close>

locale metric_relay =
  fixes relay :: "Metric \<Rightarrow> 's \<Rightarrow> (bool \<times> 's) outcome" and ok :: "'s \<Rightarrow> bool"
  assumes answers: "ok s \<Longrightarrow> relay m s = Done (b, s') \<Longrightarrow> b \<and> ok s'"
    and returns: "ok s \<Longrightarrow> relay m s \<noteq> Hung"
begin

lemma loop: "ok s \<Longrightarrow> relay_loop relay clock k keys metrics s \<noteq> Hung \<and>
    (relay_loop relay clock k keys metrics s = Done (metrics', s') \<longrightarrow> ok s')"
proof (induction keys arbitrary: k metrics s)
  case (Cons key keys)
  show ?case
  proof (cases "metrics key")
    case (Some m)
    then show ?thesis
      using Cons answers [of s "m\<lparr>FlushTime := clock k\<rparr>"] returns [of s "m\<lparr>FlushTime := clock k\<rparr>"]
      by (cases "relay (m\<lparr>FlushTime := clock k\<rparr>) s") auto
  qed (use Cons in simp)
qed auto

lemma cycle: "ok s \<Longrightarrow> flush_cycle relay inp metrics s \<noteq> Hung \<and>
    (flush_cycle relay inp metrics s = Done (metrics', s') \<longrightarrow> ok s')"
  using loop unfolding flush_cycle_def RelayAllMetrics_def Let_def
  by (auto split: outcome.splits) blast+

lemma iteration: "ok s \<Longrightarrow> relay_iteration relay received tick metrics s \<noteq> Hung \<and>
    (relay_iteration relay received tick metrics s = Done (metrics', s') \<longrightarrow> ok s')"
  using cycle by (auto simp: relay_iteration_def Let_def split: option.splits)

lemma run: "ok s \<Longrightarrow> relay_metrics relay inputs metrics s \<noteq> Hung \<and>
    (relay_metrics relay inputs metrics s = Done (metrics', s') \<longrightarrow> ok s')"
proof (induction inputs arbitrary: metrics s)
  case (Cons i inputs)
  obtain received tick where i: "i = (received, tick)" by (cases i)
  show ?case
    using Cons iteration [of s received tick metrics] i
    by (cases "relay_iteration relay received tick metrics s") auto
qed auto

end

lemma carbon_relay_contract:
  assumes "pool_wf pool n"
  shows "CarbonRelay_Relay env c m (pool, n) \<noteq> Hung \<and>
    (CarbonRelay_Relay env c m (pool, n) = Done (b, (pool', n')) \<longrightarrow> b \<and> pool_wf pool' n')"
proof (cases "ProcessMetric m (FlushInterval c) (Percentile c)")
  case (Some m')
  with send_list_returns [OF assms, of env "itoa (FlushTime m')" "carbon_sends c m'"]
  show ?thesis by (auto simp: CarbonRelay_Relay_def)
qed (simp add: CarbonRelay_Relay_def)

interpretation carbon: metric_relay "CarbonRelay_Relay env c" "\<lambda>(pool, n). pool_wf pool n" for env c
  by unfold_locales (use carbon_relay_contract in \<open>fastforce split: prod.splits\<close>)+

interpretation mock: metric_relay "MockRelay_Relay c" "\<lambda>st. True" for c
  by unfold_locales (auto simp: MockRelay_Relay_def split: option.splits)

interpretation any_relay: metric_relay "Relay env r" "\<lambda>(pool, n). pool_wf pool n" for env r
proof (cases r)
  case (Carbon c)
  then have "Relay env r = CarbonRelay_Relay env c" by (auto simp: fun_eq_iff)
  then show "metric_relay (Relay env r) (\<lambda>(pool, n). pool_wf pool n)"
    by (simp add: carbon.metric_relay_axioms)
next
  case (Mock c)
  then show "metric_relay (Relay env r) (\<lambda>(pool, n). pool_wf pool n)"
    by unfold_locales (auto simp: MockRelay_Relay_def split: option.splits)
qed

text \<open>
  Fact.  The relay goroutine never blocks on its backend, and the connection pool is
  sound after any sequence of metrics, ticks and backend faults that it survives.
\<close>
theorem RelayMetrics_sound:
  assumes "pool_wf pool n"
  shows "RelayMetrics (Relay env r) inputs (pool, n) \<noteq> Hung \<and>
    (case RelayMetrics (Relay env r) inputs (pool, n) of Done (metrics, pool', n') \<Rightarrow> pool_wf pool' n' | _ \<Rightarrow> True)"
  using any_relay.run [of "(pool, n)" env r inputs Map.empty] assms
  by (auto simp: RelayMetrics_def split: outcome.splits prod.splits)

theorem RelayMetrics_sound_witness:
  "RelayMetrics (Relay broken_pipe (Mock \<lparr>mockFlushInterval = 0, mockPercentile = []\<rparr>))
     [(Some (CreateSimpleMetric ''a'' (Fin 1) MetricTypeGauge), None)] (one_conn, new_net\<lparr>dials := 1\<rparr>) \<noteq> Hung"
  by (rule RelayMetrics_sound [OF one_conn_wf, THEN conjunct1])

subsection \<open>Relaying a store once\<close>

text \<open>The relay with a log of the metrics it was called with and returned from.\<close>

definition logged :: "(Metric \<Rightarrow> 's \<Rightarrow> (bool \<times> 's) outcome) \<Rightarrow> Metric \<Rightarrow> 's \<times> Metric list \<Rightarrow> (bool \<times> 's \<times> Metric list) outcome" where
  "logged relay m st = (case st of (s, seen) \<Rightarrow>
     (case relay m s of
        Done (b, s') \<Rightarrow> Done (b, (s', seen @ [m]))
      | Panicked p \<Rightarrow> Panicked p
      | Hung \<Rightarrow> Hung))"

lemma logged_apply [simp]:
  "logged relay m (s, seen) =
    (case relay m s of Done (b, s') \<Rightarrow> Done (b, (s', seen @ [m])) | Panicked p \<Rightarrow> Panicked p | Hung \<Rightarrow> Hung)"
  by (simp add: logged_def)

lemma relay_loop_log:
  assumes "relay_loop (logged relay) clock k keys metrics (s, seen) = Done (metrics', (s', seen'))"
    and "distinct keys" "set keys \<subseteq> dom metrics"
  shows "metrics' = metrics |` (- set keys) \<and>
    seen' = seen @ map2 (\<lambda>key i. the (metrics key)\<lparr>FlushTime := clock i\<rparr>) keys [k ..< k + length keys]"
  using assms
proof (induction keys arbitrary: k metrics s seen)
  case (Cons key keys)
  obtain m where m: "metrics key = Some m" using Cons.prems(3) by auto
  then obtain b s1 where r: "relay (m\<lparr>FlushTime := clock k\<rparr>) s = Done (b, s1)"
    "relay_loop (logged relay) clock (Suc k) keys (metrics(key := None)) (s1, seen @ [m\<lparr>FlushTime := clock k\<rparr>]) =
      Done (metrics', (s', seen'))"
    using Cons.prems(1) by (auto split: outcome.splits prod.splits)
  have sub: "set keys \<subseteq> dom (metrics(key := None))" using Cons.prems(2,3) by auto
  have same: "map2 (\<lambda>x i. the ((metrics(key := None)) x)\<lparr>FlushTime := clock i\<rparr>) keys is =
      map2 (\<lambda>x i. the (metrics x)\<lparr>FlushTime := clock i\<rparr>) keys is" for "is"
    using Cons.prems(2) by (intro map_cong refl) (auto dest: set_zip_leftD)
  have res: "metrics(key := None) |` (- set keys) = metrics |` (- set (key # keys))"
    using Cons.prems(2) by (auto simp: restrict_map_def fun_eq_iff)
  show ?case
    using Cons.IH [OF r(2) _ sub, unfolded same res] Cons.prems(2) m
    by (simp add: upt_conv_Cons del: upt_Suc)
qed (simp add: restrict_map_def)

text \<open>
  Property C32.  A flush that returns relays every metric of the store exactly once, in the order
  of the iteration, each with the time read for it, and leaves the store empty.
\<close>
theorem RelayAllMetrics_once:
  assumes "map_order metrics order"
    and "RelayAllMetrics (logged relay) clock order metrics (s, seen) = Done (metrics', (s', seen'))"
  shows "metrics' = Map.empty \<and>
    seen' = seen @ map2 (\<lambda>key i. the (metrics key)\<lparr>FlushTime := clock i\<rparr>) order [0 ..< length order]"
  using relay_loop_log [of relay clock 0 order metrics s seen metrics' s' seen'] assms
  by (auto simp: map_order_def RelayAllMetrics_def restrict_map_def fun_eq_iff)

theorem RelayAllMetrics_once_witness:
  "\<exists>m'. RelayAllMetrics (logged (MockRelay_Relay \<lparr>mockFlushInterval = 0, mockPercentile = []\<rparr>)) (\<lambda>_. 7) [''a'']
     [''a'' \<mapsto> CreateSimpleMetric ''a'' (Fin 1) MetricTypeGauge] ((one_conn, new_net), []) = Done (Map.empty, m')"
proof -
  let ?r = "MockRelay_Relay \<lparr>mockFlushInterval = 0, mockPercentile = []\<rparr>"
  let ?m = "CreateSimpleMetric ''a'' (Fin 1) MetricTypeGauge"
  obtain x where "ProcessMetric (?m\<lparr>FlushTime := 7\<rparr>) 0 [] = Some x"
    using process_gauge [of "?m\<lparr>FlushTime := 7\<rparr>"] by (auto simp: CreateSimpleMetric_def)
  then have run: "RelayAllMetrics (logged ?r) (\<lambda>_. 7) [''a''] [''a'' \<mapsto> ?m] ((one_conn, new_net), []) =
      Done ([''a'' \<mapsto> ?m](''a'' := None), ((one_conn, new_net), [?m\<lparr>FlushTime := 7\<rparr>]))"
    by (simp add: RelayAllMetrics_def MockRelay_Relay_def)
  have "map_order [''a'' \<mapsto> ?m] [''a'']" by (simp add: map_order_def)
  from RelayAllMetrics_once [OF this run] run show ?thesis by auto
qed

subsection \<open>Conservation of samples\<close>

definition sample_mset :: "Metric \<Rightarrow> (string \<times> f64) multiset" where
  "sample_mset m = image_mset (Pair (Key m)) (mset (AllValues m))"

definition store_mset :: "metric_map \<Rightarrow> (string \<times> f64) multiset" where
  "store_mset metrics = (\<Sum>k \<in> dom metrics. sample_mset (the (metrics k)))"

definition store_ok :: "metric_map \<Rightarrow> bool" where
  "store_ok metrics \<longleftrightarrow> finite (dom metrics) \<and> (\<forall>k m. metrics k = Some m \<longrightarrow> Key m = k)"

lemma store_mset_split:
  assumes "finite (dom metrics)" "metrics k = Some m"
  shows "store_mset metrics = store_mset (metrics(k := None)) + sample_mset m"
proof -
  have "(\<Sum>x \<in> dom metrics - {k}. sample_mset (the ((metrics(k := None)) x))) =
      (\<Sum>x \<in> dom metrics - {k}. sample_mset (the (metrics x)))"
    by (rule sum.cong) auto
  moreover have "(\<Sum>x \<in> dom metrics. sample_mset (the (metrics x))) =
      sample_mset (the (metrics k)) + (\<Sum>x \<in> dom metrics - {k}. sample_mset (the (metrics x)))"
    by (rule sum.remove [OF assms(1)]) (use assms(2) in auto)
  ultimately show ?thesis using assms(2) by (simp add: store_mset_def)
qed

lemma store_mset_put:
  assumes "finite (dom metrics)"
  shows "store_mset (metrics(k \<mapsto> m)) = store_mset (metrics(k := None)) + sample_mset m"
  using store_mset_split [of "metrics(k \<mapsto> m)" k m] assms by simp

lemma store_mset_aggregate:
  assumes "store_ok metrics" "AllValues m = [LastValue m]"
  shows "store_mset (AggregateMetric metrics m) = store_mset metrics + {#(Key m, LastValue m)#} \<and>
    store_ok (AggregateMetric metrics m)"
proof (cases "metrics (Key m)")
  case None
  then have "metrics(Key m := None) = metrics" by (simp add: fun_upd_idem_iff)
  then show ?thesis
    using None assms store_mset_put [of metrics "Key m" m]
    by (auto simp: AggregateMetric_def store_ok_def sample_mset_def)
next
  case (Some e)
  have "Key e = Key m" using assms(1) Some by (simp add: store_ok_def)
  moreover have "AllValues (merge_metric e m) = AllValues e @ [LastValue m]" "Key (merge_metric e m) = Key e"
    by (simp_all add: merge_metric_def Let_def)
  ultimately have "sample_mset (merge_metric e m) = sample_mset e + {#(Key m, LastValue m)#}"
    by (simp add: sample_mset_def)
  then show ?thesis
    using Some assms store_mset_put [of metrics "Key m" "merge_metric e m"] store_mset_split [of metrics "Key m" e]
      \<open>Key e = Key m\<close> \<open>Key (merge_metric e m) = Key e\<close>
    by (auto simp: AggregateMetric_def store_ok_def)
qed

lemma relay_loop_conserves:
  assumes "relay_loop (logged relay) clock k keys metrics (s, seen) = Done (metrics', (s', seen'))" "store_ok metrics"
  shows "store_mset metrics' + (\<Sum>m\<leftarrow>seen'. sample_mset m) = store_mset metrics + (\<Sum>m\<leftarrow>seen. sample_mset m) \<and>
    store_ok metrics'"
  using assms
proof (induction keys arbitrary: k metrics s seen)
  case (Cons key keys)
  show ?case
  proof (cases "metrics key")
    case None
    with Cons show ?thesis by simp
  next
    case (Some m)
    then obtain b s1 where r: "relay (m\<lparr>FlushTime := clock k\<rparr>) s = Done (b, s1)"
      "relay_loop (logged relay) clock (Suc k) keys (metrics(key := None)) (s1, seen @ [m\<lparr>FlushTime := clock k\<rparr>]) =
        Done (metrics', (s', seen'))"
      using Cons.prems(1) by (auto split: outcome.splits prod.splits)
    have "store_ok (metrics(key := None))" using Cons.prems(2) by (auto simp: store_ok_def)
    moreover have "sample_mset (m\<lparr>FlushTime := clock k\<rparr>) = sample_mset m" by (simp add: sample_mset_def)
    moreover have "store_mset metrics = store_mset (metrics(key := None)) + sample_mset m"
      using store_mset_split [of metrics key m] Some Cons.prems(2) by (simp add: store_ok_def)
    ultimately show ?thesis
      using Cons.IH [OF r(2)] by (simp only: map_append sum_list.append list.map sum_list.Cons sum_list.Nil ac_simps add_0_right add_0_left simp_thms)
  qed
qed simp

lemma run_conserves:
  assumes "relay_metrics (logged relay) inputs metrics (s, seen) = Done (metrics', (s', seen'))" "store_ok metrics"
    and "\<And>m tick. (Some m, tick) \<in> set inputs \<Longrightarrow> AllValues m = [LastValue m]"
    and "\<And>r inp. (r, Some inp) \<in> set inputs \<Longrightarrow> \<not> dbgRelay (cfgDebug (fiConfig inp))"
  shows "store_mset metrics' + (\<Sum>m\<leftarrow>seen'. sample_mset m) =
    store_mset metrics + (\<Sum>m\<leftarrow>seen. sample_mset m) +
    mset (map (\<lambda>m. (Key m, LastValue m)) (List.map_filter fst inputs))"
  using assms
proof (induction inputs arbitrary: metrics s seen)
  case (Cons i inputs)
  obtain received tick where i: "i = (received, tick)" by (cases i)
  define m1 where "m1 = (case received of Some m \<Rightarrow> AggregateMetric metrics m | None \<Rightarrow> metrics)"
  have m1: "store_ok m1" "store_mset m1 = store_mset metrics + mset (map (\<lambda>m. (Key m, LastValue m)) (List.map_filter fst [i]))"
    using store_mset_aggregate [OF Cons.prems(2)] Cons.prems(2) Cons.prems(3) i
    by (auto simp: m1_def List.map_filter_def split: option.splits)
  obtain m2 s2 seen2 where it: "relay_iteration (logged relay) received tick metrics (s, seen) = Done (m2, (s2, seen2))"
    and rest: "relay_metrics (logged relay) inputs m2 (s2, seen2) = Done (metrics', (s', seen'))"
    using Cons.prems(1) i by (auto split: outcome.splits prod.splits)
  have two: "store_mset m2 + (\<Sum>m\<leftarrow>seen2. sample_mset m) = store_mset m1 + (\<Sum>m\<leftarrow>seen. sample_mset m) \<and> store_ok m2"
  proof (cases tick)
    case None
    with it m1(1) show ?thesis by (simp add: relay_iteration_def m1_def)
  next
    case (Some inp)
    then have "\<not> dbgRelay (cfgDebug (fiConfig inp))" using Cons.prems(4) i by auto
    with it Some obtain m3 s3 seen3 where
      "relay_loop (logged relay) (fiClock inp) 0 (fiOrder inp) m1 (s, seen) = Done (m3, (s3, seen3))"
      "relay_loop (logged relay) (fiClock2 inp) 0 (fiOrder2 inp) m3 (s3, seen3) = Done (m2, (s2, seen2))"
      by (auto simp: relay_iteration_def m1_def [symmetric] flush_cycle_def RelayAllMetrics_def
          PrepareRuntimeMetrics_def PrepareFlushMetrics_def Let_def split: outcome.splits prod.splits)
    then show ?thesis using relay_loop_conserves m1(1) by metis
  qed
  have "store_mset metrics' + (\<Sum>m\<leftarrow>seen'. sample_mset m) =
      store_mset m2 + (\<Sum>m\<leftarrow>seen2. sample_mset m) +
      mset (map (\<lambda>m. (Key m, LastValue m)) (List.map_filter fst inputs))"
    by (rule Cons.IH [OF rest]) (use two Cons.prems(3,4) in auto)
  then show ?case using two m1(2) by (auto simp: List.map_filter_def ac_simps)
qed (simp add: List.map_filter_def)

text \<open>
  Property C7.  No sample is lost or counted twice between the relay channel and the backend:
  after any run of the loop that has not panicked, the samples in the store together with those
  of the metrics handed to the relay are exactly the samples received, per namespace, whatever
  the ticks and the order of each flush.  The internal metrics, which would add theirs, are off.
\<close>
theorem RelayMetrics_conserves_samples:
  assumes "RelayMetrics (logged relay) inputs (s, []) = Done (metrics, (s', seen))"
    and "\<And>m tick. (Some m, tick) \<in> set inputs \<Longrightarrow> AllValues m = [LastValue m]"
    and "\<And>r inp. (r, Some inp) \<in> set inputs \<Longrightarrow> \<not> dbgRelay (cfgDebug (fiConfig inp))"
  shows "store_mset metrics + (\<Sum>m\<leftarrow>seen. sample_mset m) =
    mset (map (\<lambda>m. (Key m, LastValue m)) (List.map_filter fst inputs))"
  using run_conserves [OF assms(1) [unfolded RelayMetrics_def] _ assms(2,3)]
  by (simp add: store_ok_def store_mset_def)

definition one_tick :: flush_input where
  "one_tick = \<lparr>fiConfig = new_ConfigValues, fiMem = \<lparr>HeapAlloc = 0, Alloc = 0, Sys = 0\<rparr>, fiOrder = [''a''], fiOrder2 = [],
     fiClock = \<lambda>_. 7, fiClock2 = \<lambda>_. 7, fiStart = 0, fiStop = 0\<rparr>"

theorem RelayMetrics_conserves_samples_witness:
  "\<exists>metrics s' seen. RelayMetrics (logged (MockRelay_Relay \<lparr>mockFlushInterval = 0, mockPercentile = []\<rparr>))
      [(Some (CreateSimpleMetric ''a'' (Fin 1) MetricTypeGauge), Some one_tick)] ((one_conn, new_net), []) =
        Done (metrics, (s', seen)) \<and>
    store_mset metrics + (\<Sum>m\<leftarrow>seen. sample_mset m) = {#(''a'', Fin 1)#}"
proof -
  let ?r = "MockRelay_Relay \<lparr>mockFlushInterval = 0, mockPercentile = []\<rparr>"
  let ?m = "CreateSimpleMetric ''a'' (Fin 1) MetricTypeGauge"
  have m: "Key ?m = ''a''" "AllValues ?m = [LastValue ?m]" "LastValue ?m = Fin 1"
    by (simp_all add: CreateSimpleMetric_def new_Metric_def)
  obtain x where "ProcessMetric (?m\<lparr>FlushTime := 7\<rparr>) 0 [] = Some x"
    using process_gauge [of "?m\<lparr>FlushTime := 7\<rparr>"] by (auto simp: CreateSimpleMetric_def)
  then have "\<exists>metrics s' seen. RelayMetrics (logged ?r) [(Some ?m, Some one_tick)] ((one_conn, new_net), []) =
      Done (metrics, (s', seen))"
    by (simp add: RelayMetrics_def relay_iteration_def flush_cycle_def one_tick_def RelayAllMetrics_def Let_def
        PrepareRuntimeMetrics_def PrepareFlushMetrics_def new_ConfigValues_def AggregateMetric_def m MockRelay_Relay_def)
  then obtain metrics s' seen where run: "RelayMetrics (logged ?r) [(Some ?m, Some one_tick)] ((one_conn, new_net), []) =
      Done (metrics, (s', seen))" by blast
  have "store_mset metrics + (\<Sum>m\<leftarrow>seen. sample_mset m) =
      mset (map (\<lambda>m. (Key m, LastValue m)) (List.map_filter fst [(Some ?m, Some one_tick)]))"
    by (rule RelayMetrics_conserves_samples [OF run]) (auto simp: m(2) one_tick_def new_ConfigValues_def)
  with run show ?thesis by (auto simp: m List.map_filter_def)
qed

end
