(* ===== verification/Socket.thy ===== *)
theory Socket
  imports Metric_Parse Connection_Pool Config
begin

text \<open>
  The sockets of \<open>statsgod/socket.go\<close>: the factory, opening and closing, and the readers that
  cut what clients send into messages.  A connection is the list of the chunks its reads return
  before the read that fails; a reader yields the messages it sends to the parse channel, in
  order.  What the operating system answers is an argument.
\<close>

subsection \<open>Readers\<close>

definition MinimumLengthMessage :: nat where "MinimumLengthMessage = 1"

definition readLength :: nat where "readLength = 512"

definition newline :: char where "newline = CHR 0x0A"

definition long_enough :: "string \<Rightarrow> bool" where
  "long_enough msg \<longleftrightarrow> length msg > MinimumLengthMessage"

text \<open>One read of \<open>readInput\<close>: the new overflow and the messages sent.\<close>

definition read_chunk :: "string \<Rightarrow> string \<Rightarrow> (string \<times> string list) option" where
  "read_chunk overflow buf =
     (if length buf > 0 then
        (let metrics = split_on newline (overflow @ buf)
         in if length buf = readLength then
              (case ParseMetricString (last metrics) of
                 None \<Rightarrow> None
               | Some (_, Some err) \<Rightarrow> Some (last metrics, filter long_enough (take (length metrics - 1) metrics))
               | Some (_, None) \<Rightarrow> Some ('''', filter long_enough (take (length metrics) metrics)))
            else Some ('''', filter long_enough (take (length metrics) metrics)))
      else Some (overflow, []))"

fun read_loop :: "string \<Rightarrow> string list \<Rightarrow> string list option" where
  "read_loop overflow [] = Some []"
| "read_loop overflow (buf # bufs) =
     (case read_chunk overflow buf of
        None \<Rightarrow> None
      | Some (overflow', msgs) \<Rightarrow> map_option (\<lambda>rest. msgs @ rest) (read_loop overflow' bufs))"

definition readInput :: "string list \<Rightarrow> string list option" where
  "readInput chunks = read_loop '''' chunks"

text \<open>One datagram; \<open>None\<close> is a read error.  A negative \<open>Maxpacket\<close> makes \<open>make\<close> panic; what
  does not fit into the buffer is cut off by the system.\<close>

definition readInputUdp :: "ConfigValues \<Rightarrow> string option \<Rightarrow> string list outcome" where
  "readInputUdp config datagram =
     (if udpMaxpacket (cfgUdp config) < 0 then Panicked ''makeslice: len out of range''
      else (case datagram of
              None \<Rightarrow> Done []
            | Some packet \<Rightarrow>
                (let buf = take (nat (udpMaxpacket (cfgUdp config))) packet
                 in if length buf > MinimumLengthMessage
                    then Done (filter long_enough (split_on newline buf)) else Done [])))"

subsection \<open>Sockets\<close>

definition SocketTypeUdp :: int where "SocketTypeUdp = 0"
definition SocketTypeTcp :: int where "SocketTypeTcp = 1"
definition SocketTypeUnix :: int where "SocketTypeUnix = 2"

text \<open>The three structs: an address and a listener, a handle of the system.\<close>

record sock =
  sockAddr :: string
  sockListener :: "nat option"

datatype Socket = SocketUdp sock | SocketTcp sock | SocketUnix sock

definition CreateSocket :: "int \<Rightarrow> string \<Rightarrow> Socket outcome" where
  "CreateSocket socketType addr =
     (let l = \<lparr>sockAddr = addr, sockListener = None\<rparr>
      in if socketType = SocketTypeUdp then Done (SocketUdp l)
         else if socketType = SocketTypeTcp then Done (SocketTcp l)
         else if socketType = SocketTypeUnix then Done (SocketUnix l)
         else Panicked ''Unknown socket type requested.'')"

fun sock_of :: "Socket \<Rightarrow> sock" where
  "sock_of (SocketUdp l) = l"
| "sock_of (SocketTcp l) = l"
| "sock_of (SocketUnix l) = l"

definition tcp_active :: "sock \<Rightarrow> bool" where
  "tcp_active l \<longleftrightarrow> sockListener l \<noteq> None"

definition udp_active :: "sock \<Rightarrow> bool" where
  "udp_active l \<longleftrightarrow> sockListener l \<noteq> None"

definition unix_active :: "sock \<Rightarrow> bool" where
  "unix_active l \<longleftrightarrow> sockListener l \<noteq> None"

fun SocketIsActive :: "Socket \<Rightarrow> bool" where
  "SocketIsActive (SocketTcp l) = tcp_active l"
| "SocketIsActive (SocketUdp l) = udp_active l"
| "SocketIsActive (SocketUnix l) = unix_active l"

lemma SocketIsActive_iff: "SocketIsActive s \<longleftrightarrow> sockListener (sock_of s) \<noteq> None"
  by (cases s) (simp_all add: tcp_active_def udp_active_def unix_active_def)

declare SocketIsActive.simps [simp del]

text \<open>The state of the operating system: the mask for new files, the socket files with the mask
  they were made under, the open listeners, and the handle the next listener gets.\<close>

record os_state =
  osUmask :: int
  osFiles :: "(string \<times> int) list"
  osOpen :: "nat list"
  osNext :: nat

text \<open>\<open>net.Listen\<close> and \<open>net.ListenUDP\<close>: the argument \<open>bind\<close> says whether the system grants
  the address.\<close>

definition net_listen :: "(string \<Rightarrow> string \<Rightarrow> bool) \<Rightarrow> string \<Rightarrow> string \<Rightarrow> os_state \<Rightarrow> (nat \<times> os_state) option" where
  "net_listen bind network addr os =
     (if bind network addr then
        Some (osNext os, os\<lparr>osNext := osNext os + 1, osOpen := osNext os # osOpen os,
          osFiles := (if network = ''unix'' then (addr, osUmask os) # osFiles os else osFiles os)\<rparr>)
      else None)"

text \<open>The part of each \<open>Listen\<close> up to its loop.\<close>

definition open_tcp :: "(string \<Rightarrow> string \<Rightarrow> bool) \<Rightarrow> sock \<Rightarrow> os_state \<Rightarrow> (sock \<times> os_state) outcome" where
  "open_tcp bind l os =
     (if sockAddr l = '''' then Panicked ''Could not establish a TCP socket. Address must be specified.''
      else case net_listen bind ''tcp'' (sockAddr l) os of
             None \<Rightarrow> Panicked ''Could not establish a TCP socket.''
           | Some (h, os') \<Rightarrow> Done (l\<lparr>sockListener := Some h\<rparr>, os'))"

definition open_udp :: "(string \<Rightarrow> string \<Rightarrow> bool) \<Rightarrow> sock \<Rightarrow> os_state \<Rightarrow> (sock \<times> os_state) outcome" where
  "open_udp bind l os =
     (if sockAddr l = '''' then Panicked ''Could not establish a UDP socket. Addr must be specified.''
      else case net_listen bind ''udp'' (sockAddr l) os of
             None \<Rightarrow> Panicked ''Could not establish a UDP socket.''
           | Some (h, os') \<Rightarrow> Done (l\<lparr>sockListener := Some h\<rparr>, os'))"

definition umask :: "int \<Rightarrow> os_state \<Rightarrow> int \<times> os_state" where
  "umask m os = (osUmask os, os\<lparr>osUmask := m\<rparr>)"

definition open_unix :: "(string \<Rightarrow> string \<Rightarrow> bool) \<Rightarrow> sock \<Rightarrow> os_state \<Rightarrow> (sock \<times> os_state) outcome" where
  "open_unix bind l os =
     (if sockAddr l = '''' then Panicked ''Could not establish a Unix socket. No sock file specified.''
      else (case umask 9 os of (oldMask, os1) \<Rightarrow>
              (case net_listen bind ''unix'' (sockAddr l) os1 of
                 None \<Rightarrow> Panicked ''Could not establish a Unix socket.''
               | Some (h, os2) \<Rightarrow> Done (l\<lparr>sockListener := Some h\<rparr>, snd (umask oldMask os2)))))"

fun open_socket :: "(string \<Rightarrow> string \<Rightarrow> bool) \<Rightarrow> Socket \<Rightarrow> os_state \<Rightarrow> (Socket \<times> os_state) outcome" where
  "open_socket bind (SocketTcp l) os =
     (case open_tcp bind l os of
        Done (l', os') \<Rightarrow> Done (SocketTcp l', os') | Panicked p \<Rightarrow> Panicked p | Hung \<Rightarrow> Hung)"
| "open_socket bind (SocketUdp l) os =
     (case open_udp bind l os of
        Done (l', os') \<Rightarrow> Done (SocketUdp l', os') | Panicked p \<Rightarrow> Panicked p | Hung \<Rightarrow> Hung)"
| "open_socket bind (SocketUnix l) os =
     (case open_unix bind l os of
        Done (l', os') \<Rightarrow> Done (SocketUnix l', os') | Panicked p \<Rightarrow> Panicked p | Hung \<Rightarrow> Hung)"

text \<open>
  The loop of \<open>Listen\<close> over what the system delivers.  For TCP and Unix sockets each accepted
  connection has its own reader, and the result has one list of messages per connection; a
  failed accept ends the loop.  The UDP loop never ends: it is run over any number of datagrams.
\<close>

fun accept_loop :: "string list option list \<Rightarrow> string list list option" where
  "accept_loop [] = Some []"
| "accept_loop (None # _) = Some []"
| "accept_loop (Some conn # rest) =
     (case readInput conn of
        None \<Rightarrow> None
      | Some msgs \<Rightarrow> map_option (\<lambda>msgss. msgs # msgss) (accept_loop rest))"

fun udp_loop :: "ConfigValues \<Rightarrow> string option list \<Rightarrow> string list outcome" where
  "udp_loop config [] = Done []"
| "udp_loop config (d # ds) =
     (case readInputUdp config d of
        Done msgs \<Rightarrow> (case udp_loop config ds of
                        Done msgs' \<Rightarrow> Done (msgs @ msgs') | Panicked p \<Rightarrow> Panicked p | Hung \<Rightarrow> Hung)
      | Panicked p \<Rightarrow> Panicked p
      | Hung \<Rightarrow> Hung)"

text \<open>The three \<open>Listen\<close> methods: opening, then the loop.  A panic in a reader ends the process.\<close>

definition SocketTcp_Listen ::
  "(string \<Rightarrow> string \<Rightarrow> bool) \<Rightarrow> sock \<Rightarrow> os_state \<Rightarrow> string list option list \<Rightarrow>
   (string list list \<times> sock \<times> os_state) outcome" where
  "SocketTcp_Listen bind l os conns =
     (case open_tcp bind l os of
        Done (l', os') \<Rightarrow>
          (case accept_loop conns of
             Some msgss \<Rightarrow> Done (msgss, l', os') | None \<Rightarrow> Panicked ''index out of range'')
      | Panicked p \<Rightarrow> Panicked p
      | Hung \<Rightarrow> Hung)"

definition SocketUnix_Listen ::
  "(string \<Rightarrow> string \<Rightarrow> bool) \<Rightarrow> sock \<Rightarrow> os_state \<Rightarrow> string list option list \<Rightarrow>
   (string list list \<times> sock \<times> os_state) outcome" where
  "SocketUnix_Listen bind l os conns =
     (case open_unix bind l os of
        Done (l', os') \<Rightarrow>
          (case accept_loop conns of
             Some msgss \<Rightarrow> Done (msgss, l', os') | None \<Rightarrow> Panicked ''index out of range'')
      | Panicked p \<Rightarrow> Panicked p
      | Hung \<Rightarrow> Hung)"

definition SocketUdp_Listen ::
  "(string \<Rightarrow> string \<Rightarrow> bool) \<Rightarrow> ConfigValues \<Rightarrow> sock \<Rightarrow> os_state \<Rightarrow> string option list \<Rightarrow>
   (string list \<times> sock \<times> os_state) outcome" where
  "SocketUdp_Listen bind config l os datagrams =
     (case open_udp bind l os of
        Done (l', os') \<Rightarrow>
          (case udp_loop config datagrams of
             Done msgs \<Rightarrow> Done (msgs, l', os') | Panicked p \<Rightarrow> Panicked p | Hung \<Rightarrow> Hung)
      | Panicked p \<Rightarrow> Panicked p
      | Hung \<Rightarrow> Hung)"

definition nil_listener_panic :: string where
  "nil_listener_panic = ''invalid memory address or nil pointer dereference''"

definition close_handle :: "nat \<Rightarrow> os_state \<Rightarrow> os_state" where
  "close_handle h os = os\<lparr>osOpen := removeAll h (osOpen os)\<rparr>"

text \<open>
  \<open>Close\<close>.  A nil \<open>net.Listener\<close> panics; what \<open>Close\<close> of a nil \<open>*net.UDPConn\<close> does is the
  argument \<open>nilUdp\<close>.  The deferred removal of the socket file happens in any case.
\<close>

definition close_tcp :: "sock \<Rightarrow> os_state \<Rightarrow> os_state outcome" where
  "close_tcp l os =
     (case sockListener l of None \<Rightarrow> Panicked nil_listener_panic | Some h \<Rightarrow> Done (close_handle h os))"

definition close_udp :: "(os_state \<Rightarrow> os_state outcome) \<Rightarrow> sock \<Rightarrow> os_state \<Rightarrow> os_state outcome" where
  "close_udp nilUdp l os =
     (case sockListener l of None \<Rightarrow> nilUdp os | Some h \<Rightarrow> Done (close_handle h os))"

definition remove_file :: "string \<Rightarrow> os_state \<Rightarrow> os_state" where
  "remove_file path os = os\<lparr>osFiles := filter (\<lambda>f. fst f \<noteq> path) (osFiles os)\<rparr>"

definition close_unix :: "sock \<Rightarrow> os_state \<Rightarrow> os_state outcome" where
  "close_unix l os =
     (case sockListener l of
        None \<Rightarrow> Panicked nil_listener_panic
      | Some h \<Rightarrow> Done (remove_file (sockAddr l) (close_handle h os)))"

fun Close_socket :: "(os_state \<Rightarrow> os_state outcome) \<Rightarrow> Socket \<Rightarrow> os_state \<Rightarrow> os_state outcome" where
  "Close_socket nilUdp (SocketTcp l) os = close_tcp l os"
| "Close_socket nilUdp (SocketUdp l) os = close_udp nilUdp l os"
| "Close_socket nilUdp (SocketUnix l) os = close_unix l os"

lemmas open_defs = open_tcp_def open_udp_def open_unix_def umask_def
lemmas close_defs = close_tcp_def close_udp_def close_unix_def remove_file_def close_handle_def

text \<open>\<open>name\<close> is the address of an open listener as the system spells it.\<close>

definition tcp_addr :: "(nat \<Rightarrow> string) \<Rightarrow> sock \<Rightarrow> string outcome" where
  "tcp_addr name l = (case sockListener l of None \<Rightarrow> Panicked nil_listener_panic | Some h \<Rightarrow> Done (name h))"

definition udp_addr :: "(nat \<Rightarrow> string) \<Rightarrow> sock \<Rightarrow> string outcome" where
  "udp_addr name l = (case sockListener l of None \<Rightarrow> Panicked nil_listener_panic | Some h \<Rightarrow> Done (name h))"

definition unix_addr :: "sock \<Rightarrow> string outcome" where
  "unix_addr l = Done (sockAddr l)"

fun GetAddr :: "(nat \<Rightarrow> string) \<Rightarrow> Socket \<Rightarrow> string outcome" where
  "GetAddr name (SocketTcp l) = tcp_addr name l"
| "GetAddr name (SocketUdp l) = udp_addr name l"
| "GetAddr name (SocketUnix l) = unix_addr l"

lemma GetAddr_active: "SocketIsActive s \<Longrightarrow> \<exists>addr. GetAddr name s = Done addr"
  by (cases s) (auto simp: SocketIsActive_iff tcp_addr_def udp_addr_def unix_addr_def)

text \<open>
  \<open>BlockForSocket\<close> over what its rounds see: whether the socket is active and the time passed
  after the sleep.  \<open>None\<close> is a call that is still polling.
\<close>

fun BlockForSocket :: "(bool \<times> duration) list \<Rightarrow> duration \<Rightarrow> bool option" where
  "BlockForSocket [] timeout = None"
| "BlockForSocket ((active, since) # rounds) timeout =
     (if active then Some True else if since > timeout then Some False else BlockForSocket rounds timeout)"

end
