(* ===== verification/Socket_Facts.thy ===== *)
theory Socket_Facts
  imports Socket Parse_Loop "HOL-Library.Sublist"
begin

text \<open>
  The readers of \<open>statsgod/socket.go\<close>: when the reads of a connection respect the lines, the
  messages are the lines; what holds for any reads; and how a read that ends inside a line
  breaks it.  Then opening and closing a socket, by the contract \<open>listening_socket\<close>.
\<close>

subsection \<open>Framing\<close>

definition tail_of :: "string \<Rightarrow> string" where
  "tail_of s = last (split_on newline s)"

definition unparsable :: "string \<Rightarrow> bool" where
  "unparsable msg \<longleftrightarrow> snd (parse_spec msg) \<noteq> None"

text \<open>The complete lines of a stream that are long enough to be sent.\<close>

definition whole_lines :: "string \<Rightarrow> string list" where
  "whole_lines s = filter long_enough (butlast (split_on newline s))"

text \<open>
  Reads that respect the lines: each one ends with a line end, or fills the buffer and leaves
  an unfinished line that does not parse by itself.  \<open>p\<close> is the stream read before.
\<close>

fun framed :: "string \<Rightarrow> string list \<Rightarrow> bool" where
  "framed p [] = True"
| "framed p (c # cs) =
     ((c = [] \<or> tail_of (p @ c) = [] \<or> length c = readLength \<and> unparsable (tail_of (p @ c))) \<and> framed (p @ c) cs)"

lemma split_append_tail: "split_on newline (s @ t) = butlast (split_on newline s) @ split_on newline (tail_of s @ t)"
  unfolding tail_of_def by (rule split_on_append)

lemma tail_of_append: "tail_of (s @ t) = tail_of (tail_of s @ t)"
  by (simp add: tail_of_def [of "s @ t"] tail_of_def [of "tail_of s @ t"] split_append_tail [of s t])

lemma whole_lines_append: "whole_lines (s @ t) = whole_lines s @ whole_lines (tail_of s @ t)"
  by (simp add: whole_lines_def split_append_tail [of s t] butlast_append)

lemma not_long_Nil [simp]: "\<not> long_enough []"
  by (simp add: long_enough_def)

lemma parse_status: "ParseMetricString msg = Some (fst (parse_spec msg), snd (parse_spec msg))"
  by (simp add: parse_refines)

lemma unparsable_Nil: "unparsable []"
  by (simp add: unparsable_def parse_spec_def metric_of_segments_def pad_segments_def)

text \<open>A read that respects the lines sends the lines it completes and keeps the unfinished one.\<close>

lemma read_chunk_framed:
  assumes "c = [] \<or> tail_of (ov @ c) = [] \<or> length c = readLength \<and> unparsable (tail_of (ov @ c))"
    and "tail_of ov = ov"
  shows "read_chunk ov c = Some (tail_of (ov @ c), whole_lines (ov @ c))"
proof (cases "c = []")
  case True
  have "whole_lines ov = []"
  proof -
    have "newline \<notin> set ov"
      using split_on_pieces [of ov newline ov] assms(2) split_on_not_Nil [of newline ov] unfolding tail_of_def
      by (metis last_in_set)
    then show ?thesis by (simp add: whole_lines_def split_on_no_sep)
  qed
  then show ?thesis using True assms(2) by (simp add: read_chunk_def)
next
  case False
  let ?ms = "split_on newline (ov @ c)"
  have ms: "?ms = butlast ?ms @ [tail_of (ov @ c)]" by (simp add: tail_of_def)
  have lines: "tail_of (ov @ c) = [] \<Longrightarrow> filter long_enough ?ms = whole_lines (ov @ c)"
    by (subst ms) (simp add: whole_lines_def)
  show ?thesis
  proof (cases "length c = readLength")
    case True
    then have "unparsable (tail_of (ov @ c))" using assms(1) False unparsable_Nil by auto
    then obtain err where "snd (parse_spec (last ?ms)) = Some err" by (auto simp: unparsable_def tail_of_def)
    then show ?thesis
      using True False
      by (simp add: read_chunk_def Let_def parse_status [of "last ?ms"] butlast_conv_take whole_lines_def
          tail_of_def readLength_def)
  next
    case short: False
    then have "tail_of (ov @ c) = []" using assms(1) False by auto
    then show ?thesis using short False lines by (simp add: read_chunk_def Let_def)
  qed
qed

lemma tail_of_idem [simp]: "tail_of (tail_of s) = tail_of s"
  using tail_of_append [of s "[]"] by simp

lemma read_loop_framed:
  "framed p cs \<Longrightarrow> \<exists>msgs. read_loop (tail_of p) cs = Some msgs \<and> whole_lines p @ msgs = whole_lines (p @ concat cs)"
proof (induction cs arbitrary: p)
  case (Cons c cs)
  have t: "tail_of (tail_of p @ c) = tail_of (p @ c)" by (rule tail_of_append [symmetric])
  have step: "read_chunk (tail_of p) c = Some (tail_of (p @ c), whole_lines (tail_of p @ c))"
    using read_chunk_framed [of c "tail_of p"] Cons.prems t by simp
  obtain msgs where msgs: "read_loop (tail_of (p @ c)) cs = Some msgs"
    "whole_lines (p @ c) @ msgs = whole_lines ((p @ c) @ concat cs)"
    using Cons.IH [of "p @ c"] Cons.prems by auto
  then show ?case using step by (simp add: whole_lines_append [of p c])
qed simp

lemma framing:
  assumes "framed [] chunks"
  shows "readInput chunks = Some (whole_lines (concat chunks))"
proof -
  have "tail_of [] = []" "whole_lines [] = []" by (simp_all add: tail_of_def whole_lines_def)
  then show ?thesis using read_loop_framed [OF assms] by (auto simp: readInput_def)
qed

text \<open>
  Property C13.  A TCP or Unix connection is cut into its lines: as long as every read ends with
  a line or fills the buffer inside a line that cannot be parsed yet, the messages are exactly
  the complete lines of the whole stream with at least two bytes, however many reads there were.
\<close>
theorem readInput_lines:
  assumes "framed [] chunks"
  shows "readInput chunks = Some (whole_lines (concat chunks))"
  using assms by (rule framing)

theorem readInput_lines_witness:
  "readInput [''a:1|c'' @ [newline], ''b:2|g'' @ [newline] @ ''c'' @ [newline]] = Some [''a:1|c'', ''b:2|g'']"
proof -
  have "framed [] [''a:1|c'' @ [newline], ''b:2|g'' @ [newline] @ ''c'' @ [newline]]"
    by (simp add: tail_of_def newline_def)
  from readInput_lines [OF this] show ?thesis
    by (simp add: whole_lines_def newline_def long_enough_def MinimumLengthMessage_def)
qed

text \<open>
  Fact.  TCP does not keep the reads on line ends, and a read that ends inside a line
  breaks it in two, although the buffer was not full: the sample rate of this counter, 0.1, is
  cut to 0 when the line arrives in two segments.
\<close>
theorem readInput_short_read:
  "readInput [''a:2|c|@0.1'' @ [newline]] = Some [''a:2|c|@0.1''] \<and>
   readInput [''a:2|c|@0'', ''.1'' @ [newline]] = Some [''a:2|c|@0'', ''.1'']"
  by (simp add: readInput_def read_chunk_def Let_def newline_def readLength_def long_enough_def MinimumLengthMessage_def)

subsection \<open>Any reads\<close>

lemma split_on_sublist: "w \<in> set (split_on d s) \<Longrightarrow> sublist w s"
proof (induction s arbitrary: w)
  case (Cons c s)
  show ?case
  proof (cases "c = d")
    case True
    with Cons show ?thesis by (auto intro: sublist_Cons_right [THEN iffD2])
  next
    case False
    obtain v vs where vs: "split_on d s = v # vs" using split_on_not_Nil by (metis neq_Nil_conv)
    have "prefix v s"
      using join_split_on [of d s] vs by (cases vs) auto
    moreover have "x \<in> set vs \<Longrightarrow> sublist x s" for x using Cons.IH [of x] vs by simp
    ultimately show ?thesis using Cons.prems False vs by (auto simp: sublist_Cons_right)
  qed
qed simp

lemma tail_of_suffix: "suffix (tail_of s) s"
proof -
  have "s = join newline (butlast (split_on newline s) @ [tail_of s])"
    using join_split_on [of newline s] by (simp add: tail_of_def)
  moreover have "suffix x (join d (ws @ [x]))" for x d ws
    by (induction d ws rule: join.induct) (auto simp: suffix_def intro: exI [of _ "w @ d # v" for w d v])
  ultimately show ?thesis by metis
qed

lemma read_chunk_result:
  "(c = [] \<and> read_chunk ov c = Some (ov, [])) \<or>
   (\<exists>ov' k. read_chunk ov c = Some (ov', filter long_enough (take k (split_on newline (ov @ c)))) \<and>
      (ov' = [] \<or> ov' = last (split_on newline (ov @ c))))"
proof (cases "c = []")
  case False
  let ?ms = "split_on newline (ov @ c)"
  obtain x where p: "ParseMetricString (last ?ms) = Some (fst (parse_spec (last ?ms)), x)"
    using parse_status by blast
  show ?thesis
  proof (cases "length c = readLength")
    case True
    show ?thesis
    proof (cases x)
      case None
      then have "read_chunk ov c = Some ('''', filter long_enough (take (length ?ms) ?ms))"
        using p True False by (simp add: read_chunk_def Let_def readLength_def)
      then show ?thesis by blast
    next
      case (Some err)
      then have "read_chunk ov c = Some (last ?ms, filter long_enough (take (length ?ms - 1) ?ms))"
        using p True False by (simp add: read_chunk_def Let_def readLength_def)
      then show ?thesis by blast
    qed
  next
    case short: False
    then have "read_chunk ov c = Some ('''', filter long_enough (take (length ?ms) ?ms))"
      using False by (simp add: read_chunk_def Let_def)
    then show ?thesis by blast
  qed
qed (simp add: read_chunk_def)

lemma piece_ok:
  "m \<in> set (filter long_enough (take k (split_on newline s))) \<Longrightarrow> sublist m s \<and> long_enough m \<and> newline \<notin> set m"
  using split_on_sublist [of m newline s] split_on_pieces [of m newline s] set_take_subset [of k "split_on newline s"]
  by auto

lemma read_chunk_pieces:
  "\<exists>ov' msgs. read_chunk ov c = Some (ov', msgs) \<and> suffix ov' (ov @ c) \<and>
    (\<forall>m \<in> set msgs. sublist m (ov @ c) \<and> long_enough m \<and> newline \<notin> set m)"
proof (cases "c = [] \<and> read_chunk ov c = Some (ov, [])")
  case False
  then obtain ov' k where r: "read_chunk ov c = Some (ov', filter long_enough (take k (split_on newline (ov @ c))))"
    "ov' = [] \<or> ov' = last (split_on newline (ov @ c))"
    using read_chunk_result [of c ov] by blast
  then have "suffix ov' (ov @ c)" using tail_of_suffix [of "ov @ c"] by (auto simp: tail_of_def)
  with r(1) show ?thesis using piece_ok [of _ k "ov @ c"] by blast
qed auto

lemma read_loop_pieces:
  "\<exists>msgs. read_loop ov cs = Some msgs \<and>
    (\<forall>m \<in> set msgs. sublist m (ov @ concat cs) \<and> long_enough m \<and> newline \<notin> set m)"
proof (induction cs arbitrary: ov)
  case (Cons c cs)
  obtain ov' msgs where s: "read_chunk ov c = Some (ov', msgs)" and p: "suffix ov' (ov @ c)"
    "\<forall>m \<in> set msgs. sublist m (ov @ c) \<and> long_enough m \<and> newline \<notin> set m"
    using read_chunk_pieces by blast
  obtain msgs' where r: "read_loop ov' cs = Some msgs'"
    "\<forall>m \<in> set msgs'. sublist m (ov' @ concat cs) \<and> long_enough m \<and> newline \<notin> set m"
    using Cons.IH [of ov'] by blast
  have "suffix (ov' @ concat cs) (ov @ concat (c # cs))" using p(1) by (auto simp: suffix_def)
  then have "sublist m (ov @ concat (c # cs))" if "m \<in> set msgs'" for m
    using r(2) that sublist_order.order.trans suffix_imp_sublist by blast
  moreover have "sublist m (ov @ concat (c # cs))" if "m \<in> set msgs" for m
    using p(2) that by (auto simp: sublist_append_rightI intro: sublist_order.order.trans [of m "ov @ c"])
  ultimately show ?case using s r p(2) by auto
qed simp

text \<open>
  Fact.  Whatever the reads, the reader of a connection does not panic, and everything it
  sends on is at least two bytes long, has no line end in it and is a contiguous piece of what
  the client wrote.
\<close>
theorem readInput_pieces:
  "\<exists>msgs. readInput chunks = Some msgs \<and>
    list_all (\<lambda>m. sublist m (concat chunks) \<and> 2 \<le> length m \<and> newline \<notin> set m) msgs"
  using read_loop_pieces [of "''''" chunks]
  by (auto simp: readInput_def list_all_iff long_enough_def MinimumLengthMessage_def Suc_le_eq numeral_2_eq_2)

lemma split_on_length: "w \<in> set (split_on d s) \<Longrightarrow> length w \<le> length s"
  using split_on_sublist [of w d s] by (auto simp: sublist_def)

text \<open>
  Fact.  A datagram no longer than \<open>udp.maxpacket\<close> becomes its lines of at least two
  bytes, the last one included even without a line end; of a longer one only the first
  \<open>maxpacket\<close> bytes count.
\<close>
theorem readInputUdp_lines:
  assumes "0 \<le> udpMaxpacket (cfgUdp config)"
  shows "readInputUdp config (Some packet) =
    Done (filter long_enough (split_on newline (take (nat (udpMaxpacket (cfgUdp config))) packet)))"
proof -
  let ?buf = "take (nat (udpMaxpacket (cfgUdp config))) packet"
  have "filter long_enough (split_on newline ?buf) = []" if "\<not> length ?buf > MinimumLengthMessage"
  proof -
    have "\<not> long_enough w" if "w \<in> set (split_on newline ?buf)" for w
      using split_on_length [OF that] \<open>\<not> length ?buf > MinimumLengthMessage\<close> by (auto simp: long_enough_def)
    then show ?thesis by (simp add: filter_empty_conv)
  qed
  then show ?thesis using assms by (auto simp: readInputUdp_def Let_def)
qed

theorem readInputUdp_lines_witness:
  "readInputUdp (load_defaults new_ConfigValues) (Some (''a:1|c'' @ [newline] @ ''b:2|g'')) = Done [''a:1|c'', ''b:2|g'']"
  by (subst readInputUdp_lines)
    (simp_all add: load_defaults_def newline_def long_enough_def MinimumLengthMessage_def)

subsection \<open>Opening and closing\<close>

text \<open>A socket that was opened is active, and an active socket can be closed.\<close>

locale listening_socket =
  fixes opn :: "'s \<Rightarrow> 'o \<Rightarrow> ('s \<times> 'o) outcome" and cls :: "'s \<Rightarrow> 'o \<Rightarrow> 'o outcome" and active :: "'s \<Rightarrow> bool"
  assumes open_active: "opn s os = Done (s', os') \<Longrightarrow> active s'"
    and close_active: "active s \<Longrightarrow> \<exists>os'. cls s os = Done os'"
begin

lemma open_then_close: "opn s os = Done (s', os') \<Longrightarrow> \<exists>os''. cls s' os' = Done os''"
  by (rule close_active [OF open_active])

end

interpretation any_socket: listening_socket "open_socket bind" "Close_socket nilUdp" SocketIsActive for bind nilUdp
proof unfold_locales
  fix s os s' os'
  assume "open_socket bind s os = Done (s', os')"
  then show "SocketIsActive s'"
    by (cases s) (auto simp: SocketIsActive_iff open_defs split: option.splits if_splits outcome.splits)
next
  fix s os
  assume "SocketIsActive s"
  then show "\<exists>os'. Close_socket nilUdp s os = Done os'" by (cases s) (auto simp: SocketIsActive_iff close_defs)
qed

lemma open_socket_os:
  "open_socket bind s os = Done (s', os') \<Longrightarrow>
    osUmask os' = osUmask os \<and> osOpen os' = osNext os # osOpen os \<and> sockListener (sock_of s') = Some (osNext os)"
  by (cases s) (auto simp: open_defs net_listen_def split: option.splits if_splits outcome.splits)

lemma close_socket_os:
  "sockListener (sock_of s) = Some h \<Longrightarrow> Close_socket nilUdp s os = Done os' \<Longrightarrow> osOpen os' = removeAll h (osOpen os)"
  by (cases s) (auto simp: close_defs)

text \<open>
  Fact.  A socket from the factory is not active; once it listens it is, the file mask of
  the process is what it was before (the Unix socket changes it in between), and closing it
  succeeds and closes exactly the listener it had opened.
\<close>
theorem Socket_lifecycle:
  assumes "CreateSocket ty addr = Done s" "open_socket bind s os = Done (s', os')" "osNext os \<notin> set (osOpen os)"
  shows "\<not> SocketIsActive s \<and> SocketIsActive s' \<and> osUmask os' = osUmask os \<and>
    (\<exists>os''. Close_socket nilUdp s' os' = Done os'' \<and> osOpen os'' = osOpen os)"
proof -
  obtain os'' where c: "Close_socket nilUdp s' os' = Done os''"
    using any_socket.open_then_close [OF assms(2)] by blast
  have "\<not> SocketIsActive s"
    using assms(1) by (auto simp: CreateSocket_def SocketIsActive_iff Let_def split: if_splits)
  then show ?thesis
    using c any_socket.open_active [OF assms(2)] open_socket_os [OF assms(2)] close_socket_os [OF _ c] assms(3)
    by (simp add: removeAll_id)
qed

theorem Socket_lifecycle_witness:
  "\<exists>s s' os' os''. CreateSocket SocketTypeUnix ''/tmp/s'' = Done s \<and>
     open_socket (\<lambda>_ _. True) s \<lparr>osUmask = 18, osFiles = [], osOpen = [], osNext = 0\<rparr> = Done (s', os') \<and>
     osUmask os' = 18 \<and> Close_socket Done s' os' = Done os'' \<and> osOpen os'' = []"
proof -
  let ?s = "SocketUnix \<lparr>sockAddr = ''/tmp/s'', sockListener = None\<rparr>"
  let ?os = "\<lparr>osUmask = 18, osFiles = [], osOpen = [], osNext = 0\<rparr>"
  have c: "CreateSocket SocketTypeUnix ''/tmp/s'' = Done ?s"
    by (simp add: CreateSocket_def Let_def SocketTypeUdp_def SocketTypeTcp_def SocketTypeUnix_def)
  have "\<exists>s' os'. open_socket (\<lambda>_ _. True) ?s ?os = Done (s', os')"
    by (simp add: open_defs net_listen_def)
  then obtain s' os' where o: "open_socket (\<lambda>_ _. True) ?s ?os = Done (s', os')" by blast
  from Socket_lifecycle [OF c o, of Done] c o show ?thesis by auto
qed

end
