(* ===== verification/Pool_Clients.thy ===== *)
theory Pool_Clients
  imports Relay_Facts "HOL-Library.Multiset"
begin

text \<open>
  One connection pool, many goroutines.  \<open>main\<close> starts \<open>relay.concurrency\<close> relay goroutines over
  one pool of that size, so the calls of \<open>statsgod/connectionpool.go\<close> that
  \<open>sendCarbonMetric\<close> makes interleave.  A client is where one goroutine is between two operations
  on the shared pool; every operation is one step, in any order of the clients.
\<close>

subsection \<open>Clients and steps\<close>

text \<open>
  Outside a send; with a connection and the write before it; giving the connection back;
  closing it to replace it; after the test of the pool size, before the dial; after a failed dial,
  with the value of the error counter that it has read; with the new connection and the send to
  the channel before it.
\<close>

datatype client = Free | Using conn | Returning conn | Replacing conn | Dialing | Counting int | Pushing conn

record pool_sys =
  sysPool :: ConnectionPool
  sysNet :: net
  sysClients :: "client list"
  sysCrashed :: bool

definition set_client :: "nat \<Rightarrow> client \<Rightarrow> pool_sys \<Rightarrow> pool_sys" where
  "set_client k c s = s\<lparr>sysClients := (sysClients s)[k := c]\<rparr>"

definition set_conns :: "conn chan \<Rightarrow> pool_sys \<Rightarrow> pool_sys" where
  "set_conns c s = s\<lparr>sysPool := (sysPool s)\<lparr>Connections := c\<rparr>\<rparr>"

text \<open>Client \<open>k\<close> is at \<open>c\<close> in a process that is still running.\<close>

definition client_at :: "pool_sys \<Rightarrow> nat \<Rightarrow> client \<Rightarrow> bool" where
  "client_at s k c \<longleftrightarrow> \<not> sysCrashed s \<and> k < length (sysClients s) \<and> sysClients s ! k = c"

datatype pool_event =
  Got | TimedOut | Wrote string bool | GaveBack | Closed bool | Dialed | DialRefused | Counted | UnknownType | Pushed

text \<open>
  \<open>pool.ErrorCount++\<close> of a failed dial is not guarded by a lock: it reads the counter (\<open>refused\<close>,
  together with the dial, whose own number is all that others see of it) and stores the value it
  read plus one in a later step (\<open>counted\<close>), so that a goroutine can overwrite what another one
  has counted in between.
\<close>

inductive pool_step :: "net_env \<Rightarrow> pool_sys \<Rightarrow> nat \<times> pool_event \<Rightarrow> pool_sys \<Rightarrow> bool" for env where
  got: "client_at s k Free \<Longrightarrow> \<not> timer_first env (gets (sysNet s)) \<Longrightarrow>
    chan_recv (Connections (sysPool s)) = Some (c, ch) \<Longrightarrow>
    pool_step env s (k, Got)
      (set_client k (Using c) (set_conns ch (s\<lparr>sysNet := (sysNet s)\<lparr>gets := gets (sysNet s) + 1\<rparr>\<rparr>)))"
| timed_out: "client_at s k Free \<Longrightarrow>
    timer_first env (gets (sysNet s)) \<or> chan_recv (Connections (sysPool s)) = None \<Longrightarrow>
    pool_step env s (k, TimedOut) (s\<lparr>sysCrashed := True\<rparr>)"
| wrote: "client_at s k (Using c) \<Longrightarrow> conn_write env c msg (sysNet s) = Done (ok, n) \<Longrightarrow>
    pool_step env s (k, Wrote msg ok)
      (set_client k (if ok then Returning c else Replacing c) (s\<lparr>sysNet := n\<rparr>))"
| gave_back: "client_at s k (Returning c) \<Longrightarrow> conn_set_deadline c (Timeout (sysPool s)) (sysNet s) = Done n \<Longrightarrow>
    chan_send (Connections (sysPool s)) c = Some ch \<Longrightarrow>
    pool_step env s (k, GaveBack) (set_client k Free (set_conns ch (s\<lparr>sysNet := n\<rparr>)))"
| closed_conn: "client_at s k (Replacing c) \<Longrightarrow> conn_close c (sysNet s) = Done n \<Longrightarrow>
    room = (int (length (chan_buf (Connections (sysPool s)))) < Size (sysPool s)) \<Longrightarrow>
    pool_step env s (k, Closed room) (set_client k (if room then Dialing else Free) (s\<lparr>sysNet := n\<rparr>))"
| dialed: "client_at s k Dialing \<Longrightarrow> conn_type (Type (sysPool s)) = Some t \<Longrightarrow>
    dial_ok env (dials (sysNet s)) t (Addr (sysPool s)) \<Longrightarrow> c = Conn (dials (sysNet s)) \<Longrightarrow>
    conn_set_deadline c (Timeout (sysPool s)) ((sysNet s)\<lparr>dials := dials (sysNet s) + 1\<rparr>) = Done n \<Longrightarrow>
    pool_step env s (k, Dialed) (set_client k (Pushing c) (s\<lparr>sysNet := n\<rparr>))"
| refused: "client_at s k Dialing \<Longrightarrow> conn_type (Type (sysPool s)) = Some t \<Longrightarrow>
    \<not> dial_ok env (dials (sysNet s)) t (Addr (sysPool s)) \<Longrightarrow>
    pool_step env s (k, DialRefused) (set_client k (Counting (ErrorCount (sysPool s)))
      (s\<lparr>sysNet := (sysNet s)\<lparr>dials := dials (sysNet s) + 1\<rparr>\<rparr>))"
| counted: "client_at s k (Counting v) \<Longrightarrow>
    pool_step env s (k, Counted) (set_client k Free (s\<lparr>sysPool := (sysPool s)\<lparr>ErrorCount := v + 1\<rparr>\<rparr>))"
| unknown_type: "client_at s k Dialing \<Longrightarrow> conn_type (Type (sysPool s)) = None \<Longrightarrow>
    pool_step env s (k, UnknownType) (set_client k Free s)"
| pushed: "client_at s k (Pushing c) \<Longrightarrow> chan_send (Connections (sysPool s)) c = Some ch \<Longrightarrow>
    pool_step env s (k, Pushed) (set_client k Free (set_conns ch s))"

text \<open>The states the goroutines can reach from a start where none of them is in a send.\<close>

inductive pool_reach :: "net_env \<Rightarrow> pool_sys \<Rightarrow> pool_sys \<Rightarrow> bool" for env s0 where
  start: "pool_reach env s0 s0"
| step: "pool_reach env s0 s \<Longrightarrow> pool_step env s e s' \<Longrightarrow> pool_reach env s0 s'"

lemma pool_reach_rtranclp: "pool_reach env s t \<longleftrightarrow> (\<lambda>s t. \<exists>e. pool_step env s e t)\<^sup>*\<^sup>* s t"
proof
  show "(\<lambda>s t. \<exists>e. pool_step env s e t)\<^sup>*\<^sup>* s t" if "pool_reach env s t"
    using that by (induction rule: pool_reach.induct) (auto intro: rtranclp.rtrancl_into_rtrancl)
  show "pool_reach env s t" if "(\<lambda>s t. \<exists>e. pool_step env s e t)\<^sup>*\<^sup>* s t"
    using that by (induction rule: rtranclp_induct) (auto intro: pool_reach.intros)
qed

inductive_simps pool_step_timed_out: "pool_step env s (k, TimedOut) s'"

subsection \<open>The invariant\<close>

fun held :: "client \<Rightarrow> conn multiset" where
  "held Free = {#}"
| "held (Using c) = {#c#}"
| "held (Returning c) = {#c#}"
| "held (Replacing c) = {#c#}"
| "held Dialing = {#}"
| "held (Counting v) = {#}"
| "held (Pushing c) = {#c#}"

text \<open>Does the goroutine still have its slot of the pool?  After a failed dial it has not.\<close>

fun busy :: "client \<Rightarrow> nat" where
  "busy Free = 0"
| "busy (Counting v) = 0"
| "busy c = 1"

definition all_conns :: "pool_sys \<Rightarrow> conn multiset" where
  "all_conns s = mset (idle (sysPool s)) + (\<Sum>c\<leftarrow>sysClients s. held c)"

definition busy_count :: "pool_sys \<Rightarrow> nat" where
  "busy_count s = (\<Sum>c\<leftarrow>sysClients s. busy c)"

definition slots_used :: "pool_sys \<Rightarrow> int" where
  "slots_used s = int (length (idle (sysPool s))) + int (busy_count s)"

text \<open>
  A slot of the pool is a connection in the channel or a client in a send; the error counter, and
  what a goroutine is about to store in it, never exceeds the slots that were lost to failed dials.
  Every connection is open and in one place.
\<close>

definition slots_ok :: "pool_sys \<Rightarrow> bool" where
  "slots_ok s \<longleftrightarrow>
     conn_type (Type (sysPool s)) \<noteq> None \<and> 0 \<le> Size (sysPool s) \<and> 0 \<le> ErrorCount (sysPool s) \<and>
     chan_cap (Connections (sysPool s)) = nat (Size (sysPool s)) \<and>
     slots_used s + ErrorCount (sysPool s) \<le> Size (sysPool s) \<and>
     (\<forall>v. Counting v \<in> set (sysClients s) \<longrightarrow> 0 \<le> v \<and> slots_used s + v + 1 \<le> Size (sysPool s)) \<and>
     (\<forall>c. count (all_conns s) c \<le> 1) \<and>
     (\<forall>c \<in># all_conns s. live (sysNet s) c) \<and> (\<forall>i \<in> set (closed (sysNet s)). i < dials (sysNet s))"

lemma set_client_simps [simp]:
  "sysPool (set_client k c s) = sysPool s" "sysNet (set_client k c s) = sysNet s"
  "sysCrashed (set_client k c s) = sysCrashed s" "sysClients (set_client k c s) = (sysClients s)[k := c]"
  by (simp_all add: set_client_def)

lemma set_conns_simps [simp]:
  "sysPool (set_conns ch s) = (sysPool s)\<lparr>Connections := ch\<rparr>" "sysNet (set_conns ch s) = sysNet s"
  "sysCrashed (set_conns ch s) = sysCrashed s" "sysClients (set_conns ch s) = sysClients s"
  by (simp_all add: set_conns_def)

text \<open>What a step of one client does to the two sums.\<close>

lemma client_sums:
  assumes "client_at s k c" "sysClients s' = (sysClients s)[k := c']"
  shows "busy c + busy_count s' = busy c' + busy_count s"
    and "held c + (\<Sum>x\<leftarrow>sysClients s'. held x) = held c' + (\<Sum>x\<leftarrow>sysClients s. held x)"
  using assms sum_list_map_update [of k "sysClients s" busy c'] sum_list_map_update [of k "sysClients s" held c']
  by (auto simp: client_at_def busy_count_def)

lemma conns_taken:
  assumes "client_at s k c" "sysClients s' = (sysClients s)[k := c']" "mset (idle (sysPool s')) + held c' + D = mset (idle (sysPool s)) + held c + A"
  shows "all_conns s' + D = all_conns s + A"
proof -
  let ?h = "\<Sum>x\<leftarrow>sysClients s. held x" and ?h' = "\<Sum>x\<leftarrow>sysClients s'. held x"
  have "held c + ?h' = held c' + ?h" by (rule client_sums(2) [OF assms(1,2)])
  then have "(mset (idle (sysPool s')) + ?h' + D) + (held c + held c') = (mset (idle (sysPool s)) + ?h + A) + (held c + held c')"
    using assms(3) by (metis (no_types, lifting) add.assoc add.commute)
  then show ?thesis by (simp add: all_conns_def)
qed

lemma busy_le: "client_at s k c \<Longrightarrow> busy c \<le> busy_count s"
  using client_sums(1) [of s k c "s\<lparr>sysClients := (sysClients s)[k := Free]\<rparr>" Free] by simp

lemma held_conn: "client_at s k c \<Longrightarrow> x \<in># held c \<Longrightarrow> x \<in># all_conns s"
  by (auto simp: client_at_def all_conns_def intro!: bexI [of _ "sysClients s ! k"])

text \<open>The test of \<open>CreateConnection\<close> always finds room.\<close>

lemma room_left: "slots_ok s \<Longrightarrow> client_at s k c \<Longrightarrow> busy c = 1 \<Longrightarrow>
    int (length (idle (sysPool s))) < Size (sysPool s)"
  using busy_le [of s k c] by (simp add: slots_ok_def slots_used_def)

lemma counting_after:
  assumes "client_at s k c" "sysClients s' = (sysClients s)[k := c']" "Counting v \<in> set (sysClients s')"
  shows "c' = Counting v \<or> Counting v \<in> set (sysClients s)"
  using assms set_update_subset_insert [of "sysClients s" k c'] by auto

lemma live_close: "live n c \<Longrightarrow> c \<noteq> Conn i \<Longrightarrow> live (n\<lparr>closed := closed n @ [i]\<rparr>) c"
  by (auto simp: live_def)

lemma live_same: "dials n' = dials n \<Longrightarrow> closed n' = closed n \<Longrightarrow> live n' = live n"
  by (auto simp: live_def fun_eq_iff)

lemma conn_call_same:
  "conn_set_deadline c t n = Done n' \<Longrightarrow> dials n' = dials n \<and> closed n' = closed n"
  "conn_write env c msg n = Done (ok, n') \<Longrightarrow> dials n' = dials n \<and> closed n' = closed n"
  by (cases c; auto simp: Let_def split: option.splits)+

text \<open>One step in terms of the sums: \<open>A\<close> is a connection that comes up, \<open>D\<close> one that is closed.\<close>

lemma slots_ok_move:
  assumes "slots_ok s" "client_at s k c"
    and "sysClients s' = (sysClients s)[k := c']" "sysPool s' = (sysPool s)\<lparr>Connections := ch\<rparr>"
    and "chan_cap ch = chan_cap (Connections (sysPool s))"
    and "mset (chan_buf ch) + held c' = mset (idle (sysPool s)) + held c" "\<And>v. c' \<noteq> Counting v"
    and "length (chan_buf ch) + busy c' = length (idle (sysPool s)) + busy c"
    and "dials (sysNet s') = dials (sysNet s)" "closed (sysNet s') = closed (sysNet s)"
  shows "slots_ok s'"
proof -
  have "all_conns s' + {#} = all_conns s + {#}"
    by (rule conns_taken [OF assms(2,3)]) (use assms(4,6) in \<open>simp add: idle_def\<close>)
  moreover have "busy c + busy_count s' = busy c' + busy_count s" by (rule client_sums(1) [OF assms(2,3)])
  then have "slots_used s' = slots_used s" using assms(4,8) by (simp add: slots_used_def idle_def)
  moreover have "Counting v \<in> set (sysClients s') \<Longrightarrow> Counting v \<in> set (sysClients s)" for v
    using counting_after [OF assms(2,3), of v] assms(7) by blast
  ultimately show ?thesis
    using assms(1,4,5,9,10) live_same [OF assms(9,10)] by (auto simp: slots_ok_def idle_def)
qed

lemma slots_ok_step: "pool_step env s e s' \<Longrightarrow> slots_ok s \<Longrightarrow> slots_ok s'"
proof (induction rule: pool_step.induct)
  case (got s k c ch)
  show ?case
    by (rule slots_ok_move [OF got.prems got.hyps(1), of _ "Using c" ch])
      (use go_chan.recv_contents [OF got.hyps(3)] go_chan.recv_capacity [OF got.hyps(3)] in
        \<open>simp_all add: idle_def\<close>)
next
  case (timed_out s k)
  then show ?case by (simp add: slots_ok_def all_conns_def busy_count_def slots_used_def)
next
  case (wrote s k c msg ok n)
  show ?case
    by (rule slots_ok_move [OF wrote.prems wrote.hyps(1), of _ "if ok then Returning c else Replacing c" "Connections (sysPool s)"])
      (use conn_call_same(2) [OF wrote.hyps(2)] in \<open>simp_all add: idle_def\<close>)
next
  case (gave_back s k c n ch)
  show ?case
    by (rule slots_ok_move [OF gave_back.prems gave_back.hyps(1), of _ Free ch])
      (use go_chan.send_contents [OF gave_back.hyps(3)] go_chan.send_capacity [OF gave_back.hyps(3)]
         conn_call_same(1) [OF gave_back.hyps(2)] in \<open>simp_all add: idle_def\<close>)
next
  case (pushed s k c ch)
  show ?case
    by (rule slots_ok_move [OF pushed.prems pushed.hyps(1), of _ Free ch])
      (use go_chan.send_contents [OF pushed.hyps(2)] go_chan.send_capacity [OF pushed.hyps(2)] in
        \<open>simp_all add: idle_def\<close>)
next
  case (refused s k t)
  let ?c = "Counting (ErrorCount (sysPool s))"
  let ?t = "set_client k ?c (s\<lparr>sysNet := (sysNet s)\<lparr>dials := dials (sysNet s) + 1\<rparr>\<rparr>)"
  have "all_conns ?t + {#} = all_conns s + {#}" by (rule conns_taken [OF refused.hyps(1), of ?t ?c]) simp_all
  moreover have "slots_used ?t + 1 = slots_used s"
    using client_sums(1) [OF refused.hyps(1), of ?t ?c] by (simp add: slots_used_def)
  moreover have "0 \<le> v \<and> slots_used ?t + v + 1 \<le> Size (sysPool s)" if "Counting v \<in> set (sysClients ?t)" for v
  proof -
    have "v = ErrorCount (sysPool s) \<or> Counting v \<in> set (sysClients s)"
      using counting_after [OF refused.hyps(1), of ?t ?c v] that by auto
    then have "0 \<le> v \<and> slots_used s + v \<le> Size (sysPool s)" using refused.prems by (auto simp: slots_ok_def)
    then show ?thesis using calculation(2) by simp
  qed
  ultimately show ?case using refused.prems live_dial by (simp add: slots_ok_def less_SucI)
next
  case (counted s k v)
  let ?t = "set_client k Free (s\<lparr>sysPool := (sysPool s)\<lparr>ErrorCount := v + 1\<rparr>\<rparr>)"
  have "all_conns ?t + {#} = all_conns s + {#}" by (rule conns_taken [OF counted.hyps, of ?t Free]) (simp_all add: idle_def)
  moreover have "slots_used ?t = slots_used s"
    using client_sums(1) [OF counted.hyps, of ?t Free] by (simp add: slots_used_def idle_def)
  moreover have "0 \<le> w \<and> slots_used s + w + 1 \<le> Size (sysPool s)" if "Counting w \<in> set (sysClients ?t)" for w
    using counting_after [OF counted.hyps, of ?t Free w] that counted.prems by (simp add: slots_ok_def)
  moreover have "Counting v \<in> set (sysClients s)" using counted.hyps by (metis client_at_def nth_mem)
  then have "0 \<le> v \<and> slots_used s + v + 1 \<le> Size (sysPool s)" using counted.prems by (simp add: slots_ok_def)
  ultimately show ?case using counted.prems by (simp add: slots_ok_def add.assoc)
next
  case (unknown_type s k)
  then show ?case by (simp add: slots_ok_def)
next
  case (dialed s k t c n)
  let ?t = "set_client k (Pushing c) (s\<lparr>sysNet := n\<rparr>)"
  have a: "all_conns ?t + {#} = all_conns s + {#c#}" by (rule conns_taken [OF dialed.hyps(1), of ?t "Pushing c"]) simp_all
  have b: "slots_used ?t = slots_used s"
    using client_sums(1) [OF dialed.hyps(1), of ?t "Pushing c"] by (simp add: slots_used_def)
  have "Counting v \<in> set (sysClients ?t) \<Longrightarrow> Counting v \<in> set (sysClients s)" for v
    using counting_after [OF dialed.hyps(1), of ?t "Pushing c" v] by auto
  note ab = a b this
  have "c \<notin># all_conns s" using dialed.prems dialed.hyps(4) by (auto simp: slots_ok_def live_def)
  then have "count (all_conns s) c = 0" by (simp add: count_eq_zero_iff)
  moreover have n: "dials n = dials (sysNet s) + 1" "closed n = closed (sysNet s)"
    using conn_call_same(1) [OF dialed.hyps(5)] by simp_all
  then have "live (sysNet s) x \<Longrightarrow> live n x" for x by (auto simp: live_def)
  ultimately show ?case using dialed.prems dialed.hyps(4) ab n by (auto simp: slots_ok_def live_def)
next
  case (closed_conn s k c n room)
  have "c \<in># all_conns s" using closed_conn.hyps(1) by (rule held_conn) simp
  then obtain i where i: "c = Conn i" "i < dials (sysNet s)"
    using closed_conn.prems by (auto simp: slots_ok_def live_def)
  then have n: "n = (sysNet s)\<lparr>closed := closed (sysNet s) @ [i]\<rparr>" using closed_conn.hyps(2) by simp
  have room: room using closed_conn.hyps(3) room_left [OF closed_conn.prems closed_conn.hyps(1)] by (simp add: idle_def)
  let ?t = "set_client k Dialing (s\<lparr>sysNet := n\<rparr>)"
  have "all_conns ?t + {#c#} = all_conns s + {#}"
    by (rule conns_taken [OF closed_conn.hyps(1), of ?t Dialing]) simp_all
  then have a: "all_conns s = add_mset c (all_conns ?t)" by simp
  have b: "slots_used ?t = slots_used s"
    using client_sums(1) [OF closed_conn.hyps(1), of ?t Dialing] by (simp add: slots_used_def)
  have count: "Counting v \<in> set (sysClients ?t) \<Longrightarrow> Counting v \<in> set (sysClients s)" for v
    using counting_after [OF closed_conn.hyps(1), of ?t Dialing v] by auto
  have le: "count (all_conns s) x \<le> 1" for x using closed_conn.prems by (simp add: slots_ok_def)
  have "count (all_conns ?t) c = 0" using le [of c] a by simp
  then have "c \<notin># all_conns ?t" by (simp add: count_eq_zero_iff)
  then have "live n x" if "x \<in># all_conns ?t" for x
    using that closed_conn.prems a i n live_close [of "sysNet s" x i] by (auto simp: slots_ok_def)
  moreover have "count (all_conns ?t) x \<le> 1" for x using le [of x] a by (simp split: if_splits)
  ultimately have "slots_ok ?t" using closed_conn.prems b count i n by (simp add: slots_ok_def)
  then show ?case using room by simp
qed

lemma slots_ok_reach: "pool_reach env s0 s \<Longrightarrow> slots_ok s0 \<Longrightarrow> slots_ok s"
  by (induction rule: pool_reach.induct) (auto intro: slots_ok_step)

lemma clients_length: "pool_reach env s0 s \<Longrightarrow> length (sysClients s) = length (sysClients s0)"
proof (induction rule: pool_reach.induct)
  case (step s e s')
  have "length (sysClients s') = length (sysClients s)"
    using step.hyps(2) by (induction rule: pool_step.induct) simp_all
  then show ?case using step.IH by simp
qed simp

text \<open>The start: a pool that was created without errors, and \<open>m\<close> goroutines.\<close>

definition pool_start :: "ConnectionPool \<Rightarrow> net \<Rightarrow> nat \<Rightarrow> pool_sys" where
  "pool_start pool n m = \<lparr>sysPool = pool, sysNet = n, sysClients = replicate m Free, sysCrashed = False\<rparr>"

lemma created_pool:
  assumes "CreateConnectionPool env sz addr ConnPoolTypeTcp tm n = Done (pool, None, n')"
    and "\<forall>i \<in> set (closed n). i < dials n"
  shows "pool_wf pool n' \<and> Size pool = sz \<and> Type pool = ConnPoolTypeTcp \<and> ErrorCount pool = 0 \<and> length (idle pool) = nat sz \<and> 0 \<le> sz"
proof -
  have "0 \<le> sz" using assms(1) by (auto simp: CreateConnectionPool_def split: if_splits)
  moreover have "conn_type ConnPoolTypeTcp = Some ''tcp''" by (simp add: conn_type_def)
  ultimately show ?thesis
    using create_pool [of sz ConnPoolTypeTcp "''tcp''" n env addr tm] assms by (auto split: if_splits)
qed

lemma slots_ok_start:
  assumes "CreateConnectionPool env sz addr ConnPoolTypeTcp tm n = Done (pool, None, n')"
    and "\<forall>i \<in> set (closed n). i < dials n"
  shows "slots_ok (pool_start pool n' m)"
proof -
  have "sum_list (map held (replicate m Free)) = {#}" "sum_list (map busy (replicate m Free)) = 0"
    by (induction m) simp_all
  then show ?thesis
    using created_pool [OF assms]
    by (auto simp: conn_type_def slots_ok_def slots_used_def pool_start_def pool_wf_def all_conns_def busy_count_def distinct_count_atmost_1)
qed

subsection \<open>What it gives\<close>

lemma sends_proceed:
  assumes "slots_ok s" "client_at s k (Returning c) \<or> client_at s k (Pushing c)"
  shows "\<exists>ch. chan_send (Connections (sysPool s)) c = Some ch"
proof -
  have "int (length (idle (sysPool s))) < Size (sysPool s)" using assms room_left by fastforce
  then show ?thesis using assms(1) by (auto simp: chan_send_def slots_ok_def idle_def)
qed

lemma held_apart:
  assumes "slots_ok s" "client_at s j a" "client_at s k b" "j \<noteq> k" "x \<in># held a"
  shows "x \<notin># held b \<and> x \<notin> set (idle (sysPool s))"
proof -
  let ?s = "s\<lparr>sysClients := (sysClients s)[j := Free]\<rparr>"
  have b: "client_at ?s k b" using assms(3,4) by (simp add: client_at_def)
  have "held a + (\<Sum>c\<leftarrow>sysClients ?s. held c) = (\<Sum>c\<leftarrow>sysClients s. held c)"
    using client_sums(2) [OF assms(2), of ?s Free] by simp
  then have split: "all_conns s = held a + all_conns ?s" by (simp add: all_conns_def ac_simps)
  have "count (all_conns s) x \<le> 1" using assms(1) by (simp add: slots_ok_def)
  moreover have "0 < count (held a) x" using assms(5) by simp
  moreover have "count (all_conns s) x = count (held a) x + count (all_conns ?s) x" by (simp add: split)
  ultimately have "count (all_conns ?s) x = 0" by linarith
  then have "x \<notin># all_conns ?s" by (simp add: count_eq_zero_iff)
  then show ?thesis using held_conn [OF b, of x] by (auto simp: all_conns_def)
qed

text \<open>
  The slots in use and the failed dials.  A step changes their number only when it is a dial that
  is refused.
\<close>

lemma slots_used_step:
  "pool_step env s e s' \<Longrightarrow> slots_ok s \<Longrightarrow>
    Size (sysPool s') = Size (sysPool s) \<and> Addr (sysPool s') = Addr (sysPool s) \<and> Type (sysPool s') = Type (sysPool s) \<and>
    (dials (sysNet s') = dials (sysNet s) \<and> slots_used s' = slots_used s \<or>
     dials (sysNet s') = dials (sysNet s) + 1 \<and>
     slots_used s' + (if dial_ok env (dials (sysNet s)) (the (conn_type (Type (sysPool s)))) (Addr (sysPool s)) then 0 else 1) =
       slots_used s)"
proof (induction rule: pool_step.induct)
  case (got s k c ch)
  let ?t = "set_client k (Using c) (set_conns ch (s\<lparr>sysNet := (sysNet s)\<lparr>gets := gets (sysNet s) + 1\<rparr>\<rparr>))"
  show ?case
    using client_sums(1) [OF got.hyps(1), of ?t "Using c"] go_chan.recv_contents [OF got.hyps(3)] by (simp add: slots_used_def idle_def)
next
  case (timed_out s k)
  then show ?case by (simp add: slots_used_def busy_count_def)
next
  case (wrote s k c msg ok n)
  let ?c = "if ok then Returning c else Replacing c"
  show ?case
    using client_sums(1) [OF wrote.hyps(1), of "set_client k ?c (s\<lparr>sysNet := n\<rparr>)" ?c] conn_call_same(2) [OF wrote.hyps(2)]
    by (simp add: slots_used_def split: if_splits)
next
  case (gave_back s k c n ch)
  show ?case
    using client_sums(1) [OF gave_back.hyps(1), of "set_client k Free (set_conns ch (s\<lparr>sysNet := n\<rparr>))" Free]
      go_chan.send_contents [OF gave_back.hyps(3)] conn_call_same(1) [OF gave_back.hyps(2)]
    by (simp add: slots_used_def idle_def)
next
  case (closed_conn s k c n room)
  obtain i where "c = Conn i"
    using held_conn [OF closed_conn.hyps(1), of c] closed_conn.prems by (auto simp: slots_ok_def live_def)
  then have "dials n = dials (sysNet s)" using closed_conn.hyps(2) by auto
  moreover have room using closed_conn.hyps(3) room_left [OF closed_conn.prems closed_conn.hyps(1)] by (simp add: idle_def)
  ultimately show ?case
    using client_sums(1) [OF closed_conn.hyps(1), of "set_client k Dialing (s\<lparr>sysNet := n\<rparr>)" Dialing]
    by (simp add: slots_used_def)
next
  case (dialed s k t c n)
  show ?case
    using client_sums(1) [OF dialed.hyps(1), of "set_client k (Pushing c) (s\<lparr>sysNet := n\<rparr>)" "Pushing c"]
      conn_call_same(1) [OF dialed.hyps(5)] dialed.hyps(2,3)
    by (simp add: slots_used_def)
next
  case (refused s k t)
  let ?c = "Counting (ErrorCount (sysPool s))"
  show ?case
    using client_sums(1) [OF refused.hyps(1), of "set_client k ?c (s\<lparr>sysNet := (sysNet s)\<lparr>dials := dials (sysNet s) + 1\<rparr>\<rparr>)" ?c]
      refused.hyps(2,3)
    by (simp add: slots_used_def)
next
  case (counted s k v)
  show ?case
    using client_sums(1) [OF counted.hyps, of "set_client k Free (s\<lparr>sysPool := (sysPool s)\<lparr>ErrorCount := v + 1\<rparr>\<rparr>)" Free]
    by (simp add: slots_used_def idle_def)
next
  case (unknown_type s k)
  then show ?case by (simp add: slots_ok_def)
next
  case (pushed s k c ch)
  show ?case
    using client_sums(1) [OF pushed.hyps(1), of "set_client k Free (set_conns ch s)" Free] go_chan.send_contents [OF pushed.hyps(2)]
    by (simp add: slots_used_def idle_def)
qed

text \<open>The dials to the pool's address that were refused since a state with \<open>k\<close> dials.\<close>

definition refused_since :: "net_env \<Rightarrow> nat \<Rightarrow> pool_sys \<Rightarrow> nat" where
  "refused_since env k s =
     failed_dials env (the (conn_type (Type (sysPool s)))) (Addr (sysPool s)) k (dials (sysNet s) - k)"

lemma failed_dials_snoc: "failed_dials env t a k (Suc m) = failed_dials env t a k m + (if dial_ok env (k + m) t a then 0 else 1)"
  by (simp add: failed_dials_def)

lemma refused_same:
  "dials (sysNet s') = dials (sysNet s) \<Longrightarrow> Type (sysPool s') = Type (sysPool s) \<Longrightarrow> Addr (sysPool s') = Addr (sysPool s) \<Longrightarrow>
    refused_since env k s' = refused_since env k s"
  by (simp add: refused_since_def)

lemma refused_dial:
  "dials (sysNet s') = dials (sysNet s) + 1 \<Longrightarrow> Type (sysPool s') = Type (sysPool s) \<Longrightarrow> Addr (sysPool s') = Addr (sysPool s) \<Longrightarrow>
    k \<le> dials (sysNet s) \<Longrightarrow> refused_since env k s' = refused_since env k s +
      (if dial_ok env (dials (sysNet s)) (the (conn_type (Type (sysPool s)))) (Addr (sysPool s)) then 0 else 1)"
  by (simp add: refused_since_def Suc_diff_le failed_dials_snoc)

lemma slots_reach:
  assumes "pool_reach env s0 s" "slots_ok s0"
  shows "Size (sysPool s) = Size (sysPool s0) \<and> Addr (sysPool s) = Addr (sysPool s0) \<and> Type (sysPool s) = Type (sysPool s0) \<and>
    dials (sysNet s0) \<le> dials (sysNet s) \<and>
    slots_used s + int (refused_since env (dials (sysNet s0)) s) = slots_used s0"
  using assms(1)
proof (induction rule: pool_reach.induct)
  case start
  show ?case by (simp add: refused_since_def failed_dials_def)
next
  case (step s e s')
  have ok: "slots_ok s" by (rule slots_ok_reach [OF step.hyps(1) assms(2)])
  note frame = slots_used_step [OF step.hyps(2) ok]
  show ?case
  proof (cases "dials (sysNet s') = dials (sysNet s)")
    case True
    then show ?thesis using frame step.IH refused_same [of s' s env "dials (sysNet s0)"] by simp
  next
    case False
    then show ?thesis using frame step.IH refused_dial [of s' s "dials (sysNet s0)" env] by (simp split: if_splits)
  qed
qed

lemma slots_accounted:
  assumes "CreateConnectionPool env sz addr ConnPoolTypeTcp tm n = Done (pool, None, n0)"
    and "\<forall>i \<in> set (closed n). i < dials n" "pool_reach env (pool_start pool n0 m) s"
  shows "slots_used s + int (refused_since env (dials n0) s) = Size pool" "Size (sysPool s) = sz" "0 \<le> sz"
proof -
  note start = slots_ok_start [OF assms(1,2), of m]
  have "sum_list (map busy (replicate m Free)) = 0" by (induction m) simp_all
  then have "slots_used (pool_start pool n0 m) = Size pool" using created_pool [OF assms(1,2)]
    by (simp add: slots_used_def pool_start_def busy_count_def)
  then show "slots_used s + int (refused_since env (dials n0) s) = Size pool" "Size (sysPool s) = sz" "0 \<le> sz"
    using slots_reach [OF assms(3) start] created_pool [OF assms(1,2)] by (simp_all add: pool_start_def)
qed

text \<open>
  Property C6.  The shared pool accounts for every slot in every interleaving of the relay
  goroutines: the connections in the channel, the goroutines in a send and the dials that were
  refused add up to the size of the pool.  The pool's own error counter, which the goroutines
  increment without a lock, never exceeds the refused dials (it can miss some).  No connection is
  ever in two places, and giving one back never blocks.
\<close>
theorem pool_accounting:
  assumes "CreateConnectionPool env sz addr ConnPoolTypeTcp tm n = Done (pool, None, n0)"
    and "\<forall>i \<in> set (closed n). i < dials n" "pool_reach env (pool_start pool n0 m) s"
  shows "int (length (idle (sysPool s))) + int (busy_count s) + int (refused_since env (dials n0) s) = Size (sysPool s) \<and>
    0 \<le> ErrorCount (sysPool s) \<and> ErrorCount (sysPool s) \<le> int (refused_since env (dials n0) s) \<and>
    (\<forall>j k a b x. client_at s j a \<and> client_at s k b \<and> j \<noteq> k \<and> x \<in># held a \<longrightarrow>
       x \<notin># held b \<and> x \<notin> set (idle (sysPool s))) \<and>
    (\<forall>k c. client_at s k (Returning c) \<or> client_at s k (Pushing c) \<longrightarrow>
       (\<exists>ch. chan_send (Connections (sysPool s)) c = Some ch))"
proof -
  have ok: "slots_ok s" by (rule slots_ok_reach [OF assms(3) slots_ok_start [OF assms(1,2)]])
  have eq: "slots_used s + int (refused_since env (dials n0) s) = Size (sysPool s)"
    using slots_accounted [OF assms] created_pool [OF assms(1,2)] by simp
  then have "0 \<le> ErrorCount (sysPool s) \<and> ErrorCount (sysPool s) \<le> int (refused_since env (dials n0) s)"
    using ok by (simp add: slots_ok_def)
  then show ?thesis using eq held_apart [OF ok] sends_proceed [OF ok] unfolding slots_used_def by blast
qed

text \<open>Two refused dials that are counted as one.\<close>

lemma count_lost:
  assumes "client_at s j Dialing" "client_at s k Dialing" "j \<noteq> k" "conn_type (Type (sysPool s)) = Some t"
    and "\<not> dial_ok env (dials (sysNet s)) t (Addr (sysPool s))" "\<not> dial_ok env (dials (sysNet s) + 1) t (Addr (sysPool s))"
  shows "\<exists>s'. pool_reach env s s' \<and> dials (sysNet s') = dials (sysNet s) + 2 \<and>
    ErrorCount (sysPool s') = ErrorCount (sysPool s) + 1 \<and> client_at s' j Free \<and> client_at s' k Free"
proof -
  let ?c = "Counting (ErrorCount (sysPool s))"
  let ?s1 = "set_client j ?c (s\<lparr>sysNet := (sysNet s)\<lparr>dials := dials (sysNet s) + 1\<rparr>\<rparr>)"
  let ?s2 = "set_client k ?c (?s1\<lparr>sysNet := (sysNet ?s1)\<lparr>dials := dials (sysNet ?s1) + 1\<rparr>\<rparr>)"
  let ?s3 = "set_client j Free (?s2\<lparr>sysPool := (sysPool ?s2)\<lparr>ErrorCount := ErrorCount (sysPool s) + 1\<rparr>\<rparr>)"
  let ?s4 = "set_client k Free (?s3\<lparr>sysPool := (sysPool ?s3)\<lparr>ErrorCount := ErrorCount (sysPool s) + 1\<rparr>\<rparr>)"
  have "pool_step env s (j, DialRefused) ?s1" by (rule pool_step.refused [OF assms(1,4,5)])
  moreover have "pool_step env ?s1 (k, DialRefused) ?s2"
    using pool_step.refused [of ?s1 k t env] assms by (simp add: client_at_def)
  moreover have "pool_step env ?s2 (j, Counted) ?s3"
    by (rule pool_step.counted) (use assms in \<open>simp add: client_at_def\<close>)
  moreover have "pool_step env ?s3 (k, Counted) ?s4"
    by (rule pool_step.counted) (use assms in \<open>simp add: client_at_def\<close>)
  ultimately have "pool_reach env s ?s4" by (meson pool_reach.intros)
  moreover have "client_at ?s4 j Free" "client_at ?s4 k Free" using assms(1-3) by (simp_all add: client_at_def)
  ultimately show ?thesis by (intro exI [of _ ?s4]) simp
qed

lemma busy_count_less:
  assumes "client_at s k Free"
  shows "busy_count s < length (sysClients s)"
proof -
  have one: "busy c \<le> 1" for c by (cases c) simp_all
  have le: "sum_list (map busy xs) \<le> length xs" for xs
    using sum_list_mono [of xs busy "\<lambda>_. 1"] one by (simp add: sum_list_triv)
  have "k < length (sysClients s)" "busy (sysClients s ! k) = 0" using assms by (simp_all add: client_at_def)
  then have "sysClients s = take k (sysClients s) @ sysClients s ! k # drop (Suc k) (sysClients s)"
    by (simp add: id_take_nth_drop)
  then have "busy_count s = sum_list (map busy (take k (sysClients s))) + sum_list (map busy (drop (Suc k) (sysClients s)))"
    unfolding busy_count_def using \<open>busy (sysClients s ! k) = 0\<close> by (metis (no_types, lifting) add_0 list.map(2) map_append sum_list.Cons sum_list.append)
  then show ?thesis
    using le [of "take k (sysClients s)"] le [of "drop (Suc k) (sysClients s)"] \<open>k < length (sysClients s)\<close> by simp
qed

lemma connection_there:
  assumes "CreateConnectionPool env sz addr ConnPoolTypeTcp tm n = Done (pool, None, n0)"
    and "\<forall>i \<in> set (closed n). i < dials n" "pool_reach env (pool_start pool n0 (nat sz)) s"
    and "refused_since env (dials n0) s = 0" "client_at s k Free"
  shows "\<exists>c ch. chan_recv (Connections (sysPool s)) = Some (c, ch)"
proof -
  have "slots_used s = sz" "0 \<le> sz"
    using slots_accounted [OF assms(1-3)] assms(4) created_pool [OF assms(1,2)] by simp_all
  moreover have "busy_count s < nat sz"
    using busy_count_less [OF assms(5)] clients_length [OF assms(3)] by (simp add: pool_start_def)
  ultimately have "idle (sysPool s) \<noteq> []" by (auto simp: slots_used_def)
  then show ?thesis by (cases "idle (sysPool s)") (auto simp: chan_recv_def idle_def)
qed

text \<open>
  Fact.  With as many goroutines as the pool has slots, which is how \<open>main\<close> starts
  them, and as long as no dial has been refused, a goroutine that wants to send finds a connection
  at once: the timer of \<open>GetConnection\<close> is never what ends its wait.
\<close>
theorem pool_never_empty:
  assumes "CreateConnectionPool env sz addr ConnPoolTypeTcp tm n = Done (pool, None, n0)"
    and "\<forall>i \<in> set (closed n). i < dials n" "pool_reach env (pool_start pool n0 (nat sz)) s"
    and "refused_since env (dials n0) s = 0" "client_at s k Free"
  shows "\<exists>c ch. chan_recv (Connections (sysPool s)) = Some (c, ch)"
  by (rule connection_there [OF assms])


subsection \<open>The sequential calls are schedules\<close>

text \<open>
  The functions of \<open>Connection_Pool\<close> and \<open>carbon_attempt\<close>, which one goroutine runs on its own,
  are runs of this system in which only that client moves.
\<close>

lemma pool_reach_trans: "pool_reach env b c \<Longrightarrow> pool_reach env a b \<Longrightarrow> pool_reach env a c"
  by (induction rule: pool_reach.induct) (auto intro: pool_reach.step)

lemma reach_one: "pool_step env s e t \<Longrightarrow> pool_reach env s t"
  by (rule pool_reach.step [OF pool_reach.start])

lemma set_client_twice [simp]:
  "set_client k d (set_client k c s) = set_client k d s"
  "set_client k d (set_conns ch (set_client k c s)) = set_client k d (set_conns ch s)"
  "set_client k d ((set_client k c s)\<lparr>sysNet := n\<rparr>) = set_client k d (s\<lparr>sysNet := n\<rparr>)"
  by (simp_all add: set_client_def set_conns_def)

lemma client_at_set [simp]:
  "client_at s k c \<Longrightarrow> client_at (set_client k d s) k e \<longleftrightarrow> e = d"
  "client_at (s\<lparr>sysNet := n\<rparr>) k c = client_at s k c" "client_at (set_conns ch s) k c = client_at s k c"
  by (auto simp: client_at_def)

lemma update_order [simp]: "(s :: pool_sys)\<lparr>sysNet := n, sysPool := p\<rparr> = s\<lparr>sysPool := p, sysNet := n\<rparr>"
  by (cases s) simp

lemma set_client_same: "client_at s k c \<Longrightarrow> set_client k c s = s"
  by (cases s) (auto simp: set_client_def client_at_def)

lemma set_client_order:
  "(set_client k c s)\<lparr>sysNet := n\<rparr> = set_client k c (s\<lparr>sysNet := n\<rparr>)"
  "(set_client k c s)\<lparr>sysPool := p\<rparr> = set_client k c (s\<lparr>sysPool := p\<rparr>)"
  by (cases s; simp add: set_client_def)+

lemma create_steps:
  assumes "client_at s k Dialing" "int (length (chan_buf (Connections (sysPool s)))) < Size (sysPool s)"
    and "CreateConnection env (sysPool s) (sysNet s) = Done (r, pool', n')"
  shows "pool_reach env s (set_client k Free (s\<lparr>sysPool := pool', sysNet := n'\<rparr>))"
proof (cases "conn_type (Type (sysPool s))")
  case None
  have "pool_step env s (k, UnknownType) (set_client k Free s)" by (rule pool_step.unknown_type [OF assms(1) None])
  moreover have "pool' = sysPool s" "n' = sysNet s" using assms(2,3) None by (auto simp: CreateConnection_def)
  ultimately show ?thesis using reach_one by simp
next
  case (Some t)
  show ?thesis
  proof (cases "dial_ok env (dials (sysNet s)) t (Addr (sysPool s))")
    case False
    have "pool' = (sysPool s)\<lparr>ErrorCount := ErrorCount (sysPool s) + 1\<rparr>"
      "n' = (sysNet s)\<lparr>dials := dials (sysNet s) + 1\<rparr>"
      using assms(2,3) Some False by (auto simp: CreateConnection_def Let_def)
    moreover let ?s1 = "set_client k (Counting (ErrorCount (sysPool s))) (s\<lparr>sysNet := (sysNet s)\<lparr>dials := dials (sysNet s) + 1\<rparr>\<rparr>)"
    have "pool_reach env s ?s1" by (rule reach_one [OF pool_step.refused [OF assms(1) Some False]])
    moreover have "pool_step env ?s1 (k, Counted)
        (set_client k Free (?s1\<lparr>sysPool := (sysPool ?s1)\<lparr>ErrorCount := ErrorCount (sysPool s) + 1\<rparr>\<rparr>))"
      by (rule pool_step.counted) (use assms(1) in simp)
    ultimately show ?thesis
      using pool_reach.step by (fastforce simp: set_client_def)
  next
    case True
    let ?c = "Conn (dials (sysNet s))" and ?n = "(sysNet s)\<lparr>dials := dials (sysNet s) + 1\<rparr>"
    obtain n1 where d: "conn_set_deadline ?c (Timeout (sysPool s)) ?n = Done n1" by simp
    then obtain ch where send: "chan_send (Connections (sysPool s)) ?c = Some ch"
      and r: "pool' = (sysPool s)\<lparr>Connections := ch\<rparr>" "n' = n1"
      using assms(2,3) Some True by (auto simp: CreateConnection_def Let_def split: option.splits)
    let ?s1 = "set_client k (Pushing ?c) (s\<lparr>sysNet := n1\<rparr>)"
    have "pool_reach env s ?s1" by (rule reach_one [OF pool_step.dialed [OF assms(1) Some True refl d]])
    moreover have "pool_step env ?s1 (k, Pushed) (set_client k Free (set_conns ch ?s1))"
      by (rule pool_step.pushed) (use assms(1) send in simp_all)
    ultimately have "pool_reach env s (set_client k Free (set_conns ch ?s1))" by (rule pool_reach.step)
    then show ?thesis using r by (simp add: set_conns_def set_client_def)
  qed
qed

lemma release_steps:
  assumes "client_at s k (if recreate then Replacing c else Returning c)"
    and "ReleaseConnection env (sysPool s) c recreate (sysNet s) = Done (r, pool', n')"
  shows "pool_reach env s (set_client k Free (s\<lparr>sysPool := pool', sysNet := n'\<rparr>))"
proof (cases recreate)
  case False
  with assms(2) obtain n1 ch where d: "conn_set_deadline c (Timeout (sysPool s)) (sysNet s) = Done n1"
    "chan_send (Connections (sysPool s)) c = Some ch" "pool' = (sysPool s)\<lparr>Connections := ch\<rparr>" "n' = n1"
    by (auto simp: ReleaseConnection_def split: outcome.splits option.splits)
  from False assms(1) have at: "client_at s k (Returning c)" by simp
  from reach_one [OF pool_step.gave_back [OF at d(1,2), of env]] d(3,4)
  show ?thesis by (simp add: set_conns_def)
next
  case True
  with assms(2) obtain n1 r' where c: "conn_close c (sysNet s) = Done n1"
    "CreateConnection env (sysPool s) n1 = Done (r', pool', n')"
    by (auto simp: ReleaseConnection_def split: outcome.splits prod.splits if_splits)
  from True assms(1) have at: "client_at s k (Replacing c)" by simp
  let ?room = "int (length (chan_buf (Connections (sysPool s)))) < Size (sysPool s)"
  let ?s1 = "set_client k (if ?room then Dialing else Free) (s\<lparr>sysNet := n1\<rparr>)"
  have one: "pool_reach env s ?s1" by (rule reach_one [OF pool_step.closed_conn [OF at c(1) refl]])
  show ?thesis
  proof (cases ?room)
    case False
    then have "pool' = sysPool s" "n' = n1" using c(2) by (auto simp: CreateConnection_def)
    then show ?thesis using one False by simp
  next
    case room: True
    have "pool_reach env ?s1 (set_client k Free (?s1\<lparr>sysPool := pool', sysNet := n'\<rparr>))"
      by (rule create_steps [where r = r']) (use at room c(2) in simp_all)
    from pool_reach_trans [OF this one] room show ?thesis by (simp add: set_client_def)
  qed
qed

lemma attempt_steps:
  assumes "client_at s k Free" "carbon_attempt env key v t (sysPool s, sysNet s) = Done (sent, (pool', n'))"
  shows "pool_reach env s (s\<lparr>sysPool := pool', sysNet := n'\<rparr>)"
proof -
  let ?n1 = "(sysNet s)\<lparr>gets := gets (sysNet s) + 1\<rparr>"
  obtain c ch where g: "\<not> timer_first env (gets (sysNet s))" "chan_recv (Connections (sysPool s)) = Some (c, ch)"
    using assms(2) by (auto simp: carbon_attempt_def GetConnection_def ReleaseConnection_def Let_def split: if_splits option.splits)
  let ?p1 = "(sysPool s)\<lparr>Connections := ch\<rparr>"
  have get: "GetConnection env (sysPool s) (sysNet s) = ((c, None), ?p1, ?n1)"
    using g by (simp add: GetConnection_def Let_def)
  obtain ok n2 where w: "conn_write env c (payload key v t) ?n1 = Done (ok, n2)"
    using assms(2) by (cases c) (auto simp: carbon_attempt_def get Let_def split: option.splits)
  then obtain r where r: "ReleaseConnection env ?p1 c (\<not> ok) n2 = Done (r, pool', n')"
    using assms(2) by (auto simp: carbon_attempt_def get split: outcome.splits prod.splits)
  let ?s1 = "set_client k (Using c) (set_conns ch (s\<lparr>sysNet := ?n1\<rparr>))"
  let ?s2 = "set_client k (if ok then Returning c else Replacing c) (?s1\<lparr>sysNet := n2\<rparr>)"
  have "pool_reach env s ?s1" by (rule reach_one [OF pool_step.got [OF assms(1) g]])
  moreover have "pool_step env ?s1 (k, Wrote (payload key v t) ok) ?s2"
    by (rule pool_step.wrote) (use assms(1) w in simp_all)
  ultimately have two: "pool_reach env s ?s2" by (rule pool_reach.step)
  have "pool_reach env ?s2 (set_client k Free (?s2\<lparr>sysPool := pool', sysNet := n'\<rparr>))"
    by (rule release_steps [of _ k "\<not> ok" c]) (use assms(1) r in simp_all)
  from pool_reach_trans [OF this two] show ?thesis
    using set_client_same [of "s\<lparr>sysPool := pool', sysNet := n'\<rparr>" k Free] assms(1)
    by (simp add: set_client_order set_conns_def client_at_def)
qed

text \<open>
  Property C25.  The sequential model of a send is a schedule of the concurrent one: whenever the
  attempt of a goroutine returns, the interleaved system can reach the same pool and network
  with that goroutine back outside and no other moved; when it panics, the process can crash.
\<close>
theorem carbon_attempt_schedule:
  assumes "client_at s k Free" "pool_wf (sysPool s) (sysNet s)"
  shows "case carbon_attempt env key v t (sysPool s, sysNet s) of
     Done (sent, (pool', n')) \<Rightarrow> pool_reach env s (s\<lparr>sysPool := pool', sysNet := n'\<rparr>)
   | Panicked p \<Rightarrow> pool_step env s (k, TimedOut) (s\<lparr>sysCrashed := True\<rparr>)
   | Hung \<Rightarrow> False"
proof (rule attempt_cases [OF assms(2), of env key v t])
  assume "\<not> ready env (sysPool s) (sysNet s)" "carbon_attempt env key v t (sysPool s, sysNet s) = Panicked NilConnPanicMsg"
  moreover have "timer_first env (gets (sysNet s)) \<or> chan_recv (Connections (sysPool s)) = None"
    using calculation(1) by (auto simp: ready_def idle_def chan_recv_def)
  ultimately show ?thesis using pool_step.timed_out [OF assms(1)] by simp
qed (use attempt_steps [OF assms(1), of env key v t] in auto)

definition drained :: pool_sys where
  "drained = pool_start (one_conn\<lparr>Connections := \<lparr>chan_buf = [], chan_cap = 1\<rparr>\<rparr>) (new_net\<lparr>dials := 1\<rparr>) 1"

theorem carbon_attempt_schedule_witness:
  "pool_step steady drained (0, TimedOut) (drained\<lparr>sysCrashed := True\<rparr>)"
proof -
  have wf: "pool_wf (sysPool drained) (sysNet drained)"
    by (simp add: drained_def pool_start_def pool_wf_def one_conn_def idle_def new_net_def)
  have "client_at drained 0 Free" by (simp add: client_at_def pool_start_def drained_def)
  moreover have "carbon_attempt steady ''a'' (Fin 1) ''0'' (sysPool drained, sysNet drained) = Panicked NilConnPanicMsg"
    by (rule attempt_timeout [OF wf]) (simp add: drained_def pool_start_def one_conn_def idle_def)
  ultimately show ?thesis
    using carbon_attempt_schedule [OF _ wf, of 0 steady "''a''" "Fin 1" "''0''"] by simp
qed

subsection \<open>A concrete pool\<close>

definition demo_pool :: ConnectionPool where
  "demo_pool = one_conn\<lparr>Timeout := 30\<rparr>"

definition demo_net :: net where
  "demo_net = new_net\<lparr>dials := 1, deadlines := [(0, 30)]\<rparr>"

lemma demo_created:
  "CreateConnectionPool broken_pipe 1 ''127.0.0.1:2003'' ConnPoolTypeTcp 30 new_net = Done (demo_pool, None, demo_net)"
  "\<forall>i \<in> set (closed new_net). i < dials new_net"
  by (simp_all add: CreateConnectionPool_def CreateConnection_def demo_pool_def demo_net_def one_conn_def new_net_def
      broken_pipe_def conn_type_def chan_send_def make_chan_def Let_def)

text \<open>The pool after a write and the dial for its replacement have failed.\<close>

definition demo_empty :: pool_sys where
  "demo_empty = \<lparr>sysPool = demo_pool\<lparr>Connections := \<lparr>chan_buf = [], chan_cap = 1\<rparr>, ErrorCount := 1\<rparr>,
     sysNet = demo_net\<lparr>gets := 1, writes := 1, wire := [(0, [])], closed := [0], dials := 2\<rparr>,
     sysClients = [Free], sysCrashed = False\<rparr>"

lemmas demo_defs = pool_start_def demo_pool_def one_conn_def demo_net_def new_net_def broken_pipe_def
  client_at_def set_client_def set_conns_def

lemma demo_reach: "pool_reach broken_pipe (pool_start demo_pool demo_net 1) demo_empty"
proof -
  let ?s0 = "pool_start demo_pool demo_net 1"
  let ?ch = "\<lparr>chan_buf = [], chan_cap = 1\<rparr>"
  let ?s1 = "set_client 0 (Using (Conn 0)) (set_conns ?ch (?s0\<lparr>sysNet := (sysNet ?s0)\<lparr>gets := gets (sysNet ?s0) + 1\<rparr>\<rparr>))"
  let ?n2 = "demo_net\<lparr>gets := 1, writes := 1, wire := [(0, [])]\<rparr>"
  let ?s2 = "set_client 0 (if False then Returning (Conn 0) else Replacing (Conn 0)) (?s1\<lparr>sysNet := ?n2\<rparr>)"
  let ?s3 = "set_client 0 (if True then Dialing else Free) (?s2\<lparr>sysNet := ?n2\<lparr>closed := [0]\<rparr>\<rparr>)"
  let ?s4 = "set_client 0 (Counting (ErrorCount (sysPool ?s3)))
     (?s3\<lparr>sysNet := (sysNet ?s3)\<lparr>dials := dials (sysNet ?s3) + 1\<rparr>\<rparr>)"
  let ?s5 = "set_client 0 Free (?s4\<lparr>sysPool := (sysPool ?s4)\<lparr>ErrorCount := ErrorCount (sysPool ?s3) + 1\<rparr>\<rparr>)"
  have "pool_step broken_pipe ?s0 (0, Got) ?s1"
    by (rule pool_step.got) (simp_all add: demo_defs chan_recv_def)
  then have "pool_reach broken_pipe ?s0 ?s1" by (rule pool_reach.step [OF pool_reach.start])
  moreover have "pool_step broken_pipe ?s1 (0, Wrote '''' False) ?s2"
    by (rule pool_step.wrote) (simp_all add: demo_defs)
  ultimately have "pool_reach broken_pipe ?s0 ?s2" by (rule pool_reach.step)
  moreover have "pool_step broken_pipe ?s2 (0, Closed True) ?s3"
    by (rule pool_step.closed_conn [where c = "Conn 0"]) (simp_all add: demo_defs)
  ultimately have "pool_reach broken_pipe ?s0 ?s3" by (rule pool_reach.step)
  moreover have "pool_step broken_pipe ?s3 (0, DialRefused) ?s4"
    by (rule pool_step.refused [where t = "''tcp''"]) (simp_all add: demo_defs conn_type_def)
  ultimately have "pool_reach broken_pipe ?s0 ?s4" by (rule pool_reach.step)
  moreover have "pool_step broken_pipe ?s4 (0, Counted) ?s5"
    by (rule pool_step.counted) (simp add: demo_defs)
  ultimately have "pool_reach broken_pipe ?s0 ?s5" by (rule pool_reach.step)
  moreover have "?s5 = demo_empty"
    by (simp add: demo_empty_def demo_defs)
  ultimately show ?thesis by simp
qed

theorem pool_accounting_witness:
  "int (length (idle (sysPool demo_empty))) + int (busy_count demo_empty) +
     int (refused_since broken_pipe (dials demo_net) demo_empty) = Size (sysPool demo_empty)"
  by (rule pool_accounting [OF demo_created demo_reach, THEN conjunct1])

theorem pool_never_empty_witness:
  "\<exists>c ch. chan_recv (Connections (sysPool (pool_start demo_pool demo_net (nat 1)))) = Some (c, ch)"
  by (rule pool_never_empty [OF demo_created pool_reach.start, of 0])
    (simp_all add: refused_since_def failed_dials_def pool_start_def demo_pool_def one_conn_def client_at_def)


end
