(* ===== verification/Signals.thy ===== *)
theory Signals
  imports Config Channel
begin

text \<open>
  The signal goroutine of \<open>statsgod/signals.go\<close>.  The runtime delivers a signal without blocking
  into a channel of capacity one, so a signal that finds it full is lost.  SIGHUP reloads the
  configuration in place, every other signal hands a message to \<open>main\<close> over the unbuffered
  \<open>finishChannel\<close>; the \<open>break\<close> after it leaves the \<open>switch\<close> only, so the goroutine goes on.
\<close>

subsection \<open>The goroutine\<close>

datatype os_signal = SIGABRT | SIGHUP | SIGINT | SIGTERM | SIGQUIT

text \<open>Waiting at the signal channel, or at the send to \<open>finishChannel\<close>, or panicked.\<close>

datatype signal_pc = Listening | Finishing | SignalPanic

record signal_state =
  signalChannel :: "os_signal chan"
  signalPc :: signal_pc
  sharedConfig :: ConfigValues
  reloads :: nat
  mainWaits :: bool  \<comment> \<open>\<open>main\<close> is at its receive from \<open>finishChannel\<close>\<close>

datatype signal_event = Raised os_signal | Lost os_signal | Reloaded | ReloadPanic | Stopping os_signal | Finished

text \<open>\<open>load k\<close> is \<open>config.LoadFile(*configFile)\<close> as the file reads at the k-th reload.\<close>

inductive signal_step ::
  "(nat \<Rightarrow> ConfigValues \<Rightarrow> (ConfigValues \<times> 'e load_error option) option) \<Rightarrow>
   signal_state \<Rightarrow> signal_event \<Rightarrow> signal_state \<Rightarrow> bool" for load where
  raised: "chan_send (signalChannel s) sg = Some c \<Longrightarrow>
    signal_step load s (Raised sg) (s\<lparr>signalChannel := c\<rparr>)"
| lost: "chan_send (signalChannel s) sg = None \<Longrightarrow> signal_step load s (Lost sg) s"
| reloaded: "signalPc s = Listening \<Longrightarrow> chan_recv (signalChannel s) = Some (SIGHUP, c) \<Longrightarrow>
    load (reloads s) (sharedConfig s) = Some (config, err) \<Longrightarrow>
    signal_step load s Reloaded (s\<lparr>signalChannel := c, sharedConfig := config, reloads := reloads s + 1\<rparr>)"
| reload_panic: "signalPc s = Listening \<Longrightarrow> chan_recv (signalChannel s) = Some (SIGHUP, c) \<Longrightarrow>
    load (reloads s) (sharedConfig s) = None \<Longrightarrow>
    signal_step load s ReloadPanic (s\<lparr>signalChannel := c, signalPc := SignalPanic\<rparr>)"
| stopping: "signalPc s = Listening \<Longrightarrow> chan_recv (signalChannel s) = Some (sg, c) \<Longrightarrow> sg \<noteq> SIGHUP \<Longrightarrow>
    signal_step load s (Stopping sg) (s\<lparr>signalChannel := c, signalPc := Finishing\<rparr>)"
| finished: "signalPc s = Finishing \<Longrightarrow> mainWaits s \<Longrightarrow>
    signal_step load s Finished (s\<lparr>signalPc := Listening, mainWaits := False\<rparr>)"

inductive signal_run ::
  "(nat \<Rightarrow> ConfigValues \<Rightarrow> (ConfigValues \<times> 'e load_error option) option) \<Rightarrow>
   signal_state \<Rightarrow> signal_event list \<Rightarrow> signal_state \<Rightarrow> bool" for load where
  none: "signal_run load s [] s"
| more: "signal_run load s es s' \<Longrightarrow> signal_step load s' e s'' \<Longrightarrow> signal_run load s (es @ [e]) s''"

definition ListenForSignals :: "ConfigValues \<Rightarrow> signal_state" where
  "ListenForSignals config =
     \<lparr>signalChannel = make_chan 1, signalPc = Listening, sharedConfig = config, reloads = 0, mainWaits = True\<rparr>"

subsection \<open>What the history of a run says\<close>

definition config_usable :: "ConfigValues \<Rightarrow> bool" where
  "config_usable c \<longleftrightarrow>
     statsPercentile c \<noteq> [] \<and> svcTokens (cfgService c) \<noteq> [] \<and> list_all host_char (svcHostname (cfgService c))"

lemma LoadFile_config_usable:
  "LoadFile readFile unmarshal os path config = Some (c, err) \<Longrightarrow> config_usable c"
  using load_usable [where readFile = readFile and unmarshal = unmarshal and os = os and path = path and config = config] by (simp add: config_usable_def list_all_iff)

text \<open>A terminating signal was raised, taken and handed over, in this order; what is still in the
  channel was raised.\<close>

definition signal_inv :: "signal_event list \<Rightarrow> signal_state \<Rightarrow> bool" where
  "signal_inv es s \<longleftrightarrow>
     length (chan_buf (signalChannel s)) \<le> 1 \<and> chan_cap (signalChannel s) = 1 \<and>
     (\<forall>sg \<in> set (chan_buf (signalChannel s)). Raised sg \<in> set es) \<and>
     (signalPc s = Finishing \<or> \<not> mainWaits s \<longrightarrow> (\<exists>sg. sg \<noteq> SIGHUP \<and> Raised sg \<in> set es)) \<and>
     length (filter (\<lambda>e. e = Reloaded) es) = reloads s \<and>
     length (filter (\<lambda>e. e = Finished) es) = (if mainWaits s then 0 else 1)"

lemma signal_inv_step: "signal_step load s e s' \<Longrightarrow> signal_inv es s \<Longrightarrow> signal_inv (es @ [e]) s'"
proof (induction rule: signal_step.induct)
  case (raised s sg c)
  then show ?case
    using go_chan.send_bound [of "signalChannel s" sg c] go_chan.send_contents [of "signalChannel s" sg c]
      go_chan.send_capacity [of "signalChannel s" sg c]
    by (auto simp: signal_inv_def)
next
  case (reloaded s c config err)
  then show ?case
    using go_chan.recv_contents [of "signalChannel s" SIGHUP c] go_chan.recv_capacity [of "signalChannel s" SIGHUP c]
    by (auto simp: signal_inv_def)
next
  case (reload_panic s c)
  then show ?case
    using go_chan.recv_contents [of "signalChannel s" SIGHUP c] go_chan.recv_capacity [of "signalChannel s" SIGHUP c]
    by (auto simp: signal_inv_def)
next
  case (stopping s sg c)
  then show ?case
    using go_chan.recv_contents [of "signalChannel s" sg c] go_chan.recv_capacity [of "signalChannel s" sg c]
    by (auto simp: signal_inv_def)
qed (auto simp: signal_inv_def)

lemma signal_inv_run: "signal_run load s es s' \<Longrightarrow> s = ListenForSignals config \<Longrightarrow> signal_inv es s'"
  by (induction rule: signal_run.induct)
    (simp add: signal_inv_def ListenForSignals_def, blast intro: signal_inv_step)

lemma signal_usable_run:
  "signal_run (\<lambda>k. LoadFile (readFile k) unmarshal os path) s es s' \<Longrightarrow> config_usable (sharedConfig s) \<Longrightarrow>
    config_usable (sharedConfig s')"
proof (induction rule: signal_run.induct)
  case (more s es s' e s'')
  have "config_usable (sharedConfig s')" by (rule more.IH [OF more.prems])
  with more.hyps(2) show ?case
    by (induction rule: signal_step.induct) (auto intro: LoadFile_config_usable)
qed simp

text \<open>
  Property C28.  Signals do what they are meant to: \<open>main\<close> is told to finish at most once, and only
  after a signal other than SIGHUP; a SIGHUP only ever reloads, and after any number of reloads,
  whatever the file holds each time, the shared configuration is usable.
\<close>
theorem ListenForSignals_safe:
  assumes "CreateConfig file0 unmarshal os path = Some (config, err)"
    and "signal_run (\<lambda>k. LoadFile (readFile k) unmarshal os path) (ListenForSignals config) es s"
  shows "length (filter (\<lambda>e. e = Finished) es) \<le> 1 \<and>
    (mainWaits s \<or> (\<exists>sg. sg \<noteq> SIGHUP \<and> Raised sg \<in> set es)) \<and>
    length (filter (\<lambda>e. e = Reloaded) es) = reloads s \<and> config_usable (sharedConfig s)"
proof -
  have "config_usable (sharedConfig (ListenForSignals config))"
    using LoadFile_config_usable [OF assms(1) [unfolded CreateConfig_def]] by (simp add: ListenForSignals_def)
  then show ?thesis
    using signal_inv_run [OF assms(2) refl] signal_usable_run [OF assms(2)] by (auto simp: signal_inv_def)
qed

text \<open>A daemon without a configuration file that is terminated.\<close>

theorem ListenForSignals_safe_witness:
  "\<exists>config s. CreateConfig (\<lambda>_. None) (\<lambda>_ c. (Some c, None :: unit option)) None ''c'' = Some (config, Some ReadError) \<and>
     signal_run (\<lambda>k. LoadFile (\<lambda>_. None) (\<lambda>_ c. (Some c, None :: unit option)) None ''c'') (ListenForSignals config)
       [Raised SIGTERM, Stopping SIGTERM, Finished] s \<and>
     \<not> mainWaits s \<and> reloads s = 0 \<and> config_usable (sharedConfig s)"
proof -
  let ?f = "\<lambda>_ :: string. None :: string option" and ?u = "\<lambda>_ :: string. \<lambda>c :: ConfigValues. (Some c, None :: unit option)"
  let ?load = "\<lambda>k :: nat. LoadFile ?f ?u None ''c''"
  obtain config where c: "CreateConfig ?f ?u None ''c'' = Some (config, Some ReadError)"
    by (simp add: CreateConfig_def LoadFile_def Let_def)
  let ?s0 = "ListenForSignals config"
  let ?s1 = "?s0\<lparr>signalChannel := (signalChannel ?s0)\<lparr>chan_buf := [SIGTERM]\<rparr>\<rparr>"
  let ?s2 = "?s1\<lparr>signalChannel := signalChannel ?s0, signalPc := Finishing\<rparr>"
  let ?s3 = "?s2\<lparr>signalPc := Listening, mainWaits := False\<rparr>"
  have "signal_step ?load ?s0 (Raised SIGTERM) ?s1"
    using signal_step.raised [of ?s0 SIGTERM "(signalChannel ?s0)\<lparr>chan_buf := [SIGTERM]\<rparr>" ?load]
    by (simp add: ListenForSignals_def chan_send_def)
  moreover have "signal_step ?load ?s1 (Stopping SIGTERM) ?s2"
    using signal_step.stopping [of ?s1 SIGTERM "signalChannel ?s0" ?load]
    by (simp add: ListenForSignals_def chan_recv_def make_chan_def)
  moreover have "signal_step ?load ?s2 Finished ?s3"
    using signal_step.finished [of ?s2 ?load] by (simp add: ListenForSignals_def)
  ultimately have run: "signal_run ?load ?s0 ((([] @ [Raised SIGTERM]) @ [Stopping SIGTERM]) @ [Finished]) ?s3"
    by (meson signal_run.intros)
  have "reloads ?s3 = 0 \<and> \<not> mainWaits ?s3" by (simp add: ListenForSignals_def)
  with ListenForSignals_safe [OF c run] c run show ?thesis
    by (intro exI [of _ config] exI [of _ ?s3]) simp
qed

end
