(* ===== verification/Daemon.thy ===== *)
theory Daemon
  imports Pool_Clients Socket_Facts Authentication Signals
begin

text \<open>
  \<open>main\<close> in \<open>statsgod.go\<close>: what it sets up before it waits, the opening of the sockets by the
  goroutines it starts for them, and what it does when it is told to finish.  The goroutines are
  composed in \<open>System\<close> and \<open>Program\<close>.
\<close>

subsection \<open>Setting up\<close>

text \<open>The sockets that the configuration enables; the others stay nil.\<close>

definition start_socket :: "bool \<Rightarrow> int \<Rightarrow> string \<Rightarrow> Socket option outcome" where
  "start_socket enabled ty addr =
     (if enabled then
        (case CreateSocket ty addr of Done s \<Rightarrow> Done (Some s) | Panicked p \<Rightarrow> Panicked p | Hung \<Rightarrow> Hung)
      else Done None)"

record main_sockets =
  mainTcp :: "Socket option"
  mainUdp :: "Socket option"
  mainUnix :: "Socket option"

definition host_port :: "string \<Rightarrow> int \<Rightarrow> string" where
  "host_port host port = host @ '':'' @ itoa port"

definition start_sockets :: "ConfigValues \<Rightarrow> main_sockets outcome" where
  "start_sockets config =
     (case start_socket (tcpEnabled (cfgTcp config)) SocketTypeTcp
             (host_port (tcpHost (cfgTcp config)) (tcpPort (cfgTcp config))) of
        Done tcp \<Rightarrow>
          (case start_socket (udpEnabled (cfgUdp config)) SocketTypeUdp
                  (host_port (udpHost (cfgUdp config)) (udpPort (cfgUdp config))) of
             Done udp \<Rightarrow>
               (case start_socket (unixEnabled (cfgUnix config)) SocketTypeUnix (unixFile (cfgUnix config)) of
                  Done unix \<Rightarrow> Done \<lparr>mainTcp = tcp, mainUdp = udp, mainUnix = unix\<rparr>
                | Panicked p \<Rightarrow> Panicked p | Hung \<Rightarrow> Hung)
           | Panicked p \<Rightarrow> Panicked p | Hung \<Rightarrow> Hung)
      | Panicked p \<Rightarrow> Panicked p | Hung \<Rightarrow> Hung)"

text \<open>What the goroutines are started with: the relay and its pool, the authenticator, the number of
  relay goroutines, and the sockets.\<close>

record started =
  stRelay :: MetricRelay
  stPool :: "ConnectionPool option"
  stAuth :: Auth
  stWorkers :: nat
  stSockets :: main_sockets
  stNet :: net

definition main_start :: "net_env \<Rightarrow> ConfigValues \<Rightarrow> net \<Rightarrow> started outcome" where
  "main_start env config n =
     (case CreateRelay env config n of
        Done (relay, pool, n') \<Rightarrow>
          (case start_sockets config of
             Done sockets \<Rightarrow>
               Done \<lparr>stRelay = relay, stPool = pool, stAuth = CreateAuth config,
                 stWorkers = nat (relayConcurrency (cfgRelay config)), stSockets = sockets, stNet = n'\<rparr>
           | Panicked p \<Rightarrow> Panicked p | Hung \<Rightarrow> Hung)
      | Panicked p \<Rightarrow> Panicked p
      | Hung \<Rightarrow> Hung)"

subsection \<open>Listening\<close>

text \<open>
  \<open>go socket.Listen(...)\<close> for each socket that was made: up to its loop the goroutine opens the
  listener, or panics and takes the process with it.  The three goroutines come to this in any order.
\<close>

datatype socket_kind = TcpKind | UdpKind | UnixKind

fun main_socket :: "socket_kind \<Rightarrow> main_sockets \<Rightarrow> Socket option" where
  "main_socket TcpKind s = mainTcp s"
| "main_socket UdpKind s = mainUdp s"
| "main_socket UnixKind s = mainUnix s"

fun set_main_socket :: "socket_kind \<Rightarrow> Socket \<Rightarrow> main_sockets \<Rightarrow> main_sockets" where
  "set_main_socket TcpKind l s = s\<lparr>mainTcp := Some l\<rparr>"
| "set_main_socket UdpKind l s = s\<lparr>mainUdp := Some l\<rparr>"
| "set_main_socket UnixKind l s = s\<lparr>mainUnix := Some l\<rparr>"

definition main_listen ::
  "(string \<Rightarrow> string \<Rightarrow> bool) \<Rightarrow> socket_kind \<Rightarrow> main_sockets \<times> os_state \<Rightarrow> (main_sockets \<times> os_state) outcome" where
  "main_listen bind k st =
     (case st of (sockets, os) \<Rightarrow>
      (case main_socket k sockets of
         None \<Rightarrow> Done (sockets, os)
       | Some l \<Rightarrow>
           (case open_socket bind l os of
              Done (l', os') \<Rightarrow> Done (set_main_socket k l' sockets, os')
            | Panicked p \<Rightarrow> Panicked p | Hung \<Rightarrow> Hung)))"

fun listen_all ::
  "(string \<Rightarrow> string \<Rightarrow> bool) \<Rightarrow> socket_kind list \<Rightarrow> main_sockets \<times> os_state \<Rightarrow> (main_sockets \<times> os_state) outcome" where
  "listen_all bind [] st = Done st"
| "listen_all bind (k # ks) st =
     (case main_listen bind k st of
        Done st' \<Rightarrow> listen_all bind ks st' | Panicked p \<Rightarrow> Panicked p | Hung \<Rightarrow> Hung)"

text \<open>The daemon once its sockets listen, opened in the order \<open>ks\<close>.\<close>

definition main_up ::
  "net_env \<Rightarrow> (string \<Rightarrow> string \<Rightarrow> bool) \<Rightarrow> socket_kind list \<Rightarrow> ConfigValues \<Rightarrow> net \<Rightarrow> os_state \<Rightarrow> (started \<times> os_state) outcome" where
  "main_up env bind ks config n os =
     (case main_start env config n of
        Done st \<Rightarrow>
          (case listen_all bind ks (stSockets st, os) of
             Done (sockets, os') \<Rightarrow> Done (st\<lparr>stSockets := sockets\<rparr>, os')
           | Panicked p \<Rightarrow> Panicked p | Hung \<Rightarrow> Hung)
      | Panicked p \<Rightarrow> Panicked p
      | Hung \<Rightarrow> Hung)"

subsection \<open>Finishing\<close>

text \<open>
  The sockets are closed by the flags of the shared configuration as it is now, which a reload
  may have changed since the sockets were made; a method call on a nil \<open>Socket\<close> panics.
\<close>

definition close_if :: "(os_state \<Rightarrow> os_state outcome) \<Rightarrow> bool \<Rightarrow> Socket option \<Rightarrow> os_state \<Rightarrow> os_state outcome" where
  "close_if nilUdp enabled sock os =
     (if enabled then (case sock of None \<Rightarrow> Panicked nil_listener_panic | Some s \<Rightarrow> Close_socket nilUdp s os)
      else Done os)"

definition main_finish ::
  "(os_state \<Rightarrow> os_state outcome) \<Rightarrow> ConfigValues \<Rightarrow> main_sockets \<Rightarrow> os_state \<Rightarrow> os_state outcome" where
  "main_finish nilUdp config sockets os =
     (case close_if nilUdp (tcpEnabled (cfgTcp config)) (mainTcp sockets) os of
        Done os1 \<Rightarrow>
          (case close_if nilUdp (udpEnabled (cfgUdp config)) (mainUdp sockets) os1 of
             Done os2 \<Rightarrow> close_if nilUdp (unixEnabled (cfgUnix config)) (mainUnix sockets) os2
           | Panicked p \<Rightarrow> Panicked p | Hung \<Rightarrow> Hung)
      | Panicked p \<Rightarrow> Panicked p | Hung \<Rightarrow> Hung)"

subsection \<open>Starting is safe\<close>

lemma CreateSocket_ok:
  "CreateSocket SocketTypeTcp addr = Done (SocketTcp \<lparr>sockAddr = addr, sockListener = None\<rparr>)"
  "CreateSocket SocketTypeUdp addr = Done (SocketUdp \<lparr>sockAddr = addr, sockListener = None\<rparr>)"
  "CreateSocket SocketTypeUnix addr = Done (SocketUnix \<lparr>sockAddr = addr, sockListener = None\<rparr>)"
  by (simp_all add: CreateSocket_def Let_def SocketTypeUdp_def SocketTypeTcp_def SocketTypeUnix_def)

lemma start_sockets_ok:
  "\<exists>sockets. start_sockets config = Done sockets \<and>
    (mainTcp sockets \<noteq> None \<longleftrightarrow> tcpEnabled (cfgTcp config)) \<and>
    (mainUdp sockets \<noteq> None \<longleftrightarrow> udpEnabled (cfgUdp config)) \<and>
    (mainUnix sockets \<noteq> None \<longleftrightarrow> unixEnabled (cfgUnix config))"
  by (simp add: start_sockets_def start_socket_def CreateSocket_ok)

lemma create_relay_cases:
  assumes "relayType (cfgRelay config) = RelayTypeCarbon" "0 \<le> relayConcurrency (cfgRelay config)"
    and "\<forall>i \<in> set (closed n). i < dials n"
  shows "(\<exists>p. CreateRelay env config n = Panicked p) \<longleftrightarrow>
    failed_dials env ''tcp'' (host_port (carbonHost config) (carbonPort config)) (dials n)
      (nat (relayConcurrency (cfgRelay config))) \<noteq> 0"
proof -
  have ty: "conn_type ConnPoolTypeTcp = Some ''tcp''" by (simp add: conn_type_def)
  obtain pool n' where c: "CreateConnectionPool env (relayConcurrency (cfgRelay config))
      (host_port (carbonHost config) (carbonPort config)) ConnPoolTypeTcp (relayTimeout (cfgRelay config)) n =
    Done (pool, if failed_dials env ''tcp'' (host_port (carbonHost config) (carbonPort config)) (dials n)
        (nat (relayConcurrency (cfgRelay config))) = 0 then None
      else Some (ConnectionsFailed (int (failed_dials env ''tcp'' (host_port (carbonHost config) (carbonPort config))
        (dials n) (nat (relayConcurrency (cfgRelay config)))))), n')"
    using create_pool [OF assms(2) ty assms(3)] by blast
  show ?thesis
    using c assms(1) unfolding host_port_def by (simp add: CreateRelay_def Let_def split: if_splits)
qed

lemma create_relay_connects:
  "CreateRelay env config n = Done (relay, Some pool, n') \<Longrightarrow>
    CreateConnectionPool env (relayConcurrency (cfgRelay config)) (carbonHost config @ '':'' @ itoa (carbonPort config))
      ConnPoolTypeTcp (relayTimeout (cfgRelay config)) n = Done (pool, None, n')"
  by (auto simp: CreateRelay_def Let_def split: if_splits outcome.splits prod.splits option.splits)

lemma create_relay_pool:
  assumes "CreateRelay env config n = Done (relay, Some pool, n')" "\<forall>i \<in> set (closed n). i < dials n"
  shows "pool_wf pool n' \<and> int (length (idle pool)) = relayConcurrency (cfgRelay config)"
  using created_pool [OF create_relay_connects [OF assms(1)] assms(2)] by simp

lemma create_relay_returns:
  assumes "\<forall>i \<in> set (closed n). i < dials n"
  shows "CreateRelay env config n \<noteq> Hung"
proof (cases "relayType (cfgRelay config) = RelayTypeCarbon \<and> 0 \<le> relayConcurrency (cfgRelay config)")
  case True
  then have carbon: "relayType (cfgRelay config) = RelayTypeCarbon" "0 \<le> relayConcurrency (cfgRelay config)" by auto
  have ty: "conn_type ConnPoolTypeTcp = Some ''tcp''" by (simp add: conn_type_def)
  show ?thesis
    using create_pool [OF carbon(2) ty assms, of env "carbonHost config @ '':'' @ itoa (carbonPort config)"
        "relayTimeout (cfgRelay config)"] carbon(1)
    by (auto simp: CreateRelay_def Let_def split: option.splits)
qed (auto simp: CreateRelay_def CreateConnectionPool_def Let_def)

text \<open>No relay: one of carbon's \<open>concurrency\<close> connections cannot be made, or their number is negative.\<close>

definition no_backend :: "net_env \<Rightarrow> ConfigValues \<Rightarrow> net \<Rightarrow> bool" where
  "no_backend env config n \<longleftrightarrow> relayType (cfgRelay config) = RelayTypeCarbon \<and>
     (relayConcurrency (cfgRelay config) < 0 \<or>
      failed_dials env ''tcp'' (host_port (carbonHost config) (carbonPort config)) (dials n)
        (nat (relayConcurrency (cfgRelay config))) \<noteq> 0)"

lemma create_relay_panics_iff:
  assumes "\<forall>i \<in> set (closed n). i < dials n"
  shows "(\<exists>p. CreateRelay env config n = Panicked p) \<longleftrightarrow> no_backend env config n"
proof (cases "relayType (cfgRelay config) = RelayTypeCarbon")
  case True
  show ?thesis
  proof (cases "relayConcurrency (cfgRelay config) < 0")
    case neg: True
    then show ?thesis using True by (simp add: no_backend_def CreateRelay_def CreateConnectionPool_def Let_def)
  next
    case False
    then show ?thesis using create_relay_cases [OF True _ assms, of env] True by (simp add: no_backend_def)
  qed
qed (simp add: no_backend_def CreateRelay_def)

lemma main_start_cases:
  assumes "\<forall>i \<in> set (closed n). i < dials n"
  obtains (panics) p where "no_backend env config n" "main_start env config n = Panicked p"
    | (starts) st where "\<not> no_backend env config n" "main_start env config n = Done st"
      "start_sockets config = Done (stSockets st)"
      "case stPool st of Some pool \<Rightarrow> pool_wf pool (stNet st) \<and> length (idle pool) = stWorkers st | None \<Rightarrow> True"
proof (cases "CreateRelay env config n")
  case (Done r)
  obtain relay pool n' where r: "r = (relay, pool, n')" by (cases r)
  have pool: "pool_wf p n' \<and> int (length (idle p)) = relayConcurrency (cfgRelay config)" if "pool = Some p" for p
    using create_relay_pool [OF _ assms] Done r that by blast
  obtain sockets where s: "start_sockets config = Done sockets" using start_sockets_ok by blast
  have "\<not> no_backend env config n" using create_relay_panics_iff [OF assms, of env config] Done by auto
  then show ?thesis
    by (rule starts) (use Done r s pool in \<open>auto simp: main_start_def split: option.splits\<close>)
next
  case (Panicked p)
  then show ?thesis using panics [of p] create_relay_panics_iff [OF assms, of env config] by (auto simp: main_start_def)
next
  case Hung
  then show ?thesis using create_relay_returns [OF assms] by simp
qed

text \<open>What the configuration says of a kind of socket.\<close>

fun kind_enabled :: "socket_kind \<Rightarrow> ConfigValues \<Rightarrow> bool" where
  "kind_enabled TcpKind config = tcpEnabled (cfgTcp config)"
| "kind_enabled UdpKind config = udpEnabled (cfgUdp config)"
| "kind_enabled UnixKind config = unixEnabled (cfgUnix config)"

fun kind_address :: "socket_kind \<Rightarrow> ConfigValues \<Rightarrow> string" where
  "kind_address TcpKind config = host_port (tcpHost (cfgTcp config)) (tcpPort (cfgTcp config))"
| "kind_address UdpKind config = host_port (udpHost (cfgUdp config)) (udpPort (cfgUdp config))"
| "kind_address UnixKind config = unixFile (cfgUnix config)"

fun kind_network :: "socket_kind \<Rightarrow> string" where
  "kind_network TcpKind = ''tcp''"
| "kind_network UdpKind = ''udp''"
| "kind_network UnixKind = ''unix''"

definition listens_ok :: "(string \<Rightarrow> string \<Rightarrow> bool) \<Rightarrow> ConfigValues \<Rightarrow> socket_kind \<Rightarrow> bool" where
  "listens_ok bind config k \<longleftrightarrow> kind_address k config \<noteq> [] \<and> bind (kind_network k) (kind_address k config)"

text \<open>A socket while some of the goroutines have opened theirs: \<open>opened\<close> holds their kinds.\<close>

definition socket_ok :: "ConfigValues \<Rightarrow> os_state \<Rightarrow> socket_kind set \<Rightarrow> main_sockets \<Rightarrow> socket_kind \<Rightarrow> bool" where
  "socket_ok config os opened sockets k \<longleftrightarrow>
     (case main_socket k sockets of
        None \<Rightarrow> \<not> kind_enabled k config
      | Some l \<Rightarrow> kind_enabled k config \<and>
          (if k \<in> opened then SocketIsActive l \<and> set_option (sockListener (sock_of l)) \<subseteq> set (osOpen os)
           else \<forall>bind os'. if listens_ok bind config k then (\<exists>l' os''. open_socket bind l os' = Done (l', os''))
                          else (\<exists>p. open_socket bind l os' = Panicked p)))"

lemma main_socket_set [simp]: "main_socket k (set_main_socket k' l s) = (if k = k' then Some l else main_socket k s)"
  by (cases k; cases k') simp_all

lemma host_port_not_Nil [simp]: "host_port h p \<noteq> []"
  by (simp add: host_port_def)

lemma start_sockets_made: "start_sockets config = Done sockets \<Longrightarrow> socket_ok config os {} sockets k"
  by (cases k)
    (auto simp: socket_ok_def listens_ok_def start_sockets_def start_socket_def CreateSocket_ok open_defs net_listen_def
      split: if_splits)

lemma main_listen_cases:
  assumes "\<forall>k. socket_ok config os opened sockets k" "k \<notin> opened"
  shows "case main_listen bind k (sockets, os) of
     Done (sockets', os') \<Rightarrow> (kind_enabled k config \<longrightarrow> listens_ok bind config k) \<and> osUmask os' = osUmask os \<and>
       (\<forall>j. socket_ok config os' (insert k opened) sockets' j)
   | Panicked p \<Rightarrow> kind_enabled k config \<and> \<not> listens_ok bind config k
   | Hung \<Rightarrow> False"
proof (cases "main_socket k sockets")
  case None
  then have "\<not> kind_enabled k config" using assms(1) by (auto simp: socket_ok_def dest: spec [of _ k])
  moreover have "socket_ok config os (insert k opened) sockets j" for j
    using assms(1) [rule_format, of j] None by (cases "j = k") (auto simp: socket_ok_def split: option.splits)
  ultimately show ?thesis using None by (auto simp: main_listen_def)
next
  case (Some l)
  then have l: "kind_enabled k config" "if listens_ok bind config k then (\<exists>l' os''. open_socket bind l os = Done (l', os''))
      else (\<exists>p. open_socket bind l os = Panicked p)"
    using assms by (auto simp: socket_ok_def dest!: spec [of _ k])
  show ?thesis
  proof (cases "listens_ok bind config k")
    case True
    then obtain l' os' where o: "open_socket bind l os = Done (l', os')" using l(2) by auto
    have new: "SocketIsActive l'" "osUmask os' = osUmask os" "osOpen os' = osNext os # osOpen os"
      "sockListener (sock_of l') = Some (osNext os)"
      using any_socket.open_active [OF o] open_socket_os [OF o] by simp_all
    have "socket_ok config os' (insert k opened) (set_main_socket k l' sockets) j" for j
      using assms(1) [rule_format, of j] new l(1) by (cases "j = k") (auto simp: socket_ok_def split: option.splits if_splits)
    then show ?thesis using Some o True new(2) by (auto simp: main_listen_def)
  next
    case False
    then show ?thesis using Some l by (auto simp: main_listen_def)
  qed
qed

lemma listen_all_cases:
  assumes "\<forall>k. socket_ok config os opened sockets k" "distinct ks" "set ks \<inter> opened = {}"
  shows "case listen_all bind ks (sockets, os) of
     Done (sockets', os') \<Rightarrow> (\<forall>k \<in> set ks. kind_enabled k config \<longrightarrow> listens_ok bind config k) \<and> osUmask os' = osUmask os \<and>
       (\<forall>j. socket_ok config os' (set ks \<union> opened) sockets' j)
   | Panicked p \<Rightarrow> (\<exists>k \<in> set ks. kind_enabled k config \<and> \<not> listens_ok bind config k)
   | Hung \<Rightarrow> False"
  using assms
proof (induction ks arbitrary: sockets os opened)
  case (Cons k ks)
  have one: "case main_listen bind k (sockets, os) of
     Done (sockets', os') \<Rightarrow> (kind_enabled k config \<longrightarrow> listens_ok bind config k) \<and> osUmask os' = osUmask os \<and>
       (\<forall>j. socket_ok config os' (insert k opened) sockets' j)
   | Panicked p \<Rightarrow> kind_enabled k config \<and> \<not> listens_ok bind config k
   | Hung \<Rightarrow> False"
    by (rule main_listen_cases) (use Cons.prems in auto)
  show ?case
  proof (cases "main_listen bind k (sockets, os)")
    case (Done r)
    obtain sockets' os' where r: "r = (sockets', os')" by (cases r)
    have "case listen_all bind ks (sockets', os') of
       Done (s', o') \<Rightarrow> (\<forall>k \<in> set ks. kind_enabled k config \<longrightarrow> listens_ok bind config k) \<and> osUmask o' = osUmask os' \<and>
         (\<forall>j. socket_ok config o' (set ks \<union> insert k opened) s' j)
     | Panicked p \<Rightarrow> (\<exists>k \<in> set ks. kind_enabled k config \<and> \<not> listens_ok bind config k)
     | Hung \<Rightarrow> False"
      by (rule Cons.IH) (use one Done r Cons.prems in auto)
    then show ?thesis using one Done r by (auto split: outcome.splits)
  qed (use one in auto)
qed simp

lemma up_cases:
  assumes "\<forall>i \<in> set (closed n). i < dials n" "distinct ks" "set ks = {TcpKind, UdpKind, UnixKind}"
  shows "case main_up env bind ks config n os of
     Done (st, os') \<Rightarrow> \<not> no_backend env config n \<and> (\<forall>k. kind_enabled k config \<longrightarrow> listens_ok bind config k) \<and>
       (case stPool st of Some pool \<Rightarrow> pool_wf pool (stNet st) \<and> length (idle pool) = stWorkers st | None \<Rightarrow> True) \<and>
       (\<forall>k. socket_ok config os' UNIV (stSockets st) k) \<and> osUmask os' = osUmask os
   | Panicked p \<Rightarrow> no_backend env config n \<or> (\<exists>k. kind_enabled k config \<and> \<not> listens_ok bind config k)
   | Hung \<Rightarrow> False"
proof (rule main_start_cases [OF assms(1), of env config])
  fix st
  assume st: "\<not> no_backend env config n" "main_start env config n = Done st" "start_sockets config = Done (stSockets st)"
    "case stPool st of Some pool \<Rightarrow> pool_wf pool (stNet st) \<and> length (idle pool) = stWorkers st | None \<Rightarrow> True"
  have all: "set ks \<union> {} = UNIV" using assms(3) by (auto intro: socket_kind.exhaust)
  have "case listen_all bind ks (stSockets st, os) of
     Done (sockets', os') \<Rightarrow> (\<forall>k \<in> set ks. kind_enabled k config \<longrightarrow> listens_ok bind config k) \<and> osUmask os' = osUmask os \<and>
       (\<forall>j. socket_ok config os' (set ks \<union> {}) sockets' j)
   | Panicked p \<Rightarrow> (\<exists>k \<in> set ks. kind_enabled k config \<and> \<not> listens_ok bind config k)
   | Hung \<Rightarrow> False"
    by (rule listen_all_cases) (use start_sockets_made [OF st(3)] assms(2) in simp_all)
  then show ?thesis unfolding all using st all by (auto simp: main_up_def split: outcome.splits option.splits)
qed (simp add: main_up_def)


lemma up_sockets:
  assumes "\<forall>i \<in> set (closed n). i < dials n" "distinct ks" "set ks = {TcpKind, UdpKind, UnixKind}"
    and "main_up env bind ks config n os = Done (st, os')"
  shows "\<forall>k. socket_ok config os' UNIV (stSockets st) k"
  using up_cases [OF assms(1-3), where env = env and bind = bind and config = config and os = os] assms(4) by simp



subsection \<open>Finishing\<close>

definition usable_socket :: "bool \<Rightarrow> Socket option \<Rightarrow> bool" where
  "usable_socket enabled sock \<longleftrightarrow> (\<not> enabled \<or> (case sock of Some s \<Rightarrow> SocketIsActive s | None \<Rightarrow> False))"

definition handle_of :: "bool \<Rightarrow> Socket option \<Rightarrow> nat set" where
  "handle_of enabled sock =
     (case sock of Some s \<Rightarrow> if enabled then set_option (sockListener (sock_of s)) else {} | None \<Rightarrow> {})"

lemma close_if_ok:
  assumes "usable_socket enabled sock"
  shows "\<exists>os'. close_if nilUdp enabled sock os = Done os' \<and>
    set (osOpen os') = set (osOpen os) - handle_of enabled sock"
proof (cases "enabled \<and> sock \<noteq> None")
  case True
  then obtain s where s: "sock = Some s" by auto
  then have "SocketIsActive s" using assms True by (simp add: usable_socket_def)
  then obtain h os' where "sockListener (sock_of s) = Some h" "Close_socket nilUdp s os = Done os'"
    using any_socket.close_active [of s nilUdp os] by (auto simp: SocketIsActive_iff)
  then show ?thesis using close_socket_os [of s h nilUdp os os'] True s by (auto simp: close_if_def handle_of_def)
next
  case False
  then show ?thesis using assms by (auto simp: close_if_def handle_of_def usable_socket_def split: option.splits)
qed

text \<open>
  Fact.  An orderly end: if every socket that the configuration enables at that moment was
  made and listens, finishing closes exactly those listeners and does not panic.
\<close>
theorem main_finish_closes:
  assumes "usable_socket (tcpEnabled (cfgTcp config)) (mainTcp sockets)"
    and "usable_socket (udpEnabled (cfgUdp config)) (mainUdp sockets)"
    and "usable_socket (unixEnabled (cfgUnix config)) (mainUnix sockets)"
  shows "\<exists>os'. main_finish nilUdp config sockets os = Done os' \<and>
    set (osOpen os') = set (osOpen os) - handle_of (tcpEnabled (cfgTcp config)) (mainTcp sockets)
      - handle_of (udpEnabled (cfgUdp config)) (mainUdp sockets)
      - handle_of (unixEnabled (cfgUnix config)) (mainUnix sockets)"
proof -
  obtain os1 where 1: "close_if nilUdp (tcpEnabled (cfgTcp config)) (mainTcp sockets) os = Done os1"
    "set (osOpen os1) = set (osOpen os) - handle_of (tcpEnabled (cfgTcp config)) (mainTcp sockets)"
    using close_if_ok [OF assms(1)] by blast
  obtain os2 where 2: "close_if nilUdp (udpEnabled (cfgUdp config)) (mainUdp sockets) os1 = Done os2"
    "set (osOpen os2) = set (osOpen os1) - handle_of (udpEnabled (cfgUdp config)) (mainUdp sockets)"
    using close_if_ok [OF assms(2)] by blast
  obtain os3 where 3: "close_if nilUdp (unixEnabled (cfgUnix config)) (mainUnix sockets) os2 = Done os3"
    "set (osOpen os3) = set (osOpen os2) - handle_of (unixEnabled (cfgUnix config)) (mainUnix sockets)"
    using close_if_ok [OF assms(3)] by blast
  show ?thesis using 1 2 3 by (auto simp: main_finish_def)
qed

definition quiet_config :: ConfigValues where
  "quiet_config = (load_defaults new_ConfigValues)
     \<lparr>cfgTcp := \<lparr>tcpEnabled = True, tcpHost = ''h'', tcpPort = 1\<rparr>,
      cfgUdp := \<lparr>udpEnabled = False, udpHost = ''h'', udpPort = 1, udpMaxpacket = 1\<rparr>,
      cfgUnix := \<lparr>unixEnabled = False, unixFile = ''f''\<rparr>\<rparr>"

theorem main_finish_closes_witness:
  "\<exists>os'. main_finish Done quiet_config
     \<lparr>mainTcp = Some (SocketTcp \<lparr>sockAddr = ''h:1'', sockListener = Some 4\<rparr>), mainUdp = None, mainUnix = None\<rparr>
     \<lparr>osUmask = 18, osFiles = [], osOpen = [4, 7], osNext = 8\<rparr> = Done os' \<and> set (osOpen os') = {7}"
  using main_finish_closes [of quiet_config
      "\<lparr>mainTcp = Some (SocketTcp \<lparr>sockAddr = ''h:1'', sockListener = Some 4\<rparr>), mainUdp = None, mainUnix = None\<rparr>"
      Done "\<lparr>osUmask = 18, osFiles = [], osOpen = [4, 7], osNext = 8\<rparr>"]
  by (auto simp: usable_socket_def handle_of_def quiet_config_def SocketIsActive_iff)

lemma usable_listening:
  assumes "socket_ok config os UNIV sockets k" "kind_enabled k config' \<longrightarrow> kind_enabled k config"
  shows "usable_socket (kind_enabled k config') (main_socket k sockets)"
  using assms by (auto simp: socket_ok_def usable_socket_def split: option.splits)

lemma close_if_nil: "close_if nilUdp True None os = Panicked nil_listener_panic"
  by (simp add: close_if_def)

lemma ex_kind: "(\<exists>k. P k) \<longleftrightarrow> P TcpKind \<or> P UdpKind \<or> P UnixKind"
proof
  assume "\<exists>k. P k"
  then obtain k where "P k" by blast
  then show "P TcpKind \<or> P UdpKind \<or> P UnixKind" by (cases k) simp_all
qed blast

lemma finish_steps:
  assumes "\<forall>k. socket_ok config os UNIV sockets k"
  shows "(\<exists>msg. main_finish nilUdp config' sockets os = Panicked msg) \<longleftrightarrow> (\<exists>k. kind_enabled k config' \<and> \<not> kind_enabled k config)"
proof -
  let ?bad = "\<lambda>k. kind_enabled k config' \<and> \<not> kind_enabled k config"
  let ?close = "\<lambda>k os'. close_if nilUdp (kind_enabled k config') (main_socket k sockets) os'"
  have bad: "?close k os' = Panicked nil_listener_panic" if "?bad k" for k os'
  proof -
    have "main_socket k sockets = None"
      using assms [rule_format, of k] that by (simp add: socket_ok_def split: option.splits)
    then show ?thesis using that close_if_nil by simp
  qed
  have good: "\<exists>os''. ?close k os' = Done os''" if "\<not> ?bad k" for k os'
  proof -
    have "usable_socket (kind_enabled k config') (main_socket k sockets)"
      by (rule usable_listening [of config os]) (use assms that in auto)
    from close_if_ok [OF this, of nilUdp os'] show ?thesis by blast
  qed
  have finish: "main_finish nilUdp config' sockets os =
      (case ?close TcpKind os of Done os1 \<Rightarrow>
         (case ?close UdpKind os1 of Done os2 \<Rightarrow> ?close UnixKind os2 | Panicked p \<Rightarrow> Panicked p | Hung \<Rightarrow> Hung)
       | Panicked p \<Rightarrow> Panicked p | Hung \<Rightarrow> Hung)"
    unfolding main_finish_def kind_enabled.simps main_socket.simps by (rule refl)
  have kinds: "(\<exists>k. ?bad k) \<longleftrightarrow> ?bad TcpKind \<or> ?bad UdpKind \<or> ?bad UnixKind"
    by (rule ex_kind)
  show ?thesis
  proof (cases "?bad TcpKind")
    case True
    then show ?thesis unfolding finish kinds bad [OF True] by simp
  next
    case tcp: False
    obtain os1 where 1: "?close TcpKind os = Done os1" using good [OF tcp] by blast
    show ?thesis
    proof (cases "?bad UdpKind")
      case True
      then show ?thesis unfolding finish kinds 1 using bad [OF True, of os1] by simp
    next
      case udp: False
      obtain os2 where 2: "?close UdpKind os1 = Done os2" using good [OF udp] by blast
      show ?thesis unfolding finish kinds 1 using 2 bad [of UnixKind os2] good [of UnixKind os2] tcp udp by auto
    qed
  qed
qed

text \<open>
  Property C30.  A reload can spoil the end.  The sockets are closed by the flags of the
  configuration at that moment: a daemon that is up panics when it is told to finish exactly when
  that configuration enables a kind of socket that was not enabled when it was started, since the
  variable of this socket is nil.  In the witness a SIGHUP that finds no readable file does it: it
  puts back the defaults, which enable all sockets.
\<close>
theorem main_finish_after_reload:
  assumes "\<forall>i \<in> set (closed n). i < dials n" "distinct ks" "set ks = {TcpKind, UdpKind, UnixKind}"
    and "main_up env bind ks config n os = Done (st, os')"
  shows "(\<exists>msg. main_finish nilUdp config' (stSockets st) os' = Panicked msg) \<longleftrightarrow>
    (\<exists>k. kind_enabled k config' \<and> \<not> kind_enabled k config)"
  by (rule finish_steps) (rule up_sockets [OF assms])

definition deaf_config :: ConfigValues where
  "deaf_config = quiet_config\<lparr>cfgTcp := \<lparr>tcpEnabled = False, tcpHost = ''h'', tcpPort = 1\<rparr>\<rparr>"

theorem main_finish_after_reload_witness:
  "\<exists>st os' config' err msg. main_up steady (\<lambda>_ _. True) [TcpKind, UdpKind, UnixKind] deaf_config new_net
       \<lparr>osUmask = 18, osFiles = [], osOpen = [], osNext = 0\<rparr> = Done (st, os') \<and>
     LoadFile (\<lambda>_. None) (\<lambda>_ c. (Some c, None :: unit option)) None ''c'' deaf_config = Some (config', err) \<and>
     main_finish Done config' (stSockets st) os' = Panicked msg"
proof -
  let ?os = "\<lparr>osUmask = 18, osFiles = [], osOpen = [], osNext = 0\<rparr>" and ?ks = "[TcpKind, UdpKind, UnixKind]"
  have n: "\<forall>i \<in> set (closed new_net). i < dials new_net" by (simp add: new_net_def)
  have ks: "distinct ?ks" "set ?ks = {TcpKind, UdpKind, UnixKind}" by simp_all
  have b: "\<not> no_backend steady deaf_config new_net"
    by (simp add: no_backend_def deaf_config_def quiet_config_def load_defaults_def failed_dials_def steady_def)
  have l: "listens_ok (\<lambda>_ _. True) deaf_config k" for k
    by (cases k) (simp_all add: listens_ok_def deaf_config_def quiet_config_def load_defaults_def)
  from up_cases [OF n ks, where env = steady and bind = "\<lambda>_ _. True" and config = deaf_config and os = ?os] b l
  obtain st os' where up: "main_up steady (\<lambda>_ _. True) ?ks deaf_config new_net ?os = Done (st, os')"
    by (auto split: outcome.splits)
  obtain config' err where c:
    "LoadFile (\<lambda>_. None) (\<lambda>_ c. (Some c, None :: unit option)) None ''c'' deaf_config = Some (config', err)"
    "kind_enabled TcpKind config'"
    by (simp add: LoadFile_def Let_def load_defaults_def)
  moreover have "\<not> kind_enabled TcpKind deaf_config" by (simp add: deaf_config_def)
  ultimately have "\<exists>k. kind_enabled k config' \<and> \<not> kind_enabled k deaf_config" by blast
  then obtain msg where "main_finish Done config' (stSockets st) os' = Panicked msg"
    using main_finish_after_reload [OF n ks up, of Done config'] by blast
  then show ?thesis using up c(1) by blast
qed

end
