(* ===== verification/System.thy ===== *)
theory System
  imports Flush_Facts Socket_Facts Signals
begin

text \<open>
  The goroutines of the daemon together: the readers of the sockets, the parse goroutine, the
  relay goroutines of \<open>RelayMetrics\<close>, reloads, and the end.  They share the two channels, the
  configuration and the quit flag of \<open>statsgod.go\<close>; the steps of \<open>Parse_Loop\<close> are used as they
  are.  A relay goroutine moves from select to select and, in a flush, from one call of \<open>Relay\<close> to
  the next; a call of \<open>Relay\<close> may return or panic at will, which covers every backend.
\<close>

subsection \<open>States\<close>

datatype worker_pc =
    AtQuit | AtReceive | AtTick
  | RelayingAll "string list" int  \<comment> \<open>keys to come, and the flush count\<close>
  | RelayingInternal "string list"
  | WorkerReturned

record worker =
  wStore :: metric_map
  wPc :: worker_pc

record sys =
  sParse :: parse_state
  sReaders :: "string list list"  \<comment> \<open>what each connection has yet to send to the parse channel\<close>
  sUdp :: "string list"  \<comment> \<open>the rest of the datagram being sent\<close>
  sWorkers :: "worker list"
  sConfig :: ConfigValues
  sOver :: bool  \<comment> \<open>the process has exited or panicked\<close>
  sInput :: "string list"  \<comment> \<open>history: the messages the readers have cut\<close>
  sRelayed :: "Metric list"  \<comment> \<open>history: the metrics whose \<open>Relay\<close> has returned\<close>

definition worker_at :: "sys \<Rightarrow> nat \<Rightarrow> worker_pc \<Rightarrow> bool" where
  "worker_at s i pc \<longleftrightarrow> \<not> sOver s \<and> i < length (sWorkers s) \<and> wPc (sWorkers s ! i) = pc"

definition store_at :: "sys \<Rightarrow> nat \<Rightarrow> metric_map" where
  "store_at s i = wStore (sWorkers s ! i)"

definition set_worker :: "nat \<Rightarrow> metric_map \<Rightarrow> worker_pc \<Rightarrow> sys \<Rightarrow> sys" where
  "set_worker i store pc s = s\<lparr>sWorkers := (sWorkers s)[i := \<lparr>wStore = store, wPc = pc\<rparr>]\<rparr>"

definition main_init :: "ConfigValues \<Rightarrow> sys" where
  "main_init config =
     \<lparr>sParse = parse_init, sReaders = [], sUdp = [],
      sWorkers = replicate (nat (relayConcurrency (cfgRelay config))) \<lparr>wStore = Map.empty, wPc = AtQuit\<rparr>,
      sConfig = config, sOver = False, sInput = [], sRelayed = []\<rparr>"

subsection \<open>Steps\<close>

text \<open>
  \<open>load\<close> relates a configuration to what a reload may make of it.  A call of \<open>Relay\<close> is one step that
  can always be taken (\<open>relay_returns\<close>, \<open>internal_returns\<close>), also where the call would panic; the
  panic is among what \<open>over\<close> stands for.  This is enough for what holds in every run.  Which calls do
  return is the subject of \<open>Relay_System\<close>, where the call is opened up.
\<close>

inductive sys_step :: "Auth \<Rightarrow> (ConfigValues \<Rightarrow> ConfigValues \<Rightarrow> bool) \<Rightarrow> sys \<Rightarrow> sys \<Rightarrow> bool" for auth load where
  connection: "\<not> sOver s \<Longrightarrow> readInput chunks = Some msgs \<Longrightarrow>
    sys_step auth load s (s\<lparr>sReaders := sReaders s @ [msgs], sInput := sInput s @ msgs\<rparr>)"
| reader_sends: "\<not> sOver s \<Longrightarrow> r < length (sReaders s) \<Longrightarrow> sReaders s ! r = msg # rest \<Longrightarrow>
    parse_step auth (sParse s) (Enqueued msg) p \<Longrightarrow>
    sys_step auth load s (s\<lparr>sReaders := (sReaders s)[r := rest], sParse := p\<rparr>)"
| datagram: "\<not> sOver s \<Longrightarrow> sUdp s = [] \<Longrightarrow> readInputUdp (sConfig s) packet = Done msgs \<Longrightarrow>
    sys_step auth load s (s\<lparr>sUdp := msgs, sInput := sInput s @ msgs\<rparr>)"
| udp_sends: "\<not> sOver s \<Longrightarrow> sUdp s = msg # rest \<Longrightarrow> parse_step auth (sParse s) (Enqueued msg) p \<Longrightarrow>
    sys_step auth load s (s\<lparr>sUdp := rest, sParse := p\<rparr>)"
| parser: "\<not> sOver s \<Longrightarrow> parse_step auth (sParse s) e p \<Longrightarrow> own_of e \<noteq> [] \<Longrightarrow>
    sys_step auth load s (s\<lparr>sParse := p\<rparr>)"
| worker_quits: "worker_at s i AtQuit \<Longrightarrow> quitFlag (sParse s) \<Longrightarrow>
    sys_step auth load s (set_worker i (store_at s i) WorkerReturned s)"
| worker_goes_on: "worker_at s i AtQuit \<Longrightarrow> \<not> quitFlag (sParse s) \<Longrightarrow>
    sys_step auth load s (set_worker i (store_at s i) AtReceive s)"
| worker_receives: "worker_at s i AtReceive \<Longrightarrow> parse_step auth (sParse s) (Dequeued m) p \<Longrightarrow>
    sys_step auth load s (set_worker i (AggregateMetric (store_at s i) m) AtTick (s\<lparr>sParse := p\<rparr>))"
| worker_idles: "worker_at s i AtReceive \<Longrightarrow> sys_step auth load s (set_worker i (store_at s i) AtTick s)"
| no_tick: "worker_at s i AtTick \<Longrightarrow> sys_step auth load s (set_worker i (store_at s i) AtQuit s)"
| tick: "worker_at s i AtTick \<Longrightarrow> store = PrepareRuntimeMetrics (store_at s i) (sConfig s) mem \<Longrightarrow>
    map_order store order \<Longrightarrow>
    sys_step auth load s (set_worker i store (RelayingAll order (int (card (dom store)))) s)"
| relay_returns: "worker_at s i (RelayingAll (key # keys) n) \<Longrightarrow> store_at s i key = Some m \<Longrightarrow>
    sys_step auth load s (set_worker i ((store_at s i)(key := None)) (RelayingAll keys n)
      (s\<lparr>sRelayed := sRelayed s @ [m\<lparr>FlushTime := now\<rparr>]\<rparr>))"
| all_relayed: "worker_at s i (RelayingAll [] n) \<Longrightarrow>
    store = PrepareFlushMetrics (store_at s i) (sConfig s) t0 t1 n \<Longrightarrow> map_order store order \<Longrightarrow>
    sys_step auth load s (set_worker i store (RelayingInternal order) s)"
| internal_returns: "worker_at s i (RelayingInternal (key # keys)) \<Longrightarrow> store_at s i key = Some m \<Longrightarrow>
    sys_step auth load s (set_worker i ((store_at s i)(key := None)) (RelayingInternal keys)
      (s\<lparr>sRelayed := sRelayed s @ [m\<lparr>FlushTime := now\<rparr>]\<rparr>))"
| flushed: "worker_at s i (RelayingInternal []) \<Longrightarrow> sys_step auth load s (set_worker i (store_at s i) AtQuit s)"
| reload: "\<not> sOver s \<Longrightarrow> load (sConfig s) config \<Longrightarrow> sys_step auth load s (s\<lparr>sConfig := config\<rparr>)"
| quit: "\<not> sOver s \<Longrightarrow> parse_step auth (sParse s) QuitSet p \<Longrightarrow> sys_step auth load s (s\<lparr>sParse := p\<rparr>)"
| over: "\<not> sOver s \<Longrightarrow> sys_step auth load s (s\<lparr>sOver := True\<rparr>)"

inductive sys_reach :: "Auth \<Rightarrow> (ConfigValues \<Rightarrow> ConfigValues \<Rightarrow> bool) \<Rightarrow> sys \<Rightarrow> sys \<Rightarrow> bool" for auth load s0 where
  start: "sys_reach auth load s0 s0"
| step: "sys_reach auth load s0 s \<Longrightarrow> sys_step auth load s s' \<Longrightarrow> sys_reach auth load s0 s'"

lemma sys_reach_rtranclp: "sys_reach auth load s t \<longleftrightarrow> (sys_step auth load)\<^sup>*\<^sup>* s t"
proof
  show "(sys_step auth load)\<^sup>*\<^sup>* s t" if "sys_reach auth load s t"
    using that by (induction rule: sys_reach.induct) (auto intro: rtranclp.rtrancl_into_rtrancl)
  show "sys_reach auth load s t" if "(sys_step auth load)\<^sup>*\<^sup>* s t"
    using that by (induction rule: rtranclp_induct) (auto intro: sys_reach.intros)
qed

subsection \<open>Samples in the system\<close>

definition message_samples :: "Auth \<Rightarrow> string list \<Rightarrow> (string \<times> f64) multiset" where
  "message_samples auth msgs = mset (map (\<lambda>m. (Key m, LastValue m)) (accepted_metrics auth msgs))"

definition metric_samples :: "Metric list \<Rightarrow> (string \<times> f64) multiset" where
  "metric_samples ms = (\<Sum>m\<leftarrow>ms. sample_mset m)"

text \<open>On the way to the stores: in the readers, the two channels and the hands of the parser.\<close>

definition parse_samples :: "Auth \<Rightarrow> parse_state \<Rightarrow> (string \<times> f64) multiset" where
  "parse_samples auth p =
     message_samples auth (chan_buf (parseChannel p)) + metric_samples (pending (parserPc p)) +
     metric_samples (chan_buf (relayChannel p))"

definition in_flight :: "Auth \<Rightarrow> sys \<Rightarrow> (string \<times> f64) multiset" where
  "in_flight auth s =
     (\<Sum>msgs\<leftarrow>sReaders s. message_samples auth msgs) + message_samples auth (sUdp s) + parse_samples auth (sParse s)"

definition stored :: "sys \<Rightarrow> (string \<times> f64) multiset" where
  "stored s = (\<Sum>w\<leftarrow>sWorkers s. store_mset (wStore w))"

definition single_sample :: "Metric \<Rightarrow> bool" where
  "single_sample m \<longleftrightarrow> AllValues m = [LastValue m]"

definition sys_ok :: "Auth \<Rightarrow> sys \<Rightarrow> bool" where
  "sys_ok auth s \<longleftrightarrow>
     message_samples auth (sInput s) = in_flight auth s + stored s + metric_samples (sRelayed s) \<and>
     (\<forall>m \<in> set (pending (parserPc (sParse s)) @ chan_buf (relayChannel (sParse s))). single_sample m) \<and>
     (\<forall>w \<in> set (sWorkers s). store_ok (wStore w)) \<and> \<not> dbgRelay (cfgDebug (sConfig s))"

lemma samples_simps [simp]:
  "message_samples auth [] = {#}"
  "message_samples auth (xs @ ys) = message_samples auth xs + message_samples auth ys"
  "metric_samples [] = {#}"
  "metric_samples (ms @ ns) = metric_samples ms + metric_samples ns"
  "metric_samples (m # ms) = sample_mset m + metric_samples ms"
  by (simp_all add: message_samples_def metric_samples_def)

lemma message_samples_Cons: "message_samples auth (m # ms) = message_samples auth [m] + message_samples auth ms"
  using samples_simps(2) [of auth "[m]" ms] by simp

lemma message_sample:
  "message_samples auth [msg] = (case accepted_metric auth msg of Some m \<Rightarrow> {#(Key m, LastValue m)#} | None \<Rightarrow> {#})"
  by (simp add: message_samples_def split: option.splits)

lemma single_sample_mset: "single_sample m \<Longrightarrow> sample_mset m = {#(Key m, LastValue m)#}"
  by (simp add: single_sample_def sample_mset_def)

lemma accepted_single: "parse_message auth msg = Accepted m \<Longrightarrow> single_sample m"
  using parse_parsed_ok
  by (auto simp: parse_message_def single_sample_def parsed_ok_def split: prod.splits option.splits if_splits)

subsection \<open>Conservation\<close>

definition parse_singles :: "parse_state \<Rightarrow> bool" where
  "parse_singles p \<longleftrightarrow> (\<forall>m \<in> set (pending (parserPc p) @ chan_buf (relayChannel p)). single_sample m)"

lemma parse_own_samples:
  "parse_step auth p e p' \<Longrightarrow> own_of e \<noteq> [] \<Longrightarrow> parse_singles p \<Longrightarrow>
    parse_samples auth p' = parse_samples auth p \<and> parse_singles p'"
proof (induction rule: parse_step.induct)
  case (accept s msg c m)
  then have "chan_buf (parseChannel s) = msg # chan_buf c" by (simp add: go_chan.recv_contents)
  moreover have "single_sample m" using accept.hyps(3) by (rule accepted_single)
  ultimately show ?case
    using accept message_sample [of auth msg]
    by (auto simp: parse_samples_def parse_singles_def message_samples_Cons [of auth msg "chan_buf c"] single_sample_mset
        accepted_metric_def ac_simps)
next
  case (reject s msg c ok err perr)
  then have "chan_buf (parseChannel s) = msg # chan_buf c" by (simp add: go_chan.recv_contents)
  then show ?case
    using reject message_sample [of auth msg]
    by (auto simp: parse_samples_def parse_singles_def message_samples_Cons [of auth msg "chan_buf c"] accepted_metric_def)
next
  case (die s msg c)
  then show ?case using parse_message_total by simp
next
  case (give s m c)
  then have "chan_buf c = chan_buf (relayChannel s) @ [m]" by (simp add: go_chan.send_contents)
  then show ?case using give by (auto simp: parse_samples_def parse_singles_def ac_simps)
qed (auto simp: parse_samples_def parse_singles_def)

lemma parse_enqueued_samples:
  "parse_step auth p (Enqueued msg) p' \<Longrightarrow> parse_singles p \<Longrightarrow>
    parse_samples auth p' = parse_samples auth p + message_samples auth [msg] \<and> parse_singles p'"
  by (cases rule: parse_step.cases)
    (auto simp: parse_samples_def parse_singles_def go_chan.send_contents ac_simps)

lemma parse_dequeued_samples:
  "parse_step auth p (Dequeued m) p' \<Longrightarrow> parse_singles p \<Longrightarrow>
    parse_samples auth p = parse_samples auth p' + {#(Key m, LastValue m)#} \<and> parse_singles p' \<and> single_sample m"
  by (erule parse_step.cases)
    (auto simp: parse_samples_def parse_singles_def single_sample_mset dest: go_chan.recv_contents)

lemma parse_quit_samples:
  "parse_step auth p QuitSet p' \<Longrightarrow> parse_samples auth p' = parse_samples auth p \<and> parse_singles p' = parse_singles p"
  by (erule parse_step.cases) (auto simp: parse_samples_def parse_singles_def)

lemma sys_ok_alt:
  "sys_ok auth s \<longleftrightarrow> message_samples auth (sInput s) = in_flight auth s + stored s + metric_samples (sRelayed s) \<and>
     parse_singles (sParse s) \<and> (\<forall>w \<in> set (sWorkers s). store_ok (wStore w)) \<and> \<not> dbgRelay (cfgDebug (sConfig s))"
  by (simp add: sys_ok_def parse_singles_def)

text \<open>A step of one relay goroutine that takes its store to \<open>st\<close>.\<close>

lemma worker_move:
  assumes "sys_ok auth s" "worker_at s i pc" "store_ok st" "parse_singles p"
    and "parse_samples auth p + store_mset st + metric_samples new =
      parse_samples auth (sParse s) + store_mset (store_at s i)"
  shows "sys_ok auth (set_worker i st pc' (s\<lparr>sParse := p, sRelayed := sRelayed s @ new\<rparr>))"
proof -
  let ?t = "set_worker i st pc' (s\<lparr>sParse := p, sRelayed := sRelayed s @ new\<rparr>)"
  have i: "i < length (sWorkers s)" using assms(2) by (simp add: worker_at_def)
  have "store_mset (store_at s i) + stored ?t = store_mset st + stored s"
    using sum_list_map_update [OF i, of "\<lambda>w. store_mset (wStore w)" "\<lparr>wStore = st, wPc = pc'\<rparr>"]
    by (simp add: stored_def set_worker_def store_at_def)
  then have "(in_flight auth ?t + stored ?t + metric_samples (sRelayed ?t)) + (parse_samples auth (sParse s) + store_mset (store_at s i)) =
      (in_flight auth s + stored s + metric_samples (sRelayed s)) + (parse_samples auth p + store_mset st + metric_samples new)"
    by (simp add: in_flight_def set_worker_def ac_simps)
  then have "in_flight auth ?t + stored ?t + metric_samples (sRelayed ?t) =
      in_flight auth s + stored s + metric_samples (sRelayed s)"
    using assms(5) by simp
  moreover have "w \<in> set (sWorkers ?t) \<Longrightarrow> store_ok (wStore w)" for w
    using assms(1,3) set_update_subset_insert [of "sWorkers s" i "\<lparr>wStore = st, wPc = pc'\<rparr>"]
    by (auto simp: sys_ok_def set_worker_def)
  ultimately show ?thesis using assms(1,4) by (auto simp: sys_ok_alt set_worker_def)
qed

lemma worker_moves:
  assumes "sys_ok auth s" "worker_at s i pc" "store_ok st" "store_mset st = store_mset (store_at s i)"
  shows "sys_ok auth (set_worker i st pc' s)"
  using worker_move [OF assms(1-3), of "sParse s" "[]" pc'] assms(1,4) by (simp add: sys_ok_alt)

lemma worker_store_ok: "sys_ok auth s \<Longrightarrow> worker_at s i pc \<Longrightarrow> store_ok (store_at s i)"
  by (simp add: sys_ok_def worker_at_def store_at_def)

lemma worker_relays:
  assumes "sys_ok auth s" "worker_at s i pc" "store_at s i key = Some m"
  shows "sys_ok auth (set_worker i ((store_at s i)(key := None)) pc' (s\<lparr>sRelayed := sRelayed s @ [m\<lparr>FlushTime := now\<rparr>]\<rparr>))"
proof -
  have ok: "store_ok (store_at s i)" by (rule worker_store_ok [OF assms(1,2)])
  then have "store_mset (store_at s i) = store_mset ((store_at s i)(key := None)) + sample_mset m"
    using assms(3) by (intro store_mset_split) (simp_all add: store_ok_def)
  moreover have "sample_mset (m\<lparr>FlushTime := now\<rparr>) = sample_mset m" by (simp add: sample_mset_def)
  moreover have "store_ok ((store_at s i)(key := None))" using ok by (auto simp: store_ok_def)
  ultimately show ?thesis
    using worker_move [OF assms(1,2), of "(store_at s i)(key := None)" "sParse s" "[m\<lparr>FlushTime := now\<rparr>]" pc'] assms(1)
    by (simp add: sys_ok_alt ac_simps)
qed

lemma reader_move:
  assumes "r < length (sReaders s)" "sReaders s ! r = msg # rest"
  shows "(\<Sum>msgs\<leftarrow>sReaders s. message_samples auth msgs) =
    (\<Sum>msgs\<leftarrow>(sReaders s)[r := rest]. message_samples auth msgs) + message_samples auth [msg]"
proof -
  have "message_samples auth (msg # rest) + (\<Sum>msgs\<leftarrow>(sReaders s)[r := rest]. message_samples auth msgs) =
      message_samples auth rest + (\<Sum>msgs\<leftarrow>sReaders s. message_samples auth msgs)"
    using sum_list_map_update [OF assms(1), of "message_samples auth" rest] assms(2) by simp
  then show ?thesis by (simp add: message_samples_Cons [of auth msg rest] ac_simps)
qed

lemma sys_ok_step:
  assumes "\<And>c c'. load c c' \<Longrightarrow> \<not> dbgRelay (cfgDebug c')"
  shows "sys_step auth load s s' \<Longrightarrow> sys_ok auth s \<Longrightarrow> sys_ok auth s'"
proof (induction rule: sys_step.induct)
  case (connection s chunks msgs)
  then show ?case by (simp add: sys_ok_alt in_flight_def stored_def ac_simps)
next
  case (reader_sends s r msg rest p)
  then have "parse_samples auth p = parse_samples auth (sParse s) + message_samples auth [msg]" "parse_singles p"
    using parse_enqueued_samples by (simp_all add: sys_ok_alt)
  then show ?case
    using reader_sends reader_move [of r s msg rest auth] by (simp add: sys_ok_alt in_flight_def stored_def ac_simps)
next
  case (datagram s packet msgs)
  then show ?case by (simp add: sys_ok_alt in_flight_def stored_def ac_simps)
next
  case (udp_sends s msg rest p)
  then have "parse_samples auth p = parse_samples auth (sParse s) + message_samples auth [msg]" "parse_singles p"
    using parse_enqueued_samples by (simp_all add: sys_ok_alt)
  then show ?case
    using udp_sends by (simp add: sys_ok_alt in_flight_def stored_def message_samples_Cons [of auth msg rest] ac_simps)
next
  case (parser s e p)
  then show ?case
    using parse_own_samples [of auth "sParse s" e p] by (simp add: sys_ok_alt in_flight_def stored_def)
next
  case (worker_receives s i m p)
  have d: "parse_samples auth (sParse s) = parse_samples auth p + {#(Key m, LastValue m)#}" "parse_singles p" "single_sample m"
    using parse_dequeued_samples [OF worker_receives.hyps(2)] worker_receives.prems by (simp_all add: sys_ok_alt)
  have a: "store_mset (AggregateMetric (store_at s i) m) = store_mset (store_at s i) + {#(Key m, LastValue m)#}"
    "store_ok (AggregateMetric (store_at s i) m)"
    using store_mset_aggregate [OF worker_store_ok [OF worker_receives.prems worker_receives.hyps(1)], of m] d(3)
    by (simp_all add: single_sample_def)
  from worker_move [OF worker_receives.prems worker_receives.hyps(1) a(2) d(2), of "[]" AtTick] d(1) a(1)
  show ?case by (simp add: ac_simps)
next
  case (tick s i store mem order)
  then have "store = store_at s i" by (simp add: PrepareRuntimeMetrics_def sys_ok_def)
  then show ?case using worker_moves [OF tick.prems tick.hyps(1)] worker_store_ok [OF tick.prems tick.hyps(1)] by simp
next
  case (all_relayed s i n store t0 t1 order)
  then have "store = store_at s i" by (simp add: PrepareFlushMetrics_def sys_ok_def)
  then show ?case
    using worker_moves [OF all_relayed.prems all_relayed.hyps(1)] worker_store_ok [OF all_relayed.prems all_relayed.hyps(1)]
    by simp
next
  case (quit s p)
  then show ?case using parse_quit_samples [OF quit.hyps(2)] by (simp add: sys_ok_alt in_flight_def stored_def)
next
  case (reload s config)
  then show ?case using assms by (simp add: sys_ok_alt in_flight_def stored_def)
next
  case (over s)
  then show ?case by (simp add: sys_ok_alt in_flight_def stored_def)
qed (blast intro: worker_moves worker_store_ok worker_relays)+

lemma sys_ok_init: "\<not> dbgRelay (cfgDebug config) \<Longrightarrow> sys_ok auth (main_init config)"
proof -
  assume d: "\<not> dbgRelay (cfgDebug config)"
  have "sum_list (replicate k (store_mset Map.empty)) = {#}" for k by (induction k) (simp_all add: store_mset_def)
  then have "stored (main_init config) = {#}" by (simp add: stored_def main_init_def)
  then show ?thesis
    using d by (auto simp: sys_ok_alt main_init_def in_flight_def parse_samples_def parse_singles_def parse_init_def store_ok_def)
qed

lemma sys_ok_reach:
  assumes "sys_reach auth load (main_init config) s" "\<not> dbgRelay (cfgDebug config)"
    and "\<And>c c'. load c c' \<Longrightarrow> \<not> dbgRelay (cfgDebug c')"
  shows "sys_ok auth s"
  using assms(1)
proof (induction rule: sys_reach.induct)
  case start
  show ?case by (rule sys_ok_init [OF assms(2)])
next
  case (step s s')
  show ?case by (rule sys_ok_step [OF assms(3) step.hyps(2) step.IH])
qed

text \<open>
  Property C2.  End to end, over every interleaving of connections, parser, relay goroutines,
  reloads and the end: the samples of the accepted messages that the sockets have cut are, each
  exactly once and under its namespace, on the way (readers, channels, parser), in the store of a
  relay goroutine, or relayed.  Nothing is ever relayed that no client sent.  The internal metrics
  are off (\<open>debug.relay\<close>), in the configuration and in all that a reload can bring.
\<close>
theorem daemon_conserves_samples:
  assumes "sys_reach auth load (main_init config) s" "\<not> dbgRelay (cfgDebug config)"
    and "\<And>c c'. load c c' \<Longrightarrow> \<not> dbgRelay (cfgDebug c')"
  shows "message_samples auth (sInput s) = in_flight auth s + stored s + metric_samples (sRelayed s) \<and>
    metric_samples (sRelayed s) \<subseteq># message_samples auth (sInput s)"
  using sys_ok_reach [OF assms] by (simp add: sys_ok_def)

text \<open>The default daemon, without authentication, after a connection has brought one message.\<close>

abbreviation quiet_start :: sys where
  "quiet_start \<equiv> main_init (load_defaults new_ConfigValues)"

definition one_message :: sys where
  "one_message = quiet_start\<lparr>sReaders := [[''a:2|g'']], sInput := [''a:2|g'']\<rparr>"

lemma plain_input: "readInput [''a:2|g'' @ [newline]] = Some [''a:2|g'']"
  by (simp add: readInput_def read_chunk_def Let_def newline_def readLength_def long_enough_def MinimumLengthMessage_def)

lemma reach_one_message: "sys_reach AuthNone (\<lambda>_ _. False) quiet_start one_message"
proof -
  have "sys_step AuthNone (\<lambda>_ _. False) quiet_start one_message"
    using sys_step.connection [of quiet_start "[''a:2|g'' @ [newline]]" "[''a:2|g'']" AuthNone "\<lambda>_ _. False"] plain_input
    by (simp add: main_init_def one_message_def)
  then show ?thesis by (rule sys_reach.step [OF sys_reach.start])
qed

lemma one_message_input: "sInput one_message = [''a:2|g'']" "message_samples AuthNone [''a:2|g''] = {#(''a'', Fin 2)#}"
  by (simp_all add: one_message_def message_sample accepted_metric_def parse_plain_gauge parsed_metric_def new_Metric_def)

theorem daemon_conserves_samples_witness:
  "{#(''a'', Fin 2)#} = in_flight AuthNone one_message + stored one_message + metric_samples (sRelayed one_message)"
  using daemon_conserves_samples [OF reach_one_message, THEN conjunct1]
  by (simp add: one_message_input load_defaults_def)

subsection \<open>No relay goroutine is ever stuck\<close>

text \<open>The keys a flush still has to visit are the keys that are still in the store.\<close>

fun keys_ok :: "metric_map \<Rightarrow> worker_pc \<Rightarrow> bool" where
  "keys_ok store (RelayingAll keys n) \<longleftrightarrow> map_order store keys"
| "keys_ok store (RelayingInternal keys) \<longleftrightarrow> map_order store keys"
| "keys_ok store pc \<longleftrightarrow> True"

definition workers_ok :: "sys \<Rightarrow> bool" where
  "workers_ok s \<longleftrightarrow> (\<forall>w \<in> set (sWorkers s). keys_ok (wStore w) (wPc w) \<and> finite (dom (wStore w)))"

lemma workers_ok_set:
  assumes "workers_ok s" "keys_ok st pc" "finite (dom st)" "sWorkers s' = sWorkers s"
  shows "workers_ok (set_worker i st pc s')"
  using assms set_update_subset_insert [of "sWorkers s" i "\<lparr>wStore = st, wPc = pc\<rparr>"]
  by (auto simp: workers_ok_def set_worker_def)

lemma worker_of: "workers_ok s \<Longrightarrow> worker_at s i pc \<Longrightarrow> keys_ok (store_at s i) pc \<and> finite (dom (store_at s i))"
  by (auto simp: workers_ok_def worker_at_def store_at_def)

lemma map_order_delete: "map_order store (key # keys) \<Longrightarrow> map_order (store(key := None)) keys"
  by (auto simp: map_order_def)

lemma finite_aggregate: "finite (dom store) \<Longrightarrow> finite (dom (AggregateMetric store m))"
  by (auto simp: AggregateMetric_def split: option.splits)

lemma finite_prepare:
  "finite (dom store) \<Longrightarrow> finite (dom (PrepareRuntimeMetrics store c mem))"
  "finite (dom store) \<Longrightarrow> finite (dom (PrepareFlushMetrics store c t0 t1 n))"
  by (auto simp: PrepareRuntimeMetrics_def PrepareFlushMetrics_def put_metric_def Let_def)

lemma workers_ok_step: "sys_step auth load s s' \<Longrightarrow> workers_ok s \<Longrightarrow> workers_ok s'"
proof (induction rule: sys_step.induct)
  case (worker_receives s i m p)
  then show ?case using worker_of [of s i AtReceive] by (auto intro!: workers_ok_set [of s] finite_aggregate)
next
  case (tick s i store mem order)
  then show ?case using worker_of [of s i AtTick] by (auto intro!: workers_ok_set [of s] finite_prepare)
next
  case (relay_returns s i key keys n m now)
  then show ?case
    using worker_of [of s i "RelayingAll (key # keys) n"] by (auto intro!: workers_ok_set [of s] map_order_delete)
next
  case (all_relayed s i n store t0 t1 order)
  then show ?case using worker_of [of s i "RelayingAll [] n"] by (auto intro!: workers_ok_set [of s] finite_prepare)
next
  case (internal_returns s i key keys m now)
  then show ?case
    using worker_of [of s i "RelayingInternal (key # keys)"] by (auto intro!: workers_ok_set [of s] map_order_delete)
next
  case (worker_quits s i)
  then show ?case using worker_of [of s i AtQuit] by (auto intro!: workers_ok_set [of s])
next
  case (worker_goes_on s i)
  then show ?case using worker_of [of s i AtQuit] by (auto intro!: workers_ok_set [of s])
next
  case (worker_idles s i)
  then show ?case using worker_of [of s i AtReceive] by (auto intro!: workers_ok_set [of s])
next
  case (no_tick s i)
  then show ?case using worker_of [of s i AtTick] by (auto intro!: workers_ok_set [of s])
next
  case (flushed s i)
  then show ?case using worker_of [of s i "RelayingInternal []"] by (auto intro!: workers_ok_set [of s])
qed (simp_all add: workers_ok_def)

lemma workers_ok_reach: "sys_reach auth load (main_init config) s \<Longrightarrow> workers_ok s"
proof (induction rule: sys_reach.induct)
  case start
  show ?case by (auto simp: workers_ok_def main_init_def)
next
  case (step s s')
  show ?case by (rule workers_ok_step [OF step.hyps(2) step.IH])
qed

text \<open>A step of the goroutine's own that takes it to another control point.\<close>

definition moves_on :: "Auth \<Rightarrow> (ConfigValues \<Rightarrow> ConfigValues \<Rightarrow> bool) \<Rightarrow> sys \<Rightarrow> nat \<Rightarrow> worker_pc \<Rightarrow> bool" where
  "moves_on auth load s i pc \<longleftrightarrow>
     (\<exists>st pc' relayed. sys_step auth load s (set_worker i st pc' (s\<lparr>sRelayed := relayed\<rparr>)) \<and> pc' \<noteq> pc)"

lemma moves_onI: "sys_step auth load s (set_worker i st pc' s) \<Longrightarrow> pc' \<noteq> pc \<Longrightarrow> moves_on auth load s i pc"
proof -
  assume "sys_step auth load s (set_worker i st pc' s)" "pc' \<noteq> pc"
  moreover have "s\<lparr>sRelayed := sRelayed s\<rparr> = s" by simp
  ultimately show ?thesis unfolding moves_on_def by metis
qed

lemma some_order: "finite (dom store) \<Longrightarrow> \<exists>order. map_order store order"
  using finite_distinct_list [of "dom store"] by (auto simp: map_order_def)

lemma relaying_moves_on:
  assumes "worker_at s i (RelayingAll keys n)" "map_order (store_at s i) keys" "finite (dom (store_at s i))"
  shows "moves_on auth load s i (RelayingAll keys n)"
proof (cases keys)
  case Nil
  obtain order where "map_order (PrepareFlushMetrics (store_at s i) (sConfig s) 0 0 n) order"
    using some_order finite_prepare(2) [OF assms(3)] by blast
  then show ?thesis
    by (intro moves_onI [OF sys_step.all_relayed [where ?t0.0 = 0 and ?t1.0 = 0 and n = n]])
      (use assms(1) Nil in simp_all)
next
  case (Cons key rest)
  then obtain m where "store_at s i key = Some m" using assms(2) by (auto simp: map_order_def)
  then have "sys_step auth load s (set_worker i ((store_at s i)(key := None)) (RelayingAll rest n)
      (s\<lparr>sRelayed := sRelayed s @ [m\<lparr>FlushTime := 0\<rparr>]\<rparr>))"
    using assms(1) Cons by (intro sys_step.relay_returns) simp_all
  moreover have "RelayingAll rest n \<noteq> RelayingAll keys n" using Cons by simp
  ultimately show ?thesis unfolding moves_on_def by blast
qed

lemma internal_moves_on:
  assumes "worker_at s i (RelayingInternal keys)" "map_order (store_at s i) keys"
  shows "moves_on auth load s i (RelayingInternal keys)"
proof (cases keys)
  case Nil
  show ?thesis by (rule moves_onI [OF sys_step.flushed]) (use assms(1) Nil in simp_all)
next
  case (Cons key rest)
  then obtain m where "store_at s i key = Some m" using assms(2) by (auto simp: map_order_def)
  then have "sys_step auth load s (set_worker i ((store_at s i)(key := None)) (RelayingInternal rest)
      (s\<lparr>sRelayed := sRelayed s @ [m\<lparr>FlushTime := 0\<rparr>]\<rparr>))"
    using assms(1) Cons by (intro sys_step.internal_returns) simp_all
  moreover have "RelayingInternal rest \<noteq> RelayingInternal keys" using Cons by simp
  ultimately show ?thesis unfolding moves_on_def by blast
qed

lemma waiting_moves_on:
  "worker_at s i AtQuit \<Longrightarrow> moves_on auth load s i AtQuit"
  "worker_at s i AtReceive \<Longrightarrow> moves_on auth load s i AtReceive"
  "worker_at s i AtTick \<Longrightarrow> moves_on auth load s i AtTick"
proof -
  show "moves_on auth load s i AtQuit" if "worker_at s i AtQuit"
    using moves_onI [OF sys_step.worker_quits [OF that]] moves_onI [OF sys_step.worker_goes_on [OF that]] by blast
  show "moves_on auth load s i AtReceive" if "worker_at s i AtReceive"
    by (rule moves_onI [OF sys_step.worker_idles [OF that]]) simp
  show "moves_on auth load s i AtTick" if "worker_at s i AtTick"
    by (rule moves_onI [OF sys_step.no_tick [OF that]]) simp
qed

text \<open>
  Fact.  No relay goroutine ever waits for another: as long as the process runs and it
  has not returned, it has a step of its own that takes it on, in every reachable state; so the
  relay channel, and with it the parser and the readers, can always be drained.
\<close>
theorem daemon_workers_proceed:
  assumes "sys_reach auth load (main_init config) s" "worker_at s i pc" "pc \<noteq> WorkerReturned"
  shows "\<exists>st pc' relayed. sys_step auth load s (set_worker i st pc' (s\<lparr>sRelayed := relayed\<rparr>)) \<and> pc' \<noteq> pc"
proof -
  have "keys_ok (store_at s i) pc" "finite (dom (store_at s i))"
    using worker_of [OF workers_ok_reach [OF assms(1)] assms(2)] by simp_all
  then have "moves_on auth load s i pc"
    using assms(2,3) by (cases pc) (auto intro: waiting_moves_on relaying_moves_on internal_moves_on)
  then show ?thesis by (simp add: moves_on_def)
qed

theorem daemon_workers_proceed_witness:
  "\<exists>st pc' relayed. sys_step AuthNone (\<lambda>_ _. False) (main_init (load_defaults new_ConfigValues))
     (set_worker 0 st pc' ((main_init (load_defaults new_ConfigValues))\<lparr>sRelayed := relayed\<rparr>)) \<and> pc' \<noteq> AtQuit"
  by (rule daemon_workers_proceed [OF sys_reach.start])
    (simp_all add: worker_at_def main_init_def load_defaults_def)

end
