(* ===== verification/Flush_Schedule.thy ===== *)
theory Flush_Schedule
  imports System
begin

text \<open>
  The two views of a relay goroutine agree: an iteration of the loop as \<open>Flush\<close> computes it is one
  schedule of the goroutine in \<open>System\<close>, with the same store and the same metrics relayed at its end.
\<close>

lemma set_worker_simps:
  assumes "i < length (sWorkers s)"
  shows "worker_at (set_worker i store pc s) i pc' \<longleftrightarrow> \<not> sOver s \<and> pc' = pc"
    "store_at (set_worker i store pc s) i = store"
    "sParse (set_worker i store pc s) = sParse s" "sConfig (set_worker i store pc s) = sConfig s"
    "sRelayed (set_worker i store pc s) = sRelayed s"
    "set_worker i store' pc' (set_worker i store pc s) = set_worker i store' pc' s"
  using assms by (auto simp: set_worker_def worker_at_def store_at_def)

lemma set_worker_update:
  "(set_worker i store pc s)\<lparr>sRelayed := r\<rparr> = set_worker i store pc (s\<lparr>sRelayed := r\<rparr>)"
  by (simp add: set_worker_def)

lemma reach_trans:
  "sys_reach auth load t u \<Longrightarrow> sys_reach auth load s t \<Longrightarrow> sys_reach auth load s u"
  by (induction rule: sys_reach.induct) (auto intro: sys_reach.step)

lemma reach_single: "sys_step auth load s t \<Longrightarrow> sys_reach auth load s t"
  by (blast intro: sys_reach.intros)

text \<open>A relay loop that returns, as steps of the goroutine: one for each key.  \<open>pc\<close> is the control
  point for the keys to come.\<close>

lemma relay_loop_steps:
  assumes "relay_loop (logged relay) clock k keys store (st, sRelayed s) = Done (store', (st', relayed'))"
    and "distinct keys" "set keys \<subseteq> dom store" "\<not> sOver s" "i < length (sWorkers s)"
    and "\<And>key ks now m t. worker_at t i (pc (key # ks)) \<Longrightarrow> store_at t i key = Some m \<Longrightarrow>
      sys_step auth load t (set_worker i ((store_at t i)(key := None)) (pc ks)
        (t\<lparr>sRelayed := sRelayed t @ [m\<lparr>FlushTime := now\<rparr>]\<rparr>))"
  shows "sys_reach auth load (set_worker i store (pc keys) s)
    (set_worker i store' (pc []) (s\<lparr>sRelayed := relayed'\<rparr>))"
  using assms(1-5)
proof (induction keys arbitrary: k store st s)
  case Nil
  then have "store' = store" "s\<lparr>sRelayed := relayed'\<rparr> = s" by auto
  then show ?case by (simp add: sys_reach.start)
next
  case (Cons key keys)
  obtain m where m: "store key = Some m" using Cons.prems(3) by auto
  obtain b st1 where r: "relay (m\<lparr>FlushTime := clock k\<rparr>) st = Done (b, st1)"
    using Cons.prems(1) m by (auto split: outcome.splits)
  let ?s1 = "s\<lparr>sRelayed := sRelayed s @ [m\<lparr>FlushTime := clock k\<rparr>]\<rparr>"
  have "relay_loop (logged relay) clock (Suc k) keys (store(key := None)) (st1, sRelayed ?s1) = Done (store', (st', relayed'))"
    using Cons.prems(1) m r by simp
  then have "sys_reach auth load (set_worker i (store(key := None)) (pc keys) ?s1)
      (set_worker i store' (pc []) (?s1\<lparr>sRelayed := relayed'\<rparr>))"
    by (rule Cons.IH) (use Cons.prems(2-5) in auto)
  moreover have "sys_step auth load (set_worker i store (pc (key # keys)) s)
      (set_worker i (store(key := None)) (pc keys) ?s1)"
    using assms(6) [of "set_worker i store (pc (key # keys)) s" key keys m "clock k"] m Cons.prems(4,5)
    by (simp add: set_worker_simps set_worker_update)
  ultimately show ?case using reach_trans reach_single by fastforce
qed

lemma dom_map_order: "map_order store order \<Longrightarrow> distinct order \<and> set order \<subseteq> dom store"
  by (simp add: map_order_def)

text \<open>A whole flush, from the tick to the next test of the quit flag.\<close>

lemma flush_steps:
  assumes "flush_cycle (logged relay) inp store (st, sRelayed s) = Done (store', (st', relayed'))"
    and "fiConfig inp = sConfig s" "\<not> sOver s" "i < length (sWorkers s)"
    and "m1 = PrepareRuntimeMetrics store (sConfig s) (fiMem inp)" "map_order m1 (fiOrder inp)"
    and "map_order (PrepareFlushMetrics Map.empty (sConfig s) (fiStart inp) (fiStop inp) (int (card (dom m1)))) (fiOrder2 inp)"
  shows "sys_reach auth load (set_worker i store AtTick s) (set_worker i store' AtQuit (s\<lparr>sRelayed := relayed'\<rparr>))"
proof -
  let ?n = "int (card (dom m1))"
  obtain m2 st2 r2 where r2: "RelayAllMetrics (logged relay) (fiClock inp) (fiOrder inp) m1 (st, sRelayed s) = Done (m2, (st2, r2))"
    using assms(1,2,5) by (auto simp: flush_cycle_def Let_def split: outcome.splits prod.splits)
  have o1: "distinct (fiOrder inp)" "set (fiOrder inp) \<subseteq> dom m1" "set (fiOrder inp) = dom m1"
    using assms(6) by (auto simp: map_order_def)
  have "m2 = m1 |` (- set (fiOrder inp))"
    by (rule conjunct1 [OF relay_loop_log [OF r2 [unfolded RelayAllMetrics_def] o1(1,2)]])
  then have m2: "m2 = Map.empty" using o1(3) by (auto simp: restrict_map_def fun_eq_iff)
  let ?m3 = "PrepareFlushMetrics Map.empty (sConfig s) (fiStart inp) (fiStop inp) ?n" and ?s2 = "s\<lparr>sRelayed := r2\<rparr>"
  have o2: "distinct (fiOrder2 inp)" "set (fiOrder2 inp) \<subseteq> dom ?m3" using assms(7) by (auto simp: map_order_def)
  have second: "RelayAllMetrics (logged relay) (fiClock2 inp) (fiOrder2 inp) ?m3 (st2, r2) = Done (store', (st', relayed'))"
    using assms(1,2,5) r2 m2 by (simp add: flush_cycle_def Let_def)
  note w = set_worker_simps [OF assms(4)]
  have "sys_step auth load (set_worker i store AtTick s) (set_worker i m1 (RelayingAll (fiOrder inp) ?n) s)"
    using sys_step.tick [of "set_worker i store AtTick s" i m1 "fiMem inp" "fiOrder inp" auth load] assms(3,5,6)
    by (simp add: w)
  moreover have "sys_reach auth load (set_worker i m1 (RelayingAll (fiOrder inp) ?n) s)
      (set_worker i m2 (RelayingAll [] ?n) ?s2)"
    using relay_loop_steps [where pc = "\<lambda>ks. RelayingAll ks ?n", OF r2 [unfolded RelayAllMetrics_def] o1(1,2) assms(3,4)]
      sys_step.relay_returns by blast
  moreover have "sys_step auth load (set_worker i m2 (RelayingAll [] ?n) ?s2) (set_worker i ?m3 (RelayingInternal (fiOrder2 inp)) ?s2)"
    using sys_step.all_relayed [of "set_worker i m2 (RelayingAll [] ?n) ?s2" i ?n ?m3 "fiStart inp" "fiStop inp"
        "fiOrder2 inp" auth load] assms(3,4,7) m2
    by (simp add: set_worker_simps)
  moreover have "sys_reach auth load (set_worker i ?m3 (RelayingInternal (fiOrder2 inp)) ?s2)
      (set_worker i store' (RelayingInternal []) (?s2\<lparr>sRelayed := relayed'\<rparr>))"
    using relay_loop_steps [where pc = RelayingInternal and s = ?s2, OF _ o2, of relay "fiClock2 inp" 0 st2 store' st' relayed']
      second sys_step.internal_returns assms(3,4) by (simp add: RelayAllMetrics_def)
  moreover have "sys_step auth load (set_worker i store' (RelayingInternal []) (?s2\<lparr>sRelayed := relayed'\<rparr>))
      (set_worker i store' AtQuit (?s2\<lparr>sRelayed := relayed'\<rparr>))"
    using sys_step.flushed [of "set_worker i store' (RelayingInternal []) (?s2\<lparr>sRelayed := relayed'\<rparr>)" i auth load]
      assms(3,4) by (simp add: set_worker_simps)
  ultimately have "sys_reach auth load (set_worker i store AtTick s) (set_worker i store' AtQuit (?s2\<lparr>sRelayed := relayed'\<rparr>))"
    by (meson reach_single reach_trans)
  then show ?thesis by simp
qed

text \<open>
  Property C26.  The loop of \<open>RelayMetrics\<close> as a function is one schedule of the relay goroutine among the
  others: an iteration that returns, with what it received from the channel, with or without a
  tick, leads from one test of the quit flag to the next, and leaves the same store and the same
  metrics relayed.
\<close>
theorem relay_iteration_schedule:
  assumes "worker_at s i AtQuit" "\<not> quitFlag (sParse s)"
    and "case received of Some m \<Rightarrow> parse_step auth (sParse s) (Dequeued m) p | None \<Rightarrow> p = sParse s"
    and "relay_iteration (logged relay) received inp (store_at s i) (st, sRelayed s) = Done (store', (st', relayed'))"
    and "m0 = (case received of Some m \<Rightarrow> AggregateMetric (store_at s i) m | None \<Rightarrow> store_at s i)"
    and "case inp of None \<Rightarrow> True | Some fi \<Rightarrow> fiConfig fi = sConfig s \<and>
      (let m1 = PrepareRuntimeMetrics m0 (sConfig s) (fiMem fi) in map_order m1 (fiOrder fi) \<and>
        map_order (PrepareFlushMetrics Map.empty (sConfig s) (fiStart fi) (fiStop fi) (int (card (dom m1)))) (fiOrder2 fi))"
  shows "sys_reach auth load s (set_worker i store' AtQuit (s\<lparr>sParse := p, sRelayed := relayed'\<rparr>))"
proof -
  let ?s1 = "s\<lparr>sParse := p\<rparr>"
  have i: "\<not> sOver s" "i < length (sWorkers s)" using assms(1) by (auto simp: worker_at_def)
  have "sys_step auth load s (set_worker i (store_at s i) AtReceive s)"
    using assms(1,2) by (rule sys_step.worker_goes_on)
  moreover have "sys_step auth load (set_worker i (store_at s i) AtReceive s) (set_worker i m0 AtTick ?s1)"
  proof (cases received)
    case None
    then show ?thesis
      using sys_step.worker_idles [of "set_worker i (store_at s i) AtReceive s" i auth load] assms(3,5) i
      by (simp add: set_worker_simps)
  next
    case (Some m)
    then show ?thesis
      using sys_step.worker_receives [of "set_worker i (store_at s i) AtReceive s" i auth m p load] assms(3,5) i
      by (simp add: set_worker_simps) (simp add: set_worker_def)
  qed
  moreover have "sys_reach auth load (set_worker i m0 AtTick ?s1) (set_worker i store' AtQuit (?s1\<lparr>sRelayed := relayed'\<rparr>))"
  proof (cases inp)
    case None
    then have "store' = m0" "relayed' = sRelayed s"
      using assms(4,5) by (auto simp: relay_iteration_def Let_def)
    moreover have "sys_step auth load (set_worker i m0 AtTick ?s1) (set_worker i m0 AtQuit ?s1)"
      using sys_step.no_tick [of "set_worker i m0 AtTick ?s1" i auth load] i by (simp add: set_worker_simps)
    ultimately show ?thesis by (simp add: reach_single)
  next
    case (Some fi)
    then show ?thesis
      using flush_steps [of relay fi m0 st ?s1 store' st' relayed' i _ auth load] assms(4,5,6) i
      by (simp add: relay_iteration_def Let_def)
  qed
  ultimately have "sys_reach auth load s (set_worker i store' AtQuit (?s1\<lparr>sRelayed := relayed'\<rparr>))"
    by (meson reach_single reach_trans)
  then show ?thesis by simp
qed

definition gauge_a :: Metric where
  "gauge_a = CreateSimpleMetric ''a'' (Fin 1) MetricTypeGauge"

definition waiting_sys :: sys where
  "waiting_sys = (main_init (load_defaults new_ConfigValues))
     \<lparr>sParse := parse_init\<lparr>relayChannel := \<lparr>chan_buf = [gauge_a], chan_cap = 1\<rparr>\<rparr>\<rparr>"

theorem relay_iteration_schedule_witness:
  "\<exists>p. sys_reach AuthNone (\<lambda>_ _. False) waiting_sys
     (set_worker 0 Map.empty AtQuit (waiting_sys\<lparr>sParse := p, sRelayed := [gauge_a\<lparr>FlushTime := 7\<rparr>]\<rparr>))"
proof -
  let ?r = "MockRelay_Relay \<lparr>mockFlushInterval = 0, mockPercentile = []\<rparr>"
  let ?fi = "one_tick\<lparr>fiConfig := load_defaults new_ConfigValues\<rparr>"
  let ?p = "parse_init\<lparr>relayChannel := \<lparr>chan_buf = [], chan_cap = 1\<rparr>\<rparr>"
  have w: "worker_at waiting_sys 0 AtQuit" "store_at waiting_sys 0 = Map.empty" "sRelayed waiting_sys = []"
    "sConfig waiting_sys = load_defaults new_ConfigValues" "\<not> quitFlag (sParse waiting_sys)"
    by (simp_all add: worker_at_def store_at_def waiting_sys_def main_init_def load_defaults_def parse_init_def)
  have deq: "parse_step AuthNone (sParse waiting_sys) (Dequeued gauge_a) ?p"
    using parse_step.dequeue [of "sParse waiting_sys" gauge_a "\<lparr>chan_buf = [], chan_cap = 1\<rparr>" AuthNone]
    by (simp add: waiting_sys_def chan_recv_def)
  obtain x where x: "ProcessMetric (gauge_a\<lparr>FlushTime := 7\<rparr>) 0 [] = Some x"
    using process_gauge [of "gauge_a\<lparr>FlushTime := 7\<rparr>"] by (auto simp: gauge_a_def CreateSimpleMetric_def)
  have cfg: "\<not> dbgRelay (cfgDebug (load_defaults new_ConfigValues))" by (simp add: load_defaults_def)
  have k: "Key gauge_a = ''a''" by (simp add: gauge_a_def CreateSimpleMetric_def)
  have run: "relay_iteration (logged ?r) (Some gauge_a) (Some ?fi) (store_at waiting_sys 0) (((one_conn, new_net)), sRelayed waiting_sys) =
      Done (Map.empty, ((one_conn, new_net), [gauge_a\<lparr>FlushTime := 7\<rparr>]))"
    using x cfg k
    by (simp add: relay_iteration_def flush_cycle_def Let_def w one_tick_def AggregateMetric_def PrepareRuntimeMetrics_def
        PrepareFlushMetrics_def RelayAllMetrics_def MockRelay_Relay_def)
  show ?thesis
    using relay_iteration_schedule [where auth = AuthNone and p = ?p and load = "\<lambda>_ _. False", OF w(1,5) _ run refl] deq cfg k w
    by (auto simp: Let_def one_tick_def PrepareRuntimeMetrics_def PrepareFlushMetrics_def AggregateMetric_def map_order_def)
qed

end
