(* ===== verification/Delivery.thy ===== *)
theory Delivery
  imports System
begin

text \<open>
  What the system of goroutines can still do: from every state it can reach before the quit flag is
  set, its channels can be drained and its stores flushed (\<open>can_deliver\<close>).  \<open>System\<close> lets every call
  of \<open>Relay\<close> return; \<open>Wire_Delivery\<close> takes the schedule down to the real calls, which can panic, and
  states the property of the program.  Once the flag is set, this is over: what a relay goroutine
  has in its store when it comes to the test of the flag stays there.
\<close>

subsection \<open>Running states\<close>

definition parse_alive :: "parse_state \<Rightarrow> bool" where
  "parse_alive p \<longleftrightarrow> parserPc p \<noteq> Dead \<and> (\<not> quitFlag p \<longrightarrow> parserPc p \<noteq> Returned) \<and>
     0 < chan_cap (parseChannel p) \<and> 0 < chan_cap (relayChannel p)"

definition alive :: "sys \<Rightarrow> bool" where
  "alive s \<longleftrightarrow> parse_alive (sParse s) \<and> workers_ok s \<and> sWorkers s \<noteq> [] \<and>
     (\<not> quitFlag (sParse s) \<longrightarrow> (\<forall>w \<in> set (sWorkers s). wPc w \<noteq> WorkerReturned))"

lemma parse_alive_step: "parse_step auth p e p' \<Longrightarrow> parse_alive p \<Longrightarrow> parse_alive p' \<and> (quitFlag p' \<longleftrightarrow> quitFlag p \<or> e = QuitSet)"
proof (induction rule: parse_step.induct)
  case (die s msg c)
  then show ?case using parse_message_total by simp
qed (auto simp: parse_alive_def dest: go_chan.send_capacity go_chan.recv_capacity)

lemma workers_set:
  "w \<in> set (sWorkers (set_worker i st pc s)) \<Longrightarrow> w = \<lparr>wStore = st, wPc = pc\<rparr> \<or> w \<in> set (sWorkers s)"
  using set_update_subset_insert [of "sWorkers s" i "\<lparr>wStore = st, wPc = pc\<rparr>"] by (auto simp: set_worker_def)

lemma alive_step: "sys_step auth load s s' \<Longrightarrow> alive s \<Longrightarrow> alive s'"
proof -
  assume step: "sys_step auth load s s'" and "alive s"
  then have "workers_ok s'" using workers_ok_step by (auto simp: alive_def)
  moreover have "parse_alive (sParse s') \<and> sWorkers s' \<noteq> [] \<and>
      (\<not> quitFlag (sParse s') \<longrightarrow> (\<forall>w \<in> set (sWorkers s'). wPc w \<noteq> WorkerReturned))"
    using step \<open>alive s\<close>
    by (induction rule: sys_step.induct)
      (auto simp: alive_def worker_at_def set_worker_def dest!: parse_alive_step set_update_subset_insert [THEN subsetD])
  ultimately show ?thesis by (simp add: alive_def)
qed

lemma alive_init: "0 < relayConcurrency (cfgRelay config) \<Longrightarrow> alive (main_init config)"
  by (auto simp: alive_def parse_alive_def main_init_def parse_init_def workers_ok_def MaxReqs_def)

lemma alive_reach:
  assumes "sys_reach auth load (main_init config) s" "0 < relayConcurrency (cfgRelay config)"
  shows "alive s"
  using assms(1)
proof (induction rule: sys_reach.induct)
  case start
  show ?case by (rule alive_init [OF assms(2)])
next
  case (step s s')
  show ?case by (rule alive_step [OF step.hyps(2) step.IH])
qed

text \<open>A way on that neither ends the process nor takes in new messages.\<close>

definition going :: "sys \<Rightarrow> bool" where
  "going s \<longleftrightarrow> alive s \<and> \<not> sOver s \<and> \<not> quitFlag (sParse s)"

definition leads :: "Auth \<Rightarrow> (ConfigValues \<Rightarrow> ConfigValues \<Rightarrow> bool) \<Rightarrow> sys \<Rightarrow> sys \<Rightarrow> bool" where
  "leads auth load s s' \<longleftrightarrow> sys_reach auth load s s' \<and> going s' \<and> sInput s' = sInput s"

lemma sys_reach_trans: "sys_reach auth load b c \<Longrightarrow> sys_reach auth load a b \<Longrightarrow> sys_reach auth load a c"
  by (induction rule: sys_reach.induct) (auto intro: sys_reach.step)

lemma leads_refl: "going s \<Longrightarrow> leads auth load s s"
  by (simp add: leads_def sys_reach.start)

lemma leads_trans: "leads auth load a b \<Longrightarrow> leads auth load b c \<Longrightarrow> leads auth load a c"
  by (auto simp: leads_def intro: sys_reach_trans)

lemma leads_step:
  "sys_step auth load s s' \<Longrightarrow> going s \<Longrightarrow> \<not> sOver s' \<Longrightarrow> \<not> quitFlag (sParse s') \<Longrightarrow> sInput s' = sInput s \<Longrightarrow>
    leads auth load s s'"
  using alive_step [of auth load s s'] by (auto simp: leads_def going_def intro: sys_reach.step sys_reach.start)

subsection \<open>A goroutine flushes its store\<close>

text \<open>Goroutine \<open>i\<close> at another point, with another store, and more metrics relayed.\<close>

definition moved :: "nat \<Rightarrow> metric_map \<Rightarrow> worker_pc \<Rightarrow> Metric list \<Rightarrow> sys \<Rightarrow> sys" where
  "moved i st pc new s = set_worker i st pc (s\<lparr>sRelayed := sRelayed s @ new\<rparr>)"

lemma moved_simps [simp]:
  "sOver (moved i st pc new s) = sOver s" "sParse (moved i st pc new s) = sParse s"
  "sInput (moved i st pc new s) = sInput s" "sConfig (moved i st pc new s) = sConfig s"
  "sReaders (moved i st pc new s) = sReaders s" "sUdp (moved i st pc new s) = sUdp s"
  "sRelayed (moved i st pc new s) = sRelayed s @ new"
  "length (sWorkers (moved i st pc new s)) = length (sWorkers s)"
  "moved i st' pc' new' (moved i st pc new s) = moved i st' pc' (new @ new') s"
  by (simp_all add: moved_def set_worker_def)

lemma moved_at [simp]:
  "worker_at s i pc \<Longrightarrow> worker_at (moved i st' pc' new s) i pc'' \<longleftrightarrow> pc'' = pc'"
  "worker_at s i pc \<Longrightarrow> store_at (moved i st' pc' new s) i = st'"
  by (auto simp: moved_def set_worker_def worker_at_def store_at_def)

lemma set_worker_moved: "set_worker i st pc s = moved i st pc [] s"
  by (simp add: moved_def)

lemma leads_moved: "sys_step auth load s (moved i st pc new s) \<Longrightarrow> going s \<Longrightarrow> leads auth load s (moved i st pc new s)"
  by (rule leads_step) (simp_all add: going_def)

lemma leads_moved_trans:
  assumes "sys_step auth load s (moved i st pc new s)" "going s" "worker_at s i pc0"
    and "\<And>t. going t \<Longrightarrow> worker_at t i pc \<Longrightarrow> \<exists>new'. leads auth load t (moved i st' pc' new' t)"
  shows "\<exists>new'. leads auth load s (moved i st' pc' new' s)"
proof -
  have one: "leads auth load s (moved i st pc new s)" by (rule leads_moved [OF assms(1,2)])
  then have "going (moved i st pc new s)" by (simp add: leads_def)
  then obtain new' where "leads auth load (moved i st pc new s) (moved i st' pc' new' (moved i st pc new s))"
    using assms(4) moved_at(1) [OF assms(3)] by blast
  from leads_trans [OF one this] show ?thesis by auto
qed

lemma going_worker: "going s \<Longrightarrow> worker_at s i pc \<Longrightarrow> keys_ok (store_at s i) pc \<and> finite (dom (store_at s i))"
  using worker_of by (auto simp: going_def alive_def)

lemma internal_ends:
  "going s \<Longrightarrow> worker_at s i (RelayingInternal keys) \<Longrightarrow> \<exists>new. leads auth load s (moved i Map.empty AtQuit new s)"
proof (induction keys arbitrary: s)
  case Nil
  then have "store_at s i = Map.empty" using going_worker [OF Nil] by (simp add: map_order_def flip: dom_eq_empty_conv)
  then have "sys_step auth load s (moved i Map.empty AtQuit [] s)"
    using sys_step.flushed [OF Nil(2)] by (simp add: set_worker_moved)
  then show ?case using leads_moved Nil(1) by blast
next
  case (Cons key keys)
  then obtain m where m: "store_at s i key = Some m" using going_worker [OF Cons.prems] by (auto simp: map_order_def)
  have "sys_step auth load s (moved i ((store_at s i)(key := None)) (RelayingInternal keys) [m\<lparr>FlushTime := 0\<rparr>] s)"
    unfolding moved_def by (rule sys_step.internal_returns [OF Cons.prems(2) m])
  then show ?case by (rule leads_moved_trans [OF _ Cons.prems]) (rule Cons.IH)
qed

lemma flush_ends:
  "going s \<Longrightarrow> worker_at s i (RelayingAll keys n) \<Longrightarrow> \<exists>new. leads auth load s (moved i Map.empty AtQuit new s)"
proof (induction keys arbitrary: s)
  case Nil
  let ?st = "PrepareFlushMetrics (store_at s i) (sConfig s) 0 0 n"
  obtain order where "map_order ?st order"
    using some_order finite_prepare(2) going_worker [OF Nil] by blast
  from sys_step.all_relayed [OF Nil(2) refl this, of auth load]
  have "sys_step auth load s (moved i ?st (RelayingInternal order) [] s)" by (simp add: set_worker_moved)
  then show ?case
    by (rule leads_moved_trans [OF _ Nil]) (rule internal_ends)
next
  case (Cons key keys)
  then obtain m where m: "store_at s i key = Some m" using going_worker [OF Cons.prems] by (auto simp: map_order_def)
  have "sys_step auth load s (moved i ((store_at s i)(key := None)) (RelayingAll keys n) [m\<lparr>FlushTime := 0\<rparr>] s)"
    unfolding moved_def by (rule sys_step.relay_returns [OF Cons.prems(2) m])
  then show ?case by (rule leads_moved_trans [OF _ Cons.prems]) (rule Cons.IH)
qed

lemma tick_ends: "going s \<Longrightarrow> worker_at s i AtTick \<Longrightarrow> \<exists>new. leads auth load s (moved i Map.empty AtQuit new s)"
proof -
  assume g: "going s" and w: "worker_at s i AtTick"
  let ?st = "PrepareRuntimeMetrics (store_at s i) (sConfig s) undefined"
  obtain order where "map_order ?st order"
    using some_order finite_prepare(1) going_worker [OF g w] by blast
  from sys_step.tick [OF w refl this, of auth load]
  have "sys_step auth load s (moved i ?st (RelayingAll order (int (card (dom ?st)))) [] s)" by (simp add: set_worker_moved)
  then show ?thesis by (rule leads_moved_trans [OF _ g w]) (rule flush_ends)
qed

lemma receive_ends: "going s \<Longrightarrow> worker_at s i AtReceive \<Longrightarrow> \<exists>new. leads auth load s (moved i Map.empty AtQuit new s)"
proof -
  assume g: "going s" and w: "worker_at s i AtReceive"
  show ?thesis by (rule leads_moved_trans [OF sys_step.worker_idles [OF w, unfolded set_worker_moved] g w]) (rule tick_ends)
qed

lemma quit_ends: "going s \<Longrightarrow> worker_at s i AtQuit \<Longrightarrow> \<exists>new. leads auth load s (moved i Map.empty AtQuit new s)"
proof -
  assume g: "going s" and w: "worker_at s i AtQuit"
  then have "\<not> quitFlag (sParse s)" by (simp add: going_def)
  from sys_step.worker_goes_on [OF w this, unfolded set_worker_moved]
  show ?thesis by (rule leads_moved_trans [OF _ g w]) (rule receive_ends)
qed

lemma worker_flushes:
  assumes "going s" "i < length (sWorkers s)"
  shows "\<exists>new. leads auth load s (moved i Map.empty AtQuit new s)"
proof -
  have at: "worker_at s i (wPc (sWorkers s ! i))" using assms by (simp add: worker_at_def going_def)
  moreover have "wPc (sWorkers s ! i) \<noteq> WorkerReturned" using assms by (auto simp: going_def alive_def)
  ultimately show ?thesis
    using assms(1) by (cases "wPc (sWorkers s ! i)")
      (simp_all add: internal_ends flush_ends tick_ends receive_ends quit_ends)
qed

subsection \<open>The channels drain\<close>

fun parser_weight :: "parser_pc \<Rightarrow> nat" where
  "parser_weight (Sending m) = 3"
| "parser_weight Testing = 1"
| "parser_weight pc = 0"

text \<open>How far what is in flight is from the stores.\<close>

definition way :: "sys \<Rightarrow> nat" where
  "way s = 5 * (\<Sum>msgs\<leftarrow>sReaders s. length msgs) + 5 * length (sUdp s) + 4 * length (chan_buf (parseChannel (sParse s))) +
     parser_weight (parserPc (sParse s)) + length (chan_buf (relayChannel (sParse s)))"

lemma way_moved [simp]: "way (moved i st pc new s) = way s"
  by (simp add: way_def)

lemma leads_way:
  "sys_step auth load s s' \<Longrightarrow> going s \<Longrightarrow> \<not> sOver s' \<Longrightarrow> \<not> quitFlag (sParse s') \<Longrightarrow> sInput s' = sInput s \<Longrightarrow>
    way s' < way s \<Longrightarrow> \<exists>s'. leads auth load s s' \<and> way s' < way s"
  using leads_step by blast

lemma relay_drains:
  assumes "going s" "chan_buf (relayChannel (sParse s)) \<noteq> []"
  shows "\<exists>s'. leads auth load s s' \<and> way s' < way s"
proof -
  have "0 < length (sWorkers s)" using assms(1) by (simp add: going_def alive_def)
  then obtain new where one: "leads auth load s (moved 0 Map.empty AtQuit new s)" using worker_flushes [OF assms(1)] by blast
  let ?a = "moved 0 Map.empty AtQuit new s"
  let ?b = "moved 0 Map.empty AtReceive new s"
  have at: "worker_at ?a 0 AtQuit" "worker_at ?b 0 AtReceive" "store_at ?a 0 = Map.empty" "store_at ?b 0 = Map.empty"
    using assms(1) \<open>0 < length (sWorkers s)\<close>
    by (simp_all add: moved_def worker_at_def set_worker_def store_at_def going_def)
  have "sys_step auth load ?a ?b"
    using sys_step.worker_goes_on [OF at(1), of auth load] assms(1) at(3) by (simp add: going_def set_worker_moved)
  then have two: "leads auth load ?a ?b" using one by (intro leads_step) (auto simp: leads_def going_def)
  obtain m ch where recv: "chan_recv (relayChannel (sParse s)) = Some (m, ch)"
    using assms(2) go_chan.recv_empty by fastforce
  let ?p = "(sParse s)\<lparr>relayChannel := ch\<rparr>"
  let ?c = "set_worker 0 (AggregateMetric Map.empty m) AtTick (?b\<lparr>sParse := ?p\<rparr>)"
  have "parse_step auth (sParse ?b) (Dequeued m) ?p" using parse_step.dequeue [OF recv] by simp
  from sys_step.worker_receives [OF at(2) this, of load] at(4) have "sys_step auth load ?b ?c" by simp
  then have "leads auth load ?b ?c"
    using two assms(1) by (intro leads_step) (auto simp: leads_def going_def set_worker_def)
  moreover have "way ?c < way s"
    using go_chan.recv_contents [OF recv] by (simp add: way_def set_worker_def)
  ultimately show ?thesis using leads_trans [OF leads_trans [OF one two]] by blast
qed

lemma parser_drains:
  assumes "going s" "chan_buf (relayChannel (sParse s)) = []"
    and "parserPc (sParse s) \<noteq> Selecting \<or> chan_buf (parseChannel (sParse s)) \<noteq> []"
  shows "\<exists>s'. leads auth load s s' \<and> way s' < way s"
proof -
  have by_step: "\<exists>s'. leads auth load s s' \<and> way s' < way s"
    if "parse_step auth (sParse s) e p" "own_of e \<noteq> []" "way (s\<lparr>sParse := p\<rparr>) < way s" for e p
  proof -
    have "\<not> quitFlag p" "\<not> sOver s" using parse_alive_step [OF that(1)] that(2) assms(1) by (auto simp: going_def alive_def)
    then show ?thesis using leads_way [OF sys_step.parser [OF _ that(1,2)] assms(1)] that(3) by simp
  qed
  show ?thesis
  proof (cases "parserPc (sParse s)")
    case (Sending m)
    have "0 < chan_cap (relayChannel (sParse s))" using assms(1) by (simp add: going_def alive_def parse_alive_def)
    then obtain ch where ch: "chan_send (relayChannel (sParse s)) m = Some ch" using assms(2) by (simp add: chan_send_def)
    from by_step [OF parse_step.give [OF Sending ch]] show ?thesis
      using go_chan.send_contents [OF ch] assms(2) Sending by (simp add: way_def)
  next
    case Testing
    have "\<not> quitFlag (sParse s)" using assms(1) by (simp add: going_def)
    from by_step [OF parse_step.again [OF Testing this]] show ?thesis using Testing by (simp add: way_def)
  next
    case Selecting
    then obtain msg ch where recv: "chan_recv (parseChannel (sParse s)) = Some (msg, ch)"
      using assms(3) go_chan.recv_empty by fastforce
    have buf: "chan_buf (parseChannel (sParse s)) = msg # chan_buf ch" by (rule go_chan.recv_contents [OF recv])
    show ?thesis
    proof (cases "parse_message auth msg")
      case (Accepted m)
      from by_step [OF parse_step.accept [OF Selecting recv this]] show ?thesis using buf Selecting by (simp add: way_def)
    next
      case (AuthRejected ok err)
      from by_step [OF parse_step.reject [OF Selecting recv disjI1 [OF this]]] show ?thesis
        using buf Selecting by (simp add: way_def)
    next
      case (MetricRejected err)
      from by_step [OF parse_step.reject [OF Selecting recv disjI2 [OF this]]] show ?thesis
        using buf Selecting by (simp add: way_def)
    next
      case ParsePanic
      then show ?thesis using parse_message_total by simp
    qed
  qed (use assms(1) in \<open>auto simp: going_def alive_def parse_alive_def\<close>)
qed

lemma readers_drain:
  assumes "going s" "chan_buf (parseChannel (sParse s)) = []" "(\<exists>msgs \<in> set (sReaders s). msgs \<noteq> []) \<or> sUdp s \<noteq> []"
  shows "\<exists>s'. leads auth load s s' \<and> way s' < way s"
proof -
  have "0 < chan_cap (parseChannel (sParse s))" using assms(1) by (simp add: going_def alive_def parse_alive_def)
  then have send: "chan_send (parseChannel (sParse s)) msg =
      Some ((parseChannel (sParse s))\<lparr>chan_buf := [msg]\<rparr>)" for msg
    using assms(2) by (simp add: chan_send_def)
  let ?p = "\<lambda>msg. (sParse s)\<lparr>parseChannel := (parseChannel (sParse s))\<lparr>chan_buf := [msg]\<rparr>\<rparr>"
  have enq: "parse_step auth (sParse s) (Enqueued msg) (?p msg)" for msg by (rule parse_step.enqueue [OF send])
  have on: "\<not> sOver s" "\<not> quitFlag (sParse s)" using assms(1) by (simp_all add: going_def)
  show ?thesis
  proof (cases "sUdp s")
    case (Cons msg rest)
    show ?thesis
      by (rule leads_way [OF sys_step.udp_sends [OF on(1) Cons enq] assms(1)])
        (use on Cons assms(2) in \<open>simp_all add: way_def\<close>)
  next
    case Nil
    then obtain r msg rest where r: "r < length (sReaders s)" "sReaders s ! r = msg # rest"
      using assms(3) by (auto simp: in_set_conv_nth neq_Nil_conv)
    have "length (msg # rest) + (\<Sum>msgs\<leftarrow>(sReaders s)[r := rest]. length msgs) = length rest + (\<Sum>msgs\<leftarrow>sReaders s. length msgs)"
      using sum_list_map_update [OF r(1), of length rest] r(2) by simp
    then show ?thesis
      by (intro leads_way [OF sys_step.reader_sends [OF on(1) r enq] assms(1)])
        (use on assms(2) in \<open>simp_all add: way_def\<close>)
  qed
qed

lemma nothing_in_flight:
  assumes "chan_buf (relayChannel (sParse s)) = []" "parserPc (sParse s) = Selecting"
    and "chan_buf (parseChannel (sParse s)) = []" "\<forall>msgs \<in> set (sReaders s). msgs = []" "sUdp s = []"
  shows "in_flight auth s = {#}"
proof -
  have "map (message_samples auth) (sReaders s) = map (\<lambda>_. {#}) (sReaders s)"
    using assms(4) by (intro map_cong) auto
  then show ?thesis using assms by (simp add: in_flight_def parse_samples_def del: map_eq_conv)
qed

lemma drains: "going s \<Longrightarrow> \<exists>s'. leads auth load s s' \<and> in_flight auth s' = {#}"
proof (induction "way s" arbitrary: s rule: less_induct)
  case less
  show ?case
  proof (cases "\<exists>s'. leads auth load s s' \<and> way s' < way s")
    case True
    then obtain s' where s': "leads auth load s s'" "way s' < way s" by blast
    then obtain t where "leads auth load s' t" "in_flight auth t = {#}"
      using less.hyps [of s'] by (auto simp: leads_def)
    then show ?thesis using leads_trans [OF s'(1)] by blast
  next
    case False
    then have "in_flight auth s = {#}"
      using relay_drains [OF less.prems] parser_drains [OF less.prems] readers_drain [OF less.prems]
      by (intro nothing_in_flight) blast+
    then show ?thesis using leads_refl [OF less.prems] by blast
  qed
qed

subsection \<open>Every store can be flushed\<close>

lemma in_flight_moved [simp]: "in_flight auth (moved i st pc new s) = in_flight auth s"
  by (simp add: in_flight_def)

lemma stores_flush:
  assumes "going s" "k \<le> length (sWorkers s)"
  shows "\<exists>s'. leads auth load s s' \<and> in_flight auth s' = in_flight auth s \<and> length (sWorkers s') = length (sWorkers s) \<and>
    (\<forall>i < k. wStore (sWorkers s' ! i) = Map.empty)"
  using assms(2)
proof (induction k)
  case 0
  then show ?case using leads_refl [OF assms(1)] by blast
next
  case (Suc k)
  then obtain s' where s': "leads auth load s s'" "in_flight auth s' = in_flight auth s"
    "length (sWorkers s') = length (sWorkers s)" "\<forall>i < k. wStore (sWorkers s' ! i) = Map.empty"
    by auto
  have "going s'" "k < length (sWorkers s')" using s'(1,3) Suc.prems by (simp_all add: leads_def)
  then obtain new where m: "leads auth load s' (moved k Map.empty AtQuit new s')" using worker_flushes by blast
  have "wStore (sWorkers (moved k Map.empty AtQuit new s') ! i) = Map.empty" if "i < Suc k" for i
    using that s'(3,4) Suc.prems by (cases "i = k") (auto simp: moved_def set_worker_def)
  then show ?case
    using leads_trans [OF s'(1) m] s'(2,3) by (intro exI [of _ "moved k Map.empty AtQuit new s'"]) simp
qed

lemma can_deliver:
  assumes "going s"
  shows "\<exists>s'. leads auth load s s' \<and> in_flight auth s' = {#} \<and> stored s' = {#}"
proof -
  obtain t where t: "leads auth load s t" "in_flight auth t = {#}" using drains [OF assms] by blast
  have "going t" using t(1) by (simp add: leads_def)
  from stores_flush [OF this order_refl] t(2) obtain s' where s': "leads auth load t s'" "in_flight auth s' = {#}"
    "\<forall>i < length (sWorkers s'). wStore (sWorkers s' ! i) = Map.empty"
    by metis
  then have "map (\<lambda>w. store_mset (wStore w)) (sWorkers s') = map (\<lambda>_. {#}) (sWorkers s')"
    by (intro nth_equalityI) (simp_all add: store_mset_def)
  then have "stored s' = {#}" by (simp add: stored_def del: map_eq_conv)
  then show ?thesis using leads_trans [OF t(1) s'(1)] s'(2) by blast
qed

subsection \<open>After the end of the relay goroutines\<close>

text \<open>A goroutine past its last tick: it is at the test of the quit flag, or has left its loop.\<close>

definition leaving :: "worker_pc \<Rightarrow> bool" where
  "leaving pc \<longleftrightarrow> pc = AtQuit \<or> pc = WorkerReturned"

lemma leaving_step:
  "sys_step auth load s s' \<Longrightarrow> quitFlag (sParse s) \<Longrightarrow>
    quitFlag (sParse s') \<and> length (sWorkers s') = length (sWorkers s) \<and>
    (\<forall>i < length (sWorkers s). leaving (wPc (sWorkers s ! i)) \<longrightarrow>
      leaving (wPc (sWorkers s' ! i)) \<and> wStore (sWorkers s' ! i) = wStore (sWorkers s ! i)) \<and>
    ((\<forall>w \<in> set (sWorkers s). leaving (wPc w)) \<longrightarrow> sRelayed s' = sRelayed s)"
proof (induction rule: sys_step.induct)
  case (worker_quits s i)
  then show ?case by (auto simp: leaving_def worker_at_def store_at_def set_worker_def nth_list_update)
next
  case (relay_returns s i key keys n m now)
  then have "i < length (sWorkers s)" "sWorkers s ! i \<in> set (sWorkers s)" "\<not> leaving (wPc (sWorkers s ! i))"
    by (simp_all add: worker_at_def leaving_def)
  then show ?case using relay_returns.prems by (auto simp: set_worker_def nth_list_update)
next
  case (internal_returns s i key keys m now)
  then have "i < length (sWorkers s)" "sWorkers s ! i \<in> set (sWorkers s)" "\<not> leaving (wPc (sWorkers s ! i))"
    by (simp_all add: worker_at_def leaving_def)
  then show ?case using internal_returns.prems by (auto simp: set_worker_def nth_list_update)
qed (auto simp: leaving_def worker_at_def set_worker_def nth_list_update dest: quit_step)

lemma leaving_reach:
  assumes "sys_reach auth load s s'" "quitFlag (sParse s)"
  shows "quitFlag (sParse s') \<and> length (sWorkers s') = length (sWorkers s) \<and>
    (\<forall>i < length (sWorkers s). leaving (wPc (sWorkers s ! i)) \<longrightarrow>
      leaving (wPc (sWorkers s' ! i)) \<and> wStore (sWorkers s' ! i) = wStore (sWorkers s ! i)) \<and>
    ((\<forall>w \<in> set (sWorkers s). leaving (wPc w)) \<longrightarrow> sRelayed s' = sRelayed s)"
  using assms(1)
proof (induction rule: sys_reach.induct)
  case (step s' s'')
  then have "quitFlag (sParse s')" by simp
  note go = leaving_step [OF step.hyps(2) this]
  have "\<forall>w \<in> set (sWorkers s'). leaving (wPc w)" if "\<forall>w \<in> set (sWorkers s). leaving (wPc w)"
    using that step.IH by (metis in_set_conv_nth nth_mem)
  then show ?case using go step.IH by auto
qed (use assms(2) in simp)

text \<open>
  Property C21.  Quitting strands what the stores hold.  A relay goroutine that comes to the test of
  the quit flag when the flag is set never touches its store again: there is no last flush.  Once
  all of them are there, nothing is relayed any more and what the stores hold stays in them.  The
  witness is a run from the start of the daemon in which the only message is lost in this way.
\<close>
theorem daemon_quit_strands:
  assumes "sys_reach auth load s s'" "quitFlag (sParse s)"
    and "i < length (sWorkers s)" "wPc (sWorkers s ! i) = AtQuit"
  shows "store_at s' i = store_at s i \<and> wPc (sWorkers s' ! i) \<in> {AtQuit, WorkerReturned} \<and>
    ((\<forall>w \<in> set (sWorkers s). wPc w \<in> {AtQuit, WorkerReturned}) \<longrightarrow> sRelayed s' = sRelayed s \<and> stored s' = stored s)"
proof (intro conjI impI)
  note go = leaving_reach [OF assms(1,2)]
  have i: "leaving (wPc (sWorkers s ! i))" using assms(4) by (simp add: leaving_def)
  then show "store_at s' i = store_at s i" "wPc (sWorkers s' ! i) \<in> {AtQuit, WorkerReturned}"
    using go assms(3) by (auto simp: leaving_def store_at_def)
  assume "\<forall>w \<in> set (sWorkers s). wPc w \<in> {AtQuit, WorkerReturned}"
  then have all: "\<forall>w \<in> set (sWorkers s). leaving (wPc w)" by (auto simp: leaving_def)
  then show "sRelayed s' = sRelayed s" using go by blast
  have "map (\<lambda>w. store_mset (wStore w)) (sWorkers s') = map (\<lambda>w. store_mset (wStore w)) (sWorkers s)"
    using go all by (intro nth_equalityI) simp_all
  then show "stored s' = stored s" by (simp add: stored_def del: map_eq_conv)
qed

text \<open>A run that loses its only sample: it is aggregated, then the daemon quits before the next tick.\<close>

definition quit_state :: "ConfigValues \<Rightarrow> parse_state \<Rightarrow> string list \<Rightarrow> metric_map \<Rightarrow> worker_pc \<Rightarrow> sys" where
  "quit_state config p msgs store pc =
     (main_init config)\<lparr>sReaders := [msgs], sInput := [''a:2|g''], sParse := p, sWorkers := [\<lparr>wStore = store, wPc = pc\<rparr>]\<rparr>"

definition plain_gauge :: Metric where
  "plain_gauge = parsed_metric ''a'' (Fin 2) MetricTypeGauge 1"

definition quitting :: sys where
  "quitting = quit_state (load_defaults new_ConfigValues) (parse_init\<lparr>parserPc := Testing, quitFlag := True\<rparr>) [] [''a'' \<mapsto> plain_gauge] AtQuit"

definition lost :: sys where
  "lost = quit_state (load_defaults new_ConfigValues) (parse_init\<lparr>parserPc := Testing, quitFlag := True\<rparr>) [] [''a'' \<mapsto> plain_gauge] WorkerReturned"

lemma quit_state_simps [simp]:
  "sParse (quit_state config p msgs store pc) = p" "sReaders (quit_state config p msgs store pc) = [msgs]"
  "\<not> sOver (quit_state config p msgs store pc)" "worker_at (quit_state config p msgs store pc) 0 pc' \<longleftrightarrow> pc' = pc"
  "store_at (quit_state config p msgs store pc) 0 = store"
  "(quit_state config p msgs store pc)\<lparr>sParse := p'\<rparr> = quit_state config p' msgs store pc"
  "(quit_state config p msgs store pc)\<lparr>sReaders := [msgs'], sParse := p'\<rparr> = quit_state config p' msgs' store pc"
  "set_worker 0 store' pc' (quit_state config p msgs store pc) = quit_state config p msgs store' pc'"
  "sConfig (quit_state config p msgs store pc) = config" "sRelayed (quit_state config p msgs store pc) = []"
  "sInput (quit_state config p msgs store pc) = [''a:2|g'']"
  by (auto simp: quit_state_def main_init_def worker_at_def store_at_def set_worker_def)

lemma plain_gauge_stored: "AggregateMetric Map.empty plain_gauge = [''a'' \<mapsto> plain_gauge]"
  by (simp add: AggregateMetric_def plain_gauge_def parsed_metric_def new_Metric_def)

text \<open>The message goes through the reader, the parser and the relay channel into the store.\<close>

lemma reach_stored:
  assumes "relayConcurrency (cfgRelay config) = 1"
  shows "sys_reach AuthNone load (main_init config)
    (quit_state config (parse_init\<lparr>parserPc := Testing\<rparr>) [] [''a'' \<mapsto> plain_gauge] AtTick)"
proof -
  let ?step = "sys_step AuthNone load"
  let ?q = "quit_state config"
  let ?p = parse_init
  let ?p1 = "?p\<lparr>parseChannel := \<lparr>chan_buf = [''a:2|g''], chan_cap = MaxReqs\<rparr>\<rparr>"
  let ?p2 = "?p\<lparr>parserPc := Sending plain_gauge\<rparr>"
  let ?p3 = "?p\<lparr>parserPc := Testing, relayChannel := \<lparr>chan_buf = [plain_gauge], chan_cap = MaxReqs\<rparr>\<rparr>"
  let ?p4 = "?p\<lparr>parserPc := Testing\<rparr>"
  have "?step (main_init config) (?q ?p [''a:2|g''] Map.empty AtQuit)"
    using sys_step.connection [of "main_init config" "[''a:2|g'' @ [newline]]" "[''a:2|g'']" AuthNone load] plain_input assms
    by (simp add: main_init_def quit_state_def)
  then have 0: "sys_reach AuthNone load (main_init config) (?q ?p [''a:2|g''] Map.empty AtQuit)"
    by (rule sys_reach.step [OF sys_reach.start])
  have send: "parse_step AuthNone ?p (Enqueued ''a:2|g'') ?p1"
    using parse_step.enqueue [of ?p] by (simp add: chan_send_def parse_init_def make_chan_def MaxReqs_def)
  have 1: "?step (?q ?p [''a:2|g''] Map.empty AtQuit) (?q ?p1 [] Map.empty AtQuit)"
    using sys_step.reader_sends [of "?q ?p [''a:2|g''] Map.empty AtQuit" 0 "''a:2|g''" "[]" AuthNone ?p1] send by simp
  have took: "parse_step AuthNone ?p1 (Took ''a:2|g'') ?p2"
    using parse_step.accept [of ?p1] by (simp add: chan_recv_def parse_init_def make_chan_def parse_plain_gauge plain_gauge_def)
  have 2: "?step (?q ?p1 [] Map.empty AtQuit) (?q ?p2 [] Map.empty AtQuit)"
    using sys_step.parser [of "?q ?p1 [] Map.empty AtQuit" AuthNone "Took ''a:2|g''" ?p2] took by simp
  have gave: "parse_step AuthNone ?p2 (Gave plain_gauge) ?p3"
    using parse_step.give [of ?p2] by (simp add: chan_send_def parse_init_def make_chan_def MaxReqs_def)
  have 3: "?step (?q ?p2 [] Map.empty AtQuit) (?q ?p3 [] Map.empty AtQuit)"
    using sys_step.parser [of "?q ?p2 [] Map.empty AtQuit" AuthNone "Gave plain_gauge" ?p3] gave by simp
  have 4: "?step (?q ?p3 [] Map.empty AtQuit) (?q ?p3 [] Map.empty AtReceive)"
    using sys_step.worker_goes_on [of "?q ?p3 [] Map.empty AtQuit" 0] by (simp add: parse_init_def)
  have got: "parse_step AuthNone ?p3 (Dequeued plain_gauge) ?p4"
    using parse_step.dequeue [of ?p3] by (simp add: chan_recv_def parse_init_def make_chan_def)
  have 5: "?step (?q ?p3 [] Map.empty AtReceive) (?q ?p4 [] [''a'' \<mapsto> plain_gauge] AtTick)"
    using sys_step.worker_receives [of "?q ?p3 [] Map.empty AtReceive" 0 AuthNone plain_gauge ?p4] got
    by (simp add: plain_gauge_stored)
  show ?thesis by (rule sys_reach.step [OF _ 5] sys_reach.step [OF _ 4] sys_reach.step [OF _ 3]
      sys_reach.step [OF _ 2] sys_reach.step [OF _ 1] 0)+
qed

lemma reach_quitting: "sys_reach AuthNone (\<lambda>_ _. False) quiet_start quitting"
proof -
  let ?step = "sys_step AuthNone (\<lambda>_ _. False)"
  let ?q = "quit_state (load_defaults new_ConfigValues)"
  let ?p4 = "parse_init\<lparr>parserPc := Testing\<rparr>"
  let ?p5 = "?p4\<lparr>quitFlag := True\<rparr>"
  let ?st = "[''a'' \<mapsto> plain_gauge]"
  have 6: "?step (?q ?p4 [] ?st AtTick) (?q ?p4 [] ?st AtQuit)"
    using sys_step.no_tick [of "?q ?p4 [] ?st AtTick" 0] by simp
  have 7: "?step (?q ?p4 [] ?st AtQuit) quitting"
    using sys_step.quit [of "?q ?p4 [] ?st AtQuit" AuthNone ?p5] parse_step.quit [of AuthNone ?p4] by (simp add: quitting_def)
  show ?thesis
    by (rule sys_reach.step [OF sys_reach.step [OF reach_stored 6] 7]) (simp add: load_defaults_def)
qed

lemma reach_lost: "sys_reach AuthNone (\<lambda>_ _. False) quitting lost"
  using sys_reach.step [OF sys_reach.start sys_step.worker_quits [of quitting 0]] by (simp add: lost_def quitting_def)

theorem daemon_quit_strands_witness:
  "sys_reach AuthNone (\<lambda>_ _. False) quiet_start quitting \<and> message_samples AuthNone (sInput quitting) = {#(''a'', Fin 2)#} \<and>
    sys_reach AuthNone (\<lambda>_ _. False) quitting lost \<and> wPc (sWorkers lost ! 0) = WorkerReturned \<and>
    store_at lost 0 = [''a'' \<mapsto> plain_gauge] \<and> sRelayed lost = []"
proof -
  have q: "quitFlag (sParse quitting)" "0 < length (sWorkers quitting)" "wPc (sWorkers quitting ! 0) = AtQuit"
    "sRelayed quitting = []" "store_at quitting 0 = [''a'' \<mapsto> plain_gauge]" "sInput quitting = [''a:2|g'']"
    "\<forall>w \<in> set (sWorkers quitting). wPc w \<in> {AtQuit, WorkerReturned}"
    by (simp_all add: quitting_def) (simp_all add: quit_state_def)
  have "wPc (sWorkers lost ! 0) = WorkerReturned" by (simp add: lost_def quit_state_def)
  then show ?thesis
    using daemon_quit_strands [OF reach_lost q(1-3)] q reach_quitting reach_lost by (simp add: one_message_input)
qed

end
