(* ===== verification/Logger.thy ===== *)
theory Logger
  imports Config
begin

text \<open>
  The loggers, \<open>statsgod/logger.go\<close>, and the choice of their outputs in \<open>main\<close>.  A logger of
  the standard library is its output, its prefix and its flags; the text of a line is not modelled.
\<close>

datatype handle = Discard | Stdout | Stderr

text \<open>The flags of package \<open>log\<close> are bits: \<open>Ldate\<close> is 1, \<open>Ltime\<close> is 2, \<open>Lshortfile\<close> is 16.\<close>

unbundle bit_operations_syntax

definition Ldate :: int where "Ldate = 1"
definition Ltime :: int where "Ltime = 2"
definition Lshortfile :: int where "Lshortfile = 16"

record go_logger =
  logHandle :: handle
  logPrefix :: string
  logFlags :: int

record Logger =
  Trace :: go_logger
  Info :: go_logger
  Warning :: go_logger
  Error :: go_logger

definition log_new :: "handle \<Rightarrow> string \<Rightarrow> int \<Rightarrow> go_logger" where
  "log_new h p f = \<lparr>logHandle = h, logPrefix = p, logFlags = f\<rparr>"

definition CreateLogger :: "handle \<Rightarrow> handle \<Rightarrow> handle \<Rightarrow> handle \<Rightarrow> Logger" where
  "CreateLogger traceHandle infoHandle warningHandle errorHandle =
     \<lparr>Trace = log_new traceHandle ''TRACE: '' (Ldate OR Ltime OR Lshortfile),
      Info = log_new infoHandle ''INFO: '' (Ldate OR Ltime OR Lshortfile),
      Warning = log_new warningHandle ''WARNING: '' (Ldate OR Ltime OR Lshortfile),
      Error = log_new errorHandle ''ERROR: '' (Ldate OR Ltime OR Lshortfile)\<rparr>"

definition main_logger :: "ConfigValues \<Rightarrow> Logger" where
  "main_logger config =
     (if dbgVerbose (cfgDebug config) then CreateLogger Stdout Stdout Stdout Stderr
      else CreateLogger Discard Stdout Stdout Stderr)"

text \<open>The lines that reach the terminal, of those given with the level they are logged at.\<close>

definition shown :: "(Logger \<Rightarrow> go_logger) \<Rightarrow> Logger \<Rightarrow> bool" where
  "shown level logger \<longleftrightarrow> logHandle (level logger) \<noteq> Discard"

lemma main_logger_levels:
  "shown Trace (main_logger config) \<longleftrightarrow> dbgVerbose (cfgDebug config)"
  "shown Info (main_logger config)" "shown Warning (main_logger config)" "shown Error (main_logger config)"
  "logHandle (level (main_logger config)) = Stderr \<Longrightarrow> level \<in> {Trace, Info, Warning, Error} \<Longrightarrow>
     logPrefix (level (main_logger config)) = ''ERROR: ''"
  by (auto simp: shown_def main_logger_def CreateLogger_def log_new_def)

end
