(* ===== verification/Refinement.thy ===== *)
theory Refinement
  imports Main
begin

text \<open>
  What it means that a step relation refines another under a view of its states: each step keeps
  an invariant, and is a step of the abstract relation or leaves the view alone.  \<open>Relay_System\<close>
  uses it for its two views of the daemon, \<open>Program\<close> and \<open>Whole_Program\<close> for the systems they compose.
\<close>

locale refinement =
  fixes step :: "'c \<Rightarrow> 'c \<Rightarrow> bool" and inv :: "'c \<Rightarrow> bool" and view :: "'c \<Rightarrow> 'a" and astep :: "'a \<Rightarrow> 'a \<Rightarrow> bool"
  assumes inv_step: "step s t \<Longrightarrow> inv s \<Longrightarrow> inv t"
    and view_step: "step s t \<Longrightarrow> inv s \<Longrightarrow> view t = view s \<or> astep (view s) (view t)"
begin

lemma inv_reach: "step\<^sup>*\<^sup>* s t \<Longrightarrow> inv s \<Longrightarrow> inv t"
  by (induction rule: rtranclp_induct) (auto intro: inv_step)

lemma view_reach: "step\<^sup>*\<^sup>* s t \<Longrightarrow> inv s \<Longrightarrow> astep\<^sup>*\<^sup>* (view s) (view t)"
proof (induction rule: rtranclp_induct)
  case (step t u)
  then have "inv t" using inv_reach by blast
  from view_step [OF step.hyps(2) this] show ?case
  proof
    assume "astep (view t) (view u)"
    then show ?thesis using step.IH [OF step.prems] by (rule rtranclp.rtrancl_into_rtrancl [rotated])
  qed (use step in simp)
qed simp

end

end
