(* ===== verification/Program.thy ===== *)
theory Program
  imports System Daemon Logger Refinement
begin

text \<open>
  The whole of \<open>main\<close> in \<open>statsgod.go\<close>: loading the configuration, setting up, the goroutines of
  \<open>System\<close> beside the signal goroutine of \<open>Signals\<close>, with the configuration and the quit flag they
  share, and the end.  The reloads and the quit step that \<open>System\<close> leaves open are what the signal
  goroutine and \<open>main\<close> do here.
\<close>

subsection \<open>From the command line to the goroutines\<close>

record begun =
  bgConfig :: ConfigValues
  bgLogger :: Logger
  bgProfiling :: bool
  bgStarted :: started
  bgSignals :: signal_state

definition nil_pointer_panic :: string where
  "nil_pointer_panic = ''runtime error: invalid memory address or nil pointer dereference''"

text \<open>\<open>profileFile\<close> says whether \<open>statsgod.prof\<close> can be created; the error of \<open>CreateConfig\<close> is ignored.\<close>

definition main_begin ::
  "net_env \<Rightarrow> (string \<Rightarrow> string option) \<Rightarrow> (string \<Rightarrow> ConfigValues \<Rightarrow> ConfigValues option \<times> 'e option) \<Rightarrow>
   string option \<Rightarrow> string \<Rightarrow> bool \<Rightarrow> net \<Rightarrow> begun outcome" where
  "main_begin env readFile unmarshal osHostname configFile profileFile n =
     (case CreateConfig readFile unmarshal osHostname configFile of
        None \<Rightarrow> Panicked nil_pointer_panic
      | Some (config, _) \<Rightarrow>
          if dbgProfile (cfgDebug config) \<and> \<not> profileFile then Panicked ''open statsgod.prof''
          else (case main_start env config n of
                  Done st \<Rightarrow> Done \<lparr>bgConfig = config, bgLogger = main_logger config,
                    bgProfiling = dbgProfile (cfgDebug config), bgStarted = st, bgSignals = ListenForSignals config\<rparr>
                | Panicked p \<Rightarrow> Panicked p
                | Hung \<Rightarrow> Hung))"

subsection \<open>The running program\<close>

record program =
  pSys :: sys
  pSignals :: signal_state
  pEvents :: "signal_event list"  \<comment> \<open>history of the signal goroutine\<close>
  pSockets :: main_sockets
  pOs :: os_state
  pProfiling :: bool
  pClosing :: bool  \<comment> \<open>\<open>main\<close> has left its \<open>select\<close>\<close>
  pEnd :: "unit outcome option"  \<comment> \<open>how \<open>main\<close> ended\<close>

definition program_init :: "begun \<Rightarrow> os_state \<Rightarrow> program" where
  "program_init b os = \<lparr>pSys = main_init (bgConfig b), pSignals = bgSignals b, pEvents = [],
     pSockets = stSockets (bgStarted b), pOs = os, pProfiling = bgProfiling b, pClosing = False, pEnd = None\<rparr>"

definition running :: "program \<Rightarrow> bool" where
  "running p \<longleftrightarrow> pEnd p = None \<and> \<not> sOver (pSys p)"

definition signalled :: "signal_event \<Rightarrow> signal_state \<Rightarrow> program \<Rightarrow> program" where
  "signalled e sg p = p\<lparr>pSignals := sg, pEvents := pEvents p @ [e]\<rparr>"

definition ended :: "unit outcome \<Rightarrow> program \<Rightarrow> program" where
  "ended r p = p\<lparr>pSys := (pSys p)\<lparr>sOver := True\<rparr>, pEnd := Some r\<rparr>"

text \<open>
  The steps of the composition: a goroutine of \<open>System\<close>; the signal goroutine, whose reload reaches
  all others; a \<open>Listen\<close> goroutine that opens its socket or panics, where \<open>bind\<close> is what the system
  grants at that moment; and \<open>main\<close> itself.  \<open>finish\<close> takes the receive from \<open>finishChannel\<close> and the
  assignment to \<open>quit\<close> two lines below it as one step; what other goroutines do between the two is
  not modelled.
\<close>

type_synonym 'e reloader = "nat \<Rightarrow> ConfigValues \<Rightarrow> (ConfigValues \<times> 'e load_error option) option"

inductive program_step ::
  "Auth \<Rightarrow> 'e reloader \<Rightarrow> (os_state \<Rightarrow> os_state outcome) \<Rightarrow> program \<Rightarrow> program \<Rightarrow> bool" for auth load nilUdp where
  goroutine: "running p \<Longrightarrow> sys_step auth (\<lambda>_ _. False) (pSys p) s \<Longrightarrow> quitFlag (sParse s) = quitFlag (sParse (pSys p)) \<Longrightarrow>
    program_step auth load nilUdp p (p\<lparr>pSys := s\<rparr>)"
| signal: "running p \<Longrightarrow> signal_step load (pSignals p) e sg \<Longrightarrow> e \<notin> {Reloaded, ReloadPanic, Finished} \<Longrightarrow>
    program_step auth load nilUdp p (signalled e sg p)"
| reload: "running p \<Longrightarrow> signal_step load (pSignals p) Reloaded sg \<Longrightarrow>
    program_step auth load nilUdp p (signalled Reloaded sg (p\<lparr>pSys := (pSys p)\<lparr>sConfig := sharedConfig sg\<rparr>\<rparr>))"
| reload_panic: "running p \<Longrightarrow> signal_step load (pSignals p) ReloadPanic sg \<Longrightarrow>
    program_step auth load nilUdp p (signalled ReloadPanic sg (p\<lparr>pSys := (pSys p)\<lparr>sOver := True\<rparr>\<rparr>))"
| listens: "running p \<Longrightarrow> main_socket k (pSockets p) = Some l \<Longrightarrow> \<not> SocketIsActive l \<Longrightarrow>
    main_listen bind k (pSockets p, pOs p) = Done (sockets, os) \<Longrightarrow>
    program_step auth load nilUdp p (p\<lparr>pSockets := sockets, pOs := os\<rparr>)"
| listen_panics: "running p \<Longrightarrow> main_socket k (pSockets p) = Some l \<Longrightarrow> \<not> SocketIsActive l \<Longrightarrow>
    main_listen bind k (pSockets p, pOs p) = Panicked msg \<Longrightarrow>
    program_step auth load nilUdp p (p\<lparr>pSys := (pSys p)\<lparr>sOver := True\<rparr>\<rparr>)"
| finish: "running p \<Longrightarrow> signal_step load (pSignals p) Finished sg \<Longrightarrow>
    program_step auth load nilUdp p (signalled Finished sg
      (p\<lparr>pSys := (pSys p)\<lparr>sParse := (sParse (pSys p))\<lparr>quitFlag := True\<rparr>\<rparr>, pClosing := True\<rparr>))"
| close: "running p \<Longrightarrow> pClosing p \<Longrightarrow> main_finish nilUdp (sharedConfig (pSignals p)) (pSockets p) (pOs p) = Done os \<Longrightarrow>
    program_step auth load nilUdp p (ended (Done ())
      (p\<lparr>pOs := os, pProfiling := (pProfiling p \<and> \<not> dbgProfile (cfgDebug (sharedConfig (pSignals p))))\<rparr>))"
| close_panics: "running p \<Longrightarrow> pClosing p \<Longrightarrow>
    main_finish nilUdp (sharedConfig (pSignals p)) (pSockets p) (pOs p) = Panicked msg \<Longrightarrow>
    program_step auth load nilUdp p (ended (Panicked msg) p)"

inductive program_reach ::
  "Auth \<Rightarrow> 'e reloader \<Rightarrow> (os_state \<Rightarrow> os_state outcome) \<Rightarrow> program \<Rightarrow> program \<Rightarrow> bool" for auth load nilUdp p0 where
  start: "program_reach auth load nilUdp p0 p0"
| step: "program_reach auth load nilUdp p0 p \<Longrightarrow> program_step auth load nilUdp p p' \<Longrightarrow> program_reach auth load nilUdp p0 p'"

lemma signalled_simps [simp]:
  "pSys (signalled e sg p) = pSys p" "pSignals (signalled e sg p) = sg" "pEvents (signalled e sg p) = pEvents p @ [e]"
  "pClosing (signalled e sg p) = pClosing p" "pEnd (signalled e sg p) = pEnd p" "pSockets (signalled e sg p) = pSockets p"
  by (simp_all add: signalled_def)

lemma ended_simps [simp]:
  "pSys (ended r p) = (pSys p)\<lparr>sOver := True\<rparr>" "pSignals (ended r p) = pSignals p" "pEvents (ended r p) = pEvents p"
  "pClosing (ended r p) = pClosing p" "pEnd (ended r p) = Some r" "pSockets (ended r p) = pSockets p"
  by (simp_all add: ended_def)

subsection \<open>The program refines its parts\<close>

text \<open>What a reload may make of a configuration.\<close>

definition reloads_to :: "'e reloader \<Rightarrow> ConfigValues \<Rightarrow> ConfigValues \<Rightarrow> bool" where
  "reloads_to load c c' \<longleftrightarrow> (\<exists>k err. load k c = Some (c', err))"

lemma sys_step_mono:
  "sys_step auth load s s' \<Longrightarrow> (\<And>c c'. load c c' \<Longrightarrow> load' c c') \<Longrightarrow> sys_step auth load' s s'"
  by (induction rule: sys_step.induct) (auto intro: sys_step.intros)

lemma signal_config:
  "signal_step load s e s' \<Longrightarrow>
    (if e = Reloaded then reloads_to load (sharedConfig s) (sharedConfig s') else sharedConfig s' = sharedConfig s) \<and>
    (mainWaits s' \<longleftrightarrow> mainWaits s \<and> e \<noteq> Finished)"
  by (induction rule: signal_step.induct) (auto simp: reloads_to_def)

lemma goroutine_config: "sys_step auth (\<lambda>_ _. False) s s' \<Longrightarrow> sConfig s' = sConfig s"
  by (induction rule: sys_step.induct) (simp_all add: set_worker_def)

text \<open>The goroutines and \<open>main\<close> agree on what they share.\<close>

definition program_ok :: "program \<Rightarrow> bool" where
  "program_ok p \<longleftrightarrow> sConfig (pSys p) = sharedConfig (pSignals p) \<and>
     (quitFlag (sParse (pSys p)) \<longleftrightarrow> \<not> mainWaits (pSignals p)) \<and>
     (pClosing p \<longrightarrow> \<not> mainWaits (pSignals p)) \<and> (pEnd p \<noteq> None \<longrightarrow> pClosing p)"

lemma program_ok_step: "program_step auth load nilUdp p p' \<Longrightarrow> program_ok p \<Longrightarrow> program_ok p'"
  by (induction rule: program_step.induct)
    (auto simp: program_ok_def running_def dest!: goroutine_config signal_config split: if_splits)

definition logged_signals :: "'e reloader \<Rightarrow> signal_event list \<times> signal_state \<Rightarrow> signal_event list \<times> signal_state \<Rightarrow> bool" where
  "logged_signals load a b \<longleftrightarrow> (\<exists>e. signal_step load (snd a) e (snd b) \<and> fst b = fst a @ [e])"

lemma program_to_sys_step: "program_step auth load nilUdp p p' \<Longrightarrow> program_ok p \<Longrightarrow>
    pSys p' = pSys p \<or> sys_step auth (reloads_to load) (pSys p) (pSys p')"
proof (induction rule: program_step.induct)
  case (goroutine p s)
  then show ?case using sys_step_mono [OF goroutine.hyps(2), of "reloads_to load"] by simp
next
  case (reload p sg)
  then show ?case
    using signal_config [OF reload.hyps(2)] sys_step.reload [of "pSys p" "reloads_to load" "sharedConfig sg" auth]
    by (simp add: program_ok_def running_def)
next
  case (finish p sg)
  then show ?case
    using sys_step.quit [OF _ parse_step.quit, of "pSys p" auth "reloads_to load"] by (simp add: running_def)
qed (auto simp: running_def intro: sys_step.over)

lemma program_to_signals_step: "program_step auth load nilUdp p p' \<Longrightarrow>
    (pEvents p', pSignals p') = (pEvents p, pSignals p) \<or> logged_signals load (pEvents p, pSignals p) (pEvents p', pSignals p')"
  by (induction rule: program_step.induct) (auto simp: logged_signals_def)

interpretation program_to_sys: refinement "program_step auth load nilUdp" program_ok pSys "sys_step auth (reloads_to load)"
  for auth load nilUdp
  by unfold_locales (erule (1) program_ok_step, erule (1) program_to_sys_step)

interpretation program_to_signals: refinement "program_step auth load nilUdp" program_ok "\<lambda>p. (pEvents p, pSignals p)"
  "logged_signals load" for auth load nilUdp
  by unfold_locales (erule (1) program_ok_step, erule program_to_signals_step)

lemma logged_run: "(logged_signals load)\<^sup>*\<^sup>* ([], s) b \<Longrightarrow> signal_run load s (fst b) (snd b)"
  by (induction rule: rtranclp_induct) (auto simp: logged_signals_def signal_run.none intro: signal_run.more)

lemma program_reach_rtranclp: "program_reach auth load nilUdp s t \<longleftrightarrow> (program_step auth load nilUdp)\<^sup>*\<^sup>* s t"
proof
  show "(program_step auth load nilUdp)\<^sup>*\<^sup>* s t" if "program_reach auth load nilUdp s t"
    using that by (induction rule: program_reach.induct) (auto intro: rtranclp.rtrancl_into_rtrancl)
  show "program_reach auth load nilUdp s t" if "(program_step auth load nilUdp)\<^sup>*\<^sup>* s t"
    using that by (induction rule: rtranclp_induct) (auto intro: program_reach.intros)
qed

lemma main_begin_parts:
  assumes "main_begin env readFile unmarshal osHostname configFile profileFile n = Done b"
  shows "bgSignals b = ListenForSignals (bgConfig b) \<and> main_start env (bgConfig b) n = Done (bgStarted b) \<and>
    (\<exists>err. CreateConfig readFile unmarshal osHostname configFile = Some (bgConfig b, err))"
  using assms by (auto simp: main_begin_def split: option.splits prod.splits outcome.splits if_splits)

lemma program_parts:
  assumes "main_begin env readFile unmarshal osHostname configFile profileFile n = Done b"
    and "program_reach auth load nilUdp (program_init b os) p"
  shows "program_ok p" "sys_reach auth (reloads_to load) (main_init (bgConfig b)) (pSys p)"
    "signal_run load (ListenForSignals (bgConfig b)) (pEvents p) (pSignals p)"
proof -
  have init: "pSys (program_init b os) = main_init (bgConfig b)" "pEvents (program_init b os) = []"
    "pSignals (program_init b os) = ListenForSignals (bgConfig b)"
    using main_begin_parts [OF assms(1)] by (simp_all add: program_init_def)
  then have ok: "program_ok (program_init b os)"
    by (simp add: program_ok_def ListenForSignals_def main_init_def parse_init_def) (simp add: program_init_def)
  note reach = assms(2) [unfolded program_reach_rtranclp]
  show "program_ok p" by (rule program_to_sys.inv_reach [OF reach ok])
  show "sys_reach auth (reloads_to load) (main_init (bgConfig b)) (pSys p)"
    using program_to_sys.view_reach [OF reach ok] init by (simp add: sys_reach_rtranclp)
  have "(logged_signals load)\<^sup>*\<^sup>* ([], ListenForSignals (bgConfig b)) (pEvents p, pSignals p)"
    using program_to_signals.view_reach [OF reach ok] init by simp
  from logged_run [OF this] show "signal_run load (ListenForSignals (bgConfig b)) (pEvents p) (pSignals p)" by simp
qed

text \<open>
  Fact.  The program is the composition of its parts: every state it reaches from the command
  line is a state of \<open>System\<close>, whose reloads are those of the signal goroutine, together with a run
  of \<open>Signals\<close>, and the goroutines always read the configuration that was loaded last.
\<close>
theorem program_refines:
  assumes "main_begin env readFile unmarshal osHostname configFile profileFile n = Done b"
    and "program_reach auth load nilUdp (program_init b os) p"
  shows "sys_reach auth (reloads_to load) (main_init (bgConfig b)) (pSys p) \<and>
    signal_run load (ListenForSignals (bgConfig b)) (pEvents p) (pSignals p) \<and> sConfig (pSys p) = sharedConfig (pSignals p)"
  using program_parts [OF assms] by (simp add: program_ok_def)

text \<open>
  Property C20.  The program quits only when it is told to: the quit flag is set exactly when the signal
  goroutine has handed over the end, which takes a signal other than SIGHUP, and \<open>main\<close> does not
  return before that.
\<close>
theorem program_quits_on_signal:
  assumes "main_begin env readFile unmarshal osHostname configFile profileFile n = Done b"
    and "program_reach auth load nilUdp (program_init b os) p"
  shows "(quitFlag (sParse (pSys p)) \<longleftrightarrow> Finished \<in> set (pEvents p)) \<and>
    (pEnd p = None \<or> quitFlag (sParse (pSys p))) \<and>
    (\<not> quitFlag (sParse (pSys p)) \<or> (\<exists>sg. sg \<noteq> SIGHUP \<and> Raised sg \<in> set (pEvents p)))"
proof -
  note ok = program_parts(1) [OF assms] and run = program_parts(3) [OF assms]
  have inv: "signal_inv (pEvents p) (pSignals p)" by (rule signal_inv_run [OF run refl])
  then have "length (filter (\<lambda>e. e = Finished) (pEvents p)) = (if mainWaits (pSignals p) then 0 else 1)"
    by (simp add: signal_inv_def)
  moreover have "Finished \<in> set (pEvents p) \<longleftrightarrow> filter (\<lambda>e. e = Finished) (pEvents p) \<noteq> []"
    by (auto simp: filter_empty_conv)
  ultimately have "Finished \<in> set (pEvents p) \<longleftrightarrow> \<not> mainWaits (pSignals p)"
    by (cases "mainWaits (pSignals p)") auto
  then show ?thesis using ok inv by (auto simp: program_ok_def signal_inv_def)
qed

subsection \<open>A run\<close>

text \<open>A daemon without a configuration file that is terminated at once.\<close>

abbreviation no_file :: "string \<Rightarrow> string option" where
  "no_file \<equiv> (\<lambda>_. None)"

abbreviation no_yaml :: "string \<Rightarrow> ConfigValues \<Rightarrow> ConfigValues option \<times> unit option" where
  "no_yaml \<equiv> (\<lambda>_ c. (Some c, None))"

lemma begin_steady: "\<exists>b. main_begin steady no_file no_yaml None ''c'' True new_net = Done b"
proof -
  obtain config where c: "CreateConfig no_file no_yaml None ''c'' = Some (config, Some ReadError)"
    "relayType (cfgRelay config) = RelayTypeCarbon" "relayConcurrency (cfgRelay config) = 1"
    by (simp add: CreateConfig_def LoadFile_def Let_def load_defaults_def)
  have fresh: "\<forall>i \<in> set (closed new_net). i < dials new_net" by (simp add: new_net_def)
  have "\<nexists>p. CreateRelay steady config new_net = Panicked p"
    using create_relay_cases [OF c(2) _ fresh, of steady] c(3) by (simp add: failed_dials_def steady_def)
  moreover have "CreateRelay steady config new_net \<noteq> Hung" by (rule create_relay_returns [OF fresh])
  ultimately obtain r where "CreateRelay steady config new_net = Done r" by (cases "CreateRelay steady config new_net") auto
  then obtain st where "main_start steady config new_net = Done st"
    using start_sockets_ok [of config] by (cases r) (auto simp: main_start_def)
  then show ?thesis using c(1) by (simp add: main_begin_def)
qed

lemma terminated_run:
  assumes "main_begin env no_file no_yaml None ''c'' True n = Done b"
  shows "\<exists>p. program_reach AuthNone (\<lambda>k. LoadFile no_file no_yaml None ''c'') Done (program_init b os) p \<and>
    pEvents p = [Raised SIGTERM, Stopping SIGTERM, Finished]"
proof -
  let ?load = "\<lambda>k :: nat. LoadFile no_file no_yaml None ''c''"
  let ?p0 = "program_init b os"
  let ?s0 = "ListenForSignals (bgConfig b)"
  let ?s1 = "?s0\<lparr>signalChannel := (signalChannel ?s0)\<lparr>chan_buf := [SIGTERM]\<rparr>\<rparr>"
  let ?s2 = "?s1\<lparr>signalChannel := signalChannel ?s0, signalPc := Finishing\<rparr>"
  let ?s3 = "?s2\<lparr>signalPc := Listening, mainWaits := False\<rparr>"
  let ?p1 = "signalled (Raised SIGTERM) ?s1 ?p0"
  let ?p2 = "signalled (Stopping SIGTERM) ?s2 ?p1"
  let ?p3 = "signalled Finished ?s3
    (?p2\<lparr>pSys := (pSys ?p2)\<lparr>sParse := (sParse (pSys ?p2))\<lparr>quitFlag := True\<rparr>\<rparr>, pClosing := True\<rparr>)"
  have init: "pSignals ?p0 = ?s0" "running ?p0" "pEvents ?p0 = []"
    using main_begin_parts [OF assms] by (simp_all add: program_init_def running_def main_init_def)
  have "signal_step ?load ?s0 (Raised SIGTERM) ?s1"
    using signal_step.raised [of ?s0 SIGTERM "(signalChannel ?s0)\<lparr>chan_buf := [SIGTERM]\<rparr>" ?load]
    by (simp add: ListenForSignals_def chan_send_def)
  then have 1: "program_step AuthNone ?load Done ?p0 ?p1" using init by (intro program_step.signal) simp_all
  have "signal_step ?load ?s1 (Stopping SIGTERM) ?s2"
    using signal_step.stopping [of ?s1 SIGTERM "signalChannel ?s0" ?load]
    by (simp add: ListenForSignals_def chan_recv_def make_chan_def)
  then have 2: "program_step AuthNone ?load Done ?p1 ?p2" using init by (intro program_step.signal) (simp_all add: running_def)
  have "signal_step ?load ?s2 Finished ?s3"
    using signal_step.finished [of ?s2 ?load] by (simp add: ListenForSignals_def)
  then have 3: "program_step AuthNone ?load Done ?p2 ?p3" using init by (intro program_step.finish) (simp_all add: running_def)
  have "program_reach AuthNone ?load Done ?p0 ?p3"
    by (rule program_reach.step [OF program_reach.step [OF program_reach.step [OF program_reach.start 1] 2] 3])
  then show ?thesis using init(3) by (intro exI [of _ ?p3]) (simp add: signalled_def)
qed

theorem program_refines_witness:
  "\<exists>b (p :: program). main_begin steady no_file no_yaml None ''c'' True new_net = Done b \<and> pEvents p = [Raised SIGTERM, Stopping SIGTERM, Finished] \<and>
     sys_reach AuthNone (reloads_to (\<lambda>k. LoadFile no_file no_yaml None ''c'')) (main_init (bgConfig b)) (pSys p)"
proof -
  obtain b where b: "main_begin steady no_file no_yaml None ''c'' True new_net = Done b" using begin_steady by blast
  obtain p where p: "program_reach AuthNone (\<lambda>k. LoadFile no_file no_yaml None ''c'') Done
      (program_init b \<lparr>osUmask = 18, osFiles = [], osOpen = [], osNext = 0\<rparr>) p"
    "pEvents p = [Raised SIGTERM, Stopping SIGTERM, Finished]"
    using terminated_run [OF b] by blast
  from program_refines [OF b p(1)] b p(2) show ?thesis by blast
qed

theorem program_quits_on_signal_witness:
  "\<exists>p :: program. pEvents p = [Raised SIGTERM, Stopping SIGTERM, Finished] \<and> quitFlag (sParse (pSys p))"
proof -
  obtain b where b: "main_begin steady no_file no_yaml None ''c'' True new_net = Done b" using begin_steady by blast
  obtain p where p: "program_reach AuthNone (\<lambda>k. LoadFile no_file no_yaml None ''c'') Done
      (program_init b \<lparr>osUmask = 18, osFiles = [], osOpen = [], osNext = 0\<rparr>) p"
    "pEvents p = [Raised SIGTERM, Stopping SIGTERM, Finished]"
    using terminated_run [OF b] by blast
  from program_quits_on_signal [OF b p(1)] p(2) show ?thesis by auto
qed

end
