(* ===== verification/Relay_System.thy ===== *)
theory Relay_System
  imports System Daemon Refinement
begin

text \<open>
  The relay goroutines of \<open>System\<close> with the calls of \<open>CarbonRelay.Relay\<close> opened up: the goroutine
  processes the metric, then sends one line after the other over the shared pool of
  \<open>Pool_Clients\<close>, with the retry of \<open>sendCarbonMetric\<close>.  All steps on the pool interleave with those
  of the other goroutines and with the rest of the daemon.  The composition refines both:
  forgetting the calls gives a run of \<open>System\<close>, forgetting the rest a run of \<open>Pool_Clients\<close>.
\<close>

subsection \<open>States\<close>

text \<open>A call of \<open>Relay\<close> under way: its metric, \<open>stringTime\<close>, the lines to send, of which the first is
  the one \<open>sendCarbonMetric\<close> is at, and the \<open>retry\<close> argument of that call.\<close>

record job =
  jobMetric :: Metric
  jobTime :: string
  jobLines :: "(string \<times> f64) list"
  jobRetry :: bool

record relay_sys =
  rSys :: sys
  rPool :: pool_sys
  rJobs :: "job option list"
  rWritten :: "string list"  \<comment> \<open>history: the payloads written whole\<close>
  rGivenUp :: "string list"  \<comment> \<open>history: the payloads whose retry failed too\<close>

definition job_at :: "relay_sys \<Rightarrow> nat \<Rightarrow> job option" where
  "job_at d i = (if i < length (rJobs d) then rJobs d ! i else None)"

text \<open>The key of the metric that the range of \<open>RelayAllMetrics\<close> is at, and where it goes on.\<close>

fun next_key :: "worker_pc \<Rightarrow> string option" where
  "next_key (RelayingAll (key # keys) n) = Some key"
| "next_key (RelayingInternal (key # keys)) = Some key"
| "next_key pc = None"

fun after_key :: "worker_pc \<Rightarrow> worker_pc" where
  "after_key (RelayingAll (key # keys) n) = RelayingAll keys n"
| "after_key (RelayingInternal (key # keys)) = RelayingInternal keys"
| "after_key pc = pc"

definition pc_of :: "sys \<Rightarrow> nat \<Rightarrow> worker_pc" where
  "pc_of s i = wPc (sWorkers s ! i)"

definition relaying :: "sys \<Rightarrow> nat \<Rightarrow> string \<Rightarrow> Metric \<Rightarrow> bool" where
  "relaying s i key m \<longleftrightarrow> i < length (sWorkers s) \<and> next_key (pc_of s i) = Some key \<and> store_at s i key = Some m"

definition set_job :: "nat \<Rightarrow> job option \<Rightarrow> relay_sys \<Rightarrow> relay_sys" where
  "set_job i j d = d\<lparr>rJobs := (rJobs d)[i := j]\<rparr>"

subsection \<open>Steps\<close>

text \<open>What the end of an attempt means for the call: the connection was given back after a good
  write, or a failed write ended in a replaced or a lost connection.\<close>

definition next_line :: "job \<Rightarrow> job" where
  "next_line j = j\<lparr>jobLines := tl (jobLines j), jobRetry := True\<rparr>"

definition attempt_failed :: "pool_event \<Rightarrow> bool" where
  "attempt_failed e \<longleftrightarrow> e \<in> {Pushed, Counted, UnknownType, Closed False}"

definition job_after :: "pool_event \<Rightarrow> job \<Rightarrow> job" where
  "job_after e j =
     (if e = GaveBack then next_line j
      else if attempt_failed e then (if jobRetry j then j\<lparr>jobRetry := False\<rparr> else next_line j)
      else j)"

definition line_text :: "job \<Rightarrow> string \<times> f64 \<Rightarrow> string" where
  "line_text j l = payload (fst l) (snd l) (jobTime j)"

fun written_by :: "pool_event \<Rightarrow> string list" where
  "written_by (Wrote msg True) = [msg]"
| "written_by e = []"

definition given_up_by :: "pool_event \<Rightarrow> job \<Rightarrow> string list" where
  "given_up_by e j = (if attempt_failed e \<and> \<not> jobRetry j then [line_text j (hd (jobLines j))] else [])"

datatype relay_event = Elsewhere | Begins nat | Panics nat | Sends nat pool_event | Returns nat

inductive relay_step ::
  "net_env \<Rightarrow> Auth \<Rightarrow> (ConfigValues \<Rightarrow> ConfigValues \<Rightarrow> bool) \<Rightarrow> CarbonRelay \<Rightarrow> relay_sys \<Rightarrow> relay_event \<Rightarrow> relay_sys \<Rightarrow> bool"
  for env auth load c where
  elsewhere: "sys_step auth load (rSys d) s \<Longrightarrow> sRelayed s = sRelayed (rSys d) \<Longrightarrow>
    relay_step env auth load c d Elsewhere (d\<lparr>rSys := s\<rparr>)"
| begins: "\<not> sOver (rSys d) \<Longrightarrow> i < length (rJobs d) \<Longrightarrow> job_at d i = None \<Longrightarrow> relaying (rSys d) i key m \<Longrightarrow>
    ProcessMetric (m\<lparr>FlushTime := now\<rparr>) (FlushInterval c) (Percentile c) = Some m' \<Longrightarrow>
    relay_step env auth load c d (Begins i)
      (set_job i (Some \<lparr>jobMetric = m\<lparr>FlushTime := now\<rparr>, jobTime = itoa (FlushTime m'),
         jobLines = carbon_sends c m', jobRetry = True\<rparr>) d)"
| panics: "\<not> sOver (rSys d) \<Longrightarrow> job_at d i = None \<Longrightarrow> relaying (rSys d) i key m \<Longrightarrow>
    ProcessMetric (m\<lparr>FlushTime := now\<rparr>) (FlushInterval c) (Percentile c) = None \<Longrightarrow>
    relay_step env auth load c d (Panics i) (d\<lparr>rSys := (rSys d)\<lparr>sOver := True\<rparr>\<rparr>)"
| sends: "\<not> sOver (rSys d) \<Longrightarrow> job_at d i = Some j \<Longrightarrow> jobLines j = l # ls \<Longrightarrow>
    pool_step env (rPool d) (i, e) p \<Longrightarrow> (\<And>msg ok. e = Wrote msg ok \<Longrightarrow> msg = line_text j l) \<Longrightarrow>
    relay_step env auth load c d (Sends i e)
      (set_job i (Some (job_after e j))
        (d\<lparr>rPool := p, rSys := (rSys d)\<lparr>sOver := (e = TimedOut)\<rparr>,
           rWritten := rWritten d @ written_by e, rGivenUp := rGivenUp d @ given_up_by e j\<rparr>))"
| returns: "\<not> sOver (rSys d) \<Longrightarrow> job_at d i = Some j \<Longrightarrow> jobLines j = [] \<Longrightarrow> relaying (rSys d) i key m \<Longrightarrow>
    relay_step env auth load c d (Returns i)
      (set_job i None
        (d\<lparr>rSys := set_worker i ((store_at (rSys d) i)(key := None)) (after_key (pc_of (rSys d) i))
             ((rSys d)\<lparr>sRelayed := sRelayed (rSys d) @ [jobMetric j]\<rparr>)\<rparr>))"

inductive relay_reach ::
  "net_env \<Rightarrow> Auth \<Rightarrow> (ConfigValues \<Rightarrow> ConfigValues \<Rightarrow> bool) \<Rightarrow> CarbonRelay \<Rightarrow> relay_sys \<Rightarrow> relay_sys \<Rightarrow> bool"
  for env auth load c d0 where
  start: "relay_reach env auth load c d0 d0"
| step: "relay_reach env auth load c d0 d \<Longrightarrow> relay_step env auth load c d e d' \<Longrightarrow> relay_reach env auth load c d0 d'"

text \<open>The start: the goroutines as \<open>main\<close> starts them, over the pool that \<open>CreateRelay\<close> made.\<close>

definition relay_init :: "ConfigValues \<Rightarrow> ConnectionPool \<Rightarrow> net \<Rightarrow> relay_sys" where
  "relay_init config pool n =
     (let k = nat (relayConcurrency (cfgRelay config))
      in \<lparr>rSys = main_init config, rPool = pool_start pool n k, rJobs = replicate k None,
          rWritten = [], rGivenUp = []\<rparr>)"

subsection \<open>Calls in progress\<close>

text \<open>The lines a relayed metric stands for.\<close>

definition metric_lines :: "CarbonRelay \<Rightarrow> Metric \<Rightarrow> string list" where
  "metric_lines c m =
     (case ProcessMetric m (FlushInterval c) (Percentile c) of
        None \<Rightarrow> []
      | Some m' \<Rightarrow> map (\<lambda>(key, v). payload key v (itoa (FlushTime m'))) (carbon_sends c m'))"

text \<open>
  A call belongs to the metric its goroutine is at and has sent the lines before the rest; a
  goroutine is in an operation of the pool only inside a call that has a line to send.
\<close>

definition job_ok :: "CarbonRelay \<Rightarrow> sys \<Rightarrow> nat \<Rightarrow> job \<Rightarrow> bool" where
  "job_ok c s i j \<longleftrightarrow>
     (\<exists>key m now m' sent. relaying s i key m \<and> jobMetric j = m\<lparr>FlushTime := now\<rparr> \<and>
        ProcessMetric (jobMetric j) (FlushInterval c) (Percentile c) = Some m' \<and>
        jobTime j = itoa (FlushTime m') \<and> carbon_sends c m' = sent @ jobLines j)"

definition slot_ok :: "CarbonRelay \<Rightarrow> sys \<Rightarrow> nat \<Rightarrow> job option \<Rightarrow> client \<Rightarrow> bool" where
  "slot_ok c s i jo cl \<longleftrightarrow>
     (case jo of None \<Rightarrow> cl = Free | Some j \<Rightarrow> job_ok c s i j \<and> (jobLines j = [] \<longrightarrow> cl = Free))"

definition jobs_ok :: "CarbonRelay \<Rightarrow> relay_sys \<Rightarrow> bool" where
  "jobs_ok c d \<longleftrightarrow>
     length (rJobs d) = length (sWorkers (rSys d)) \<and> length (sysClients (rPool d)) = length (rJobs d) \<and>
     (sysCrashed (rPool d) \<longrightarrow> sOver (rSys d)) \<and>
     (\<forall>i < length (rJobs d). slot_ok c (rSys d) i (rJobs d ! i) (sysClients (rPool d) ! i))"

lemma set_job_simps [simp]:
  "rSys (set_job i j d) = rSys d" "rPool (set_job i j d) = rPool d" "rWritten (set_job i j d) = rWritten d"
  "rGivenUp (set_job i j d) = rGivenUp d" "rJobs (set_job i j d) = (rJobs d)[i := j]"
  by (simp_all add: set_job_def)

lemma job_at_Some: "job_at d i = Some j \<longleftrightarrow> i < length (rJobs d) \<and> rJobs d ! i = Some j"
  by (simp add: job_at_def)

lemma jobs_ok_job: "jobs_ok c d \<Longrightarrow> job_at d i = Some j \<Longrightarrow> job_ok c (rSys d) i j"
  by (auto simp: jobs_ok_def job_at_Some slot_ok_def)

lemma next_key_after: "next_key pc = Some key \<Longrightarrow>
    (\<exists>keys n. pc = RelayingAll (key # keys) n \<and> after_key pc = RelayingAll keys n) \<or>
    (\<exists>keys. pc = RelayingInternal (key # keys) \<and> after_key pc = RelayingInternal keys)"
  by (cases pc rule: next_key.cases) auto

text \<open>The rest of the daemon does not move a goroutine that is relaying a metric.\<close>

lemma set_worker_at:
  "length (sWorkers (set_worker i st pc s)) = length (sWorkers s)"
  "sWorkers (set_worker i st pc s) ! k = (if k = i \<and> i < length (sWorkers s) then \<lparr>wStore = st, wPc = pc\<rparr> else sWorkers s ! k)"
  by (cases "i < length (sWorkers s)") (auto simp: set_worker_def nth_list_update not_less list_update_beyond)

lemma set_worker_fields [simp]:
  "sRelayed (set_worker i st pc s) = sRelayed s" "sOver (set_worker i st pc s) = sOver s"
  "sInput (set_worker i st pc s) = sInput s" "sParse (set_worker i st pc s) = sParse s"
  "sReaders (set_worker i st pc s) = sReaders s" "sUdp (set_worker i st pc s) = sUdp s"
  "sConfig (set_worker i st pc s) = sConfig s"
  by (simp_all add: set_worker_def)

lemma elsewhere_keeps:
  assumes "sys_step auth load s s'" "sRelayed s' = sRelayed s"
  shows "length (sWorkers s') = length (sWorkers s) \<and>
    (\<forall>k. next_key (wPc (sWorkers s ! k)) \<noteq> None \<longrightarrow> sWorkers s' ! k = sWorkers s ! k)"
  using assms by (induction rule: sys_step.induct) (auto simp: set_worker_at worker_at_def)

lemma relaying_same:
  "sWorkers s' ! i = sWorkers s ! i \<Longrightarrow> length (sWorkers s') = length (sWorkers s) \<Longrightarrow>
    relaying s' i key m \<longleftrightarrow> relaying s i key m"
  by (simp add: relaying_def pc_of_def store_at_def)

lemma job_ok_same:
  "job_ok c s i j \<Longrightarrow> sWorkers s' ! i = sWorkers s ! i \<Longrightarrow> length (sWorkers s') = length (sWorkers s) \<Longrightarrow>
    job_ok c s' i j"
  using relaying_same unfolding job_ok_def by blast

lemma job_ok_start:
  assumes "relaying s i key m" "jobMetric j = m\<lparr>FlushTime := now\<rparr>"
    and "ProcessMetric (jobMetric j) (FlushInterval c) (Percentile c) = Some m'"
    and "jobTime j = itoa (FlushTime m')" "jobLines j = carbon_sends c m'"
  shows "job_ok c s i j"
  using assms unfolding job_ok_def
  by (intro exI [of _ key] exI [of _ m] exI [of _ now] exI [of _ m'] exI [of _ "[]"]) simp

lemma job_ok_key: "job_ok c s i j \<Longrightarrow> next_key (wPc (sWorkers s ! i)) \<noteq> None"
  by (auto simp: job_ok_def relaying_def pc_of_def)

lemma pool_step_clients:
  assumes "pool_step env p (i, e) p'"
  shows "i < length (sysClients p) \<and> length (sysClients p') = length (sysClients p) \<and>
    (\<forall>k. k \<noteq> i \<longrightarrow> sysClients p' ! k = sysClients p ! k) \<and> (sysCrashed p' \<longleftrightarrow> e = TimedOut)"
  using assms by (cases rule: pool_step.cases) (auto simp: client_at_def)

text \<open>A step that only moves goroutine \<open>i\<close>, its call and its client.\<close>

lemma jobs_ok_update:
  assumes "jobs_ok c d" "rJobs d' = (rJobs d)[i := jo]"
    and "length (sWorkers (rSys d')) = length (sWorkers (rSys d))"
    and "length (sysClients (rPool d')) = length (sysClients (rPool d))"
    and "\<And>k. k \<noteq> i \<Longrightarrow> sWorkers (rSys d') ! k = sWorkers (rSys d) ! k \<and> sysClients (rPool d') ! k = sysClients (rPool d) ! k"
    and "sysCrashed (rPool d') \<longrightarrow> sOver (rSys d')"
    and "i < length (rJobs d) \<Longrightarrow> slot_ok c (rSys d') i jo (sysClients (rPool d') ! i)"
  shows "jobs_ok c d'"
proof -
  have "slot_ok c (rSys d') k (rJobs d' ! k) (sysClients (rPool d') ! k)" if k: "k < length (rJobs d)" for k
  proof (cases "k = i")
    case True
    then show ?thesis using assms(2,7) k by simp
  next
    case False
    then have "slot_ok c (rSys d) k (rJobs d' ! k) (sysClients (rPool d') ! k)"
      using assms(1,2) assms(5) [of k] k by (simp add: jobs_ok_def)
    then show ?thesis
      using assms(5) [OF False] assms(3) job_ok_same [of c "rSys d" k _ "rSys d'"]
      by (auto simp: slot_ok_def split: option.splits)
  qed
  then show ?thesis using assms(1-4,6) by (simp add: jobs_ok_def)
qed

lemma job_after_cases:
  "job_after e j = j \<or> job_after e j = j\<lparr>jobRetry := False\<rparr> \<or> job_after e j = next_line j"
  by (auto simp: job_after_def)

lemma job_ok_suffix:
  assumes "job_ok c s i j" "jobMetric j' = jobMetric j" "jobTime j' = jobTime j" "jobLines j = pre @ jobLines j'"
  shows "job_ok c s i j'"
proof -
  obtain key m now m' sent where "relaying s i key m" "jobMetric j = m\<lparr>FlushTime := now\<rparr>"
    "ProcessMetric (jobMetric j) (FlushInterval c) (Percentile c) = Some m'"
    "jobTime j = itoa (FlushTime m')" "carbon_sends c m' = sent @ jobLines j"
    using assms(1) unfolding job_ok_def by blast
  then show ?thesis
    using assms(2-4) unfolding job_ok_def
    by (intro exI [of _ key] exI [of _ m] exI [of _ now] exI [of _ m'] exI [of _ "sent @ pre"]) simp
qed

lemma job_after_ok:
  assumes "job_ok c s i j" "jobLines j = l # ls"
  shows "job_ok c s i (job_after e j)"
  using job_after_cases [of e j]
proof (elim disjE)
  assume "job_after e j = next_line j"
  then show ?thesis using assms by (intro job_ok_suffix [OF assms(1), of _ "[l]"]) (simp_all add: next_line_def)
qed (use assms(1) in \<open>auto intro: job_ok_suffix [OF assms(1), of _ "[]"]\<close>)

text \<open>An attempt that ends a line leaves the client outside.\<close>

lemma line_over: "pool_step env p (i, e) p' \<Longrightarrow> jobLines j \<noteq> [] \<Longrightarrow> jobLines (job_after e j) = [] \<Longrightarrow>
    sysClients p' ! i = Free"
  by (cases rule: pool_step.cases)
    (auto simp: job_after_def attempt_failed_def client_at_def next_line_def split: if_splits)

lemma jobs_ok_step: "relay_step env auth load c d e d' \<Longrightarrow> jobs_ok c d \<Longrightarrow> jobs_ok c d'"
proof (induction rule: relay_step.induct)
  case (elsewhere d s)
  have "sOver s" if "sOver (rSys d)"
    using elsewhere.hyps(1) that by (induction rule: sys_step.induct) (simp_all add: worker_at_def)
  moreover have "slot_ok c s k (rJobs d ! k) (sysClients (rPool d) ! k)" if "k < length (rJobs d)" for k
    using elsewhere.prems elsewhere_keeps [OF elsewhere.hyps] job_ok_same [of c "rSys d" k _ s] job_ok_key [of c "rSys d" k] that
    by (auto simp: jobs_ok_def slot_ok_def split: option.splits)
  ultimately show ?case using elsewhere.prems elsewhere_keeps [OF elsewhere.hyps] by (auto simp: jobs_ok_def)
next
  case (begins d i key m now m')
  let ?j = "\<lparr>jobMetric = m\<lparr>FlushTime := now\<rparr>, jobTime = itoa (FlushTime m'), jobLines = carbon_sends c m', jobRetry = True\<rparr>"
  have "job_ok c (rSys d) i ?j" using begins.hyps(4,5) by (intro job_ok_start) simp_all
  moreover have "sysClients (rPool d) ! i = Free"
    using begins.hyps(2,3) begins.prems by (auto simp: jobs_ok_def job_at_def slot_ok_def)
  ultimately show ?case
    by (intro jobs_ok_update [OF begins.prems, of _ i]) (use begins.prems in \<open>auto simp: jobs_ok_def slot_ok_def\<close>)
next
  case (panics d i key m now)
  have "job_ok c ((rSys d)\<lparr>sOver := True\<rparr>) k j = job_ok c (rSys d) k j" for k j
    by (auto simp: job_ok_def relaying_def pc_of_def store_at_def)
  then show ?case using panics.prems by (auto simp: jobs_ok_def slot_ok_def split: option.splits)
next
  case (sends d i j l ls e p)
  have over: "job_ok c ((rSys d)\<lparr>sOver := b\<rparr>) i k = job_ok c (rSys d) i k" for b k
    by (auto simp: job_ok_def relaying_def pc_of_def store_at_def)
  show ?case
    by (rule jobs_ok_update [OF sends.prems, of _ i])
      (use pool_step_clients [OF sends.hyps(4)] job_after_ok [OF jobs_ok_job [OF sends.prems sends.hyps(2)] sends.hyps(3), of e]
         line_over [OF sends.hyps(4), of j] sends.hyps(3) over in \<open>auto simp: slot_ok_def\<close>)
next
  case (returns d i j key m)
  show ?case
    by (rule jobs_ok_update [OF returns.prems, of _ i])
      (use returns in \<open>auto simp: jobs_ok_def slot_ok_def job_at_def set_worker_at split: option.splits\<close>)
qed

lemma jobs_ok_init: "jobs_ok c (relay_init config pool n)"
  by (auto simp: jobs_ok_def slot_ok_def relay_init_def main_init_def pool_start_def Let_def)

subsection \<open>Both views of the daemon\<close>

text \<open>Each step is one of \<open>System\<close> or leaves its state alone, and the same for \<open>Pool_Clients\<close>.\<close>

lemma sys_over_same: "\<not> sOver s \<Longrightarrow> s\<lparr>sOver := False\<rparr> = s"
  by (cases s) simp

lemma step_sys: "relay_step env auth load c d e d' \<Longrightarrow> jobs_ok c d \<Longrightarrow>
    rSys d' = rSys d \<or> sys_step auth load (rSys d) (rSys d')"
proof (induction rule: relay_step.induct)
  case (panics d i key m now)
  then show ?case by (simp add: sys_step.over)
next
  case (sends d i j l ls e p)
  then show ?case by (cases "e = TimedOut") (simp_all add: sys_step.over sys_over_same)
next
  case (returns d i j key m)
  then obtain now where j: "jobMetric j = m\<lparr>FlushTime := now\<rparr>"
    using jobs_ok_job [OF returns.prems returns.hyps(2)] by (auto simp: job_ok_def relaying_def)
  have r: "i < length (sWorkers (rSys d))" "store_at (rSys d) i key = Some m" "next_key (pc_of (rSys d) i) = Some key"
    using returns.hyps(4) by (simp_all add: relaying_def)
  from next_key_after [OF r(3)] show ?case
  proof (elim disjE exE conjE)
    fix keys n
    assume "pc_of (rSys d) i = RelayingAll (key # keys) n" "after_key (pc_of (rSys d) i) = RelayingAll keys n"
    then show ?thesis
      using sys_step.relay_returns [of "rSys d" i key keys n m auth load now] returns.hyps(1) r(1,2) j
      by (simp add: worker_at_def pc_of_def)
  next
    fix keys
    assume "pc_of (rSys d) i = RelayingInternal (key # keys)" "after_key (pc_of (rSys d) i) = RelayingInternal keys"
    then show ?thesis
      using sys_step.internal_returns [of "rSys d" i key keys m auth load now] returns.hyps(1) r(1,2) j
      by (simp add: worker_at_def pc_of_def)
  qed
qed simp_all

lemma step_pool: "relay_step env auth load c d e d' \<Longrightarrow>
    rPool d' = rPool d \<or> (\<exists>ie. pool_step env (rPool d) ie (rPool d'))"
  by (induction rule: relay_step.induct) auto

lemma relay_reach_rtranclp:
  "relay_reach env auth load c s t \<longleftrightarrow> (\<lambda>s t. \<exists>e. relay_step env auth load c s e t)\<^sup>*\<^sup>* s t"
proof
  show "(\<lambda>s t. \<exists>e. relay_step env auth load c s e t)\<^sup>*\<^sup>* s t" if "relay_reach env auth load c s t"
    using that by (induction rule: relay_reach.induct) (auto intro: rtranclp.rtrancl_into_rtrancl)
  show "relay_reach env auth load c s t" if "(\<lambda>s t. \<exists>e. relay_step env auth load c s e t)\<^sup>*\<^sup>* s t"
    using that by (induction rule: rtranclp_induct) (auto intro: relay_reach.intros)
qed

interpretation relay_to_sys: refinement "\<lambda>d d'. \<exists>e. relay_step env auth load c d e d'" "jobs_ok c" rSys "sys_step auth load"
  for env auth load c
  by unfold_locales (use jobs_ok_step step_sys in blast)+

interpretation relay_to_pool: refinement "\<lambda>d d'. \<exists>e. relay_step env auth load c d e d'" "jobs_ok c" rPool
  "\<lambda>p p'. \<exists>ie. pool_step env p ie p'" for env auth load c
  by unfold_locales (use jobs_ok_step step_pool in blast)+

lemma jobs_ok_reach: "relay_reach env auth load c (relay_init config pool n) d \<Longrightarrow> jobs_ok c d"
  unfolding relay_reach_rtranclp by (rule relay_to_sys.inv_reach [OF _ jobs_ok_init])

lemma views_reach:
  assumes "relay_reach env auth load c (relay_init config pool n) d"
  shows "sys_reach auth load (main_init config) (rSys d) \<and>
    pool_reach env (pool_start pool n (nat (relayConcurrency (cfgRelay config)))) (rPool d)"
  using relay_to_sys.view_reach [OF assms [unfolded relay_reach_rtranclp] jobs_ok_init]
    relay_to_pool.view_reach [OF assms [unfolded relay_reach_rtranclp] jobs_ok_init]
  by (simp add: sys_reach_rtranclp pool_reach_rtranclp relay_init_def Let_def)

lemma relayed_grows: "sys_step auth load s s' \<Longrightarrow> length (sRelayed s) \<le> length (sRelayed s') \<and> (length (sRelayed s') = length (sRelayed s) \<longrightarrow> sRelayed s' = sRelayed s)"
  by (induction rule: sys_step.induct) (simp_all add: set_worker_def)

text \<open>What the rest of the daemon does between two calls is a run of the composed system.\<close>

lemma elsewhere_run:
  assumes "sys_reach auth load (rSys d) s" "length (sRelayed s) \<le> length (sRelayed (rSys d))"
  shows "sRelayed s = sRelayed (rSys d) \<and> relay_reach env auth load c d (d\<lparr>rSys := s\<rparr>)"
  using assms
proof (induction rule: sys_reach.induct)
  case start
  then show ?case by (simp add: relay_reach.start)
next
  case (step s s')
  have grows: "length (sRelayed s) \<le> length (sRelayed s')" "length (sRelayed s') = length (sRelayed s) \<longrightarrow> sRelayed s' = sRelayed s"
    using relayed_grows [OF step.hyps(2)] by simp_all
  then have "length (sRelayed s) \<le> length (sRelayed (rSys d))" using step.prems by simp
  then have ih: "sRelayed s = sRelayed (rSys d)" "relay_reach env auth load c d (d\<lparr>rSys := s\<rparr>)" using step.IH by simp_all
  have "length (sRelayed s') = length (sRelayed s)" using grows(1) step.prems unfolding ih(1) by (rule le_antisym [rotated])
  then have same: "sRelayed s' = sRelayed s" using grows(2) by blast
  then have "relay_step env auth load c (d\<lparr>rSys := s\<rparr>) Elsewhere (d\<lparr>rSys := s'\<rparr>)"
    using relay_step.elsewhere [of auth load "d\<lparr>rSys := s\<rparr>" s' env c] step.hyps(2) by simp
  then have "relay_reach env auth load c d (d\<lparr>rSys := s'\<rparr>)" by (rule relay_reach.step [OF ih(2)])
  then show ?case using same ih(1) by simp
qed

end
