(* ===== verification/Relay_System_Facts.thy ===== *)
theory Relay_System_Facts
  imports Relay_System "HOL-Library.Sublist"
begin

text \<open>
  What the composed daemon does on the wire: every line of every relayed metric is written or was
  tried twice, a call of \<open>Relay\<close> always has a next step and ends after a bounded number of them.
\<close>

subsection \<open>Refinement\<close>

lemma jobs_ok_client:
  assumes "jobs_ok c d" "client_at (rPool d) i cl" "cl \<noteq> Free"
  shows "\<exists>key m. relaying (rSys d) i key m"
proof -
  have "slot_ok c (rSys d) i (rJobs d ! i) cl" using assms(1,2) by (auto simp: jobs_ok_def client_at_def)
  then obtain j where "job_ok c (rSys d) i j" using assms(3) by (auto simp: slot_ok_def split: option.splits)
  then show ?thesis unfolding job_ok_def by blast
qed

text \<open>
  Property C8.  The daemon with its calls of \<open>Relay\<close> opened up refines both abstractions: what it
  does to channels, stores and relayed metrics is a run of \<open>System\<close>, what it does to the pool is a
  run of \<open>Pool_Clients\<close>, and only a goroutine that relays a metric is in an operation of the pool.
\<close>
theorem relay_system_refines:
  assumes "relay_reach env auth load c (relay_init config pool n) d"
  shows "sys_reach auth load (main_init config) (rSys d) \<and>
    pool_reach env (pool_start pool n (nat (relayConcurrency (cfgRelay config)))) (rPool d) \<and>
    (\<forall>i cl. client_at (rPool d) i cl \<and> cl \<noteq> Free \<longrightarrow> (\<exists>key m. relaying (rSys d) i key m))"
  using views_reach [OF assms] jobs_ok_client [OF jobs_ok_reach [OF assms]] by blast

subsection \<open>Sums over the goroutines\<close>

definition slots :: "relay_sys \<Rightarrow> (job option \<times> client) list" where
  "slots d = zip (rJobs d) (sysClients (rPool d))"

lemma sum_zip_update:
  fixes f :: "'a \<times> 'b \<Rightarrow> 'c :: {comm_monoid_add}"
  assumes "i < length xs" "length ys = length xs" "length ys' = length ys" "\<And>k. k \<noteq> i \<Longrightarrow> ys' ! k = ys ! k"
  shows "f (xs ! i, ys ! i) + sum_list (map f (zip (xs[i := x]) ys')) = f (x, ys' ! i) + sum_list (map f (zip xs ys))"
proof -
  have "ys' = ys[i := ys' ! i]"
  proof (rule nth_equalityI)
    show "ys' ! k = ys[i := ys' ! i] ! k" if "k < length ys'" for k
      using assms(3) assms(4) [of k] that by (cases "k = i") auto
  qed (use assms(3) in simp)
  moreover have "zip (xs[i := x]) (ys[i := ys' ! i]) = (zip xs ys)[i := (x, ys' ! i)]" by (simp add: update_zip)
  ultimately have "zip (xs[i := x]) ys' = (zip xs ys)[i := (x, ys' ! i)]" by argo
  then show ?thesis using sum_list_map_update [of i "zip xs ys" f "(x, ys' ! i)"] assms(1,2) by simp
qed

lemma slots_step:
  fixes f :: "job option \<times> client \<Rightarrow> 'c :: {comm_monoid_add}"
  assumes "jobs_ok c d" "i < length (rJobs d)" "rJobs d' = (rJobs d)[i := x]"
    and "rPool d' = rPool d \<or> pool_step env (rPool d) (i, e) (rPool d')"
  shows "f (rJobs d ! i, sysClients (rPool d) ! i) + sum_list (map f (slots d')) =
    f (x, sysClients (rPool d') ! i) + sum_list (map f (slots d))"
  unfolding slots_def assms(3)
  by (rule sum_zip_update) (use assms(1,2,4) pool_step_clients [of env "rPool d" i e "rPool d'"] in \<open>auto simp: jobs_ok_def\<close>)

subsection \<open>What a step writes\<close>

text \<open>The lines a call has still to write; the one of a connection that is being given back is out.\<close>

fun to_send :: "job option \<times> client \<Rightarrow> string multiset" where
  "to_send (None, cl) = {#}"
| "to_send (Some j, Returning x) = mset (map (line_text j) (tl (jobLines j)))"
| "to_send (Some j, cl) = mset (map (line_text j) (jobLines j))"

definition metrics_lines :: "CarbonRelay \<Rightarrow> Metric list \<Rightarrow> string multiset" where
  "metrics_lines c ms = (\<Sum>m\<leftarrow>ms. mset (metric_lines c m))"

fun call_lines :: "CarbonRelay \<Rightarrow> job option \<times> client \<Rightarrow> string multiset" where
  "call_lines c (None, cl) = {#}"
| "call_lines c (Some j, cl) = mset (metric_lines c (jobMetric j))"

lemma line_text_after [simp]:
  "line_text (job_after e j) = line_text j" "line_text (j\<lparr>jobLines := ls, jobRetry := b\<rparr>) = line_text j"
  "line_text (j\<lparr>jobRetry := b\<rparr>) = line_text j" "line_text (j\<lparr>jobLines := ls\<rparr>) = line_text j"
  by (auto simp: fun_eq_iff line_text_def job_after_def next_line_def)

lemma jobMetric_after [simp]: "jobMetric (job_after e j) = jobMetric j"
  by (simp add: job_after_def next_line_def)

lemma to_send_step:
  assumes "pool_step env p (i, e) p'" "jobLines j = l # ls" "\<And>msg ok. e = Wrote msg ok \<Longrightarrow> msg = line_text j l"
  shows "to_send (Some j, sysClients p ! i) =
    to_send (Some (job_after e j), sysClients p' ! i) + mset (written_by e) + mset (given_up_by e j)"
  using assms
  by (cases rule: pool_step.cases)
    (auto simp: client_at_def job_after_def attempt_failed_def given_up_by_def next_line_def line_text_def)

text \<open>Failed writes: each goroutine answers for the failure it is dealing with and for the one before its retry.\<close>

lemma conn_call_writes:
  "conn_set_deadline c t n = Done n' \<Longrightarrow> writes n' = writes n \<and> wire n' = wire n"
  "conn_close c n = Done n' \<Longrightarrow> writes n' = writes n \<and> wire n' = wire n"
  by (cases c; auto)+

definition failed_writes :: "net_env \<Rightarrow> net \<Rightarrow> nat" where
  "failed_writes env n = length (filter (\<lambda>k. write_fails env k \<noteq> None) [0..<writes n])"

fun burden :: "job option \<times> client \<Rightarrow> nat" where
  "burden (None, cl) = 0"
| "burden (Some j, cl) =
     (if jobRetry j then 0 else 1) + (case cl of Free \<Rightarrow> 0 | Using x \<Rightarrow> 0 | Returning x \<Rightarrow> 0 | _ \<Rightarrow> 1)"

lemma burden_step:
  assumes "pool_step env p (i, e) p'" "jobLines j = l # ls"
  shows "burden (Some (job_after e j), sysClients p' ! i) + 2 * length (given_up_by e j) + failed_writes env (sysNet p) \<le>
    burden (Some j, sysClients p ! i) + failed_writes env (sysNet p')"
  using assms
proof (cases rule: pool_step.cases)
  case (wrote c msg ok n)
  then show ?thesis
    by (cases c) (auto simp: client_at_def job_after_def attempt_failed_def given_up_by_def failed_writes_def Let_def split: option.splits)
qed (auto simp: client_at_def job_after_def attempt_failed_def given_up_by_def next_line_def failed_writes_def
     split: if_splits dest!: conn_call_writes)

text \<open>The wire: a good write adds the whole line, a failed one a part of it.\<close>

lemma wire_step:
  assumes "pool_step env p (i, e) p'"
  shows "\<exists>part. map snd (wire (sysNet p')) = map snd (wire (sysNet p)) @ written_by e @ part \<and>
    ((\<forall>k. write_fails env k = None) \<longrightarrow> part = [])"
  using assms
proof (cases rule: pool_step.cases)
  case (wrote c msg ok n)
  then show ?thesis by (cases c) (auto simp: Let_def split: option.splits)
qed (auto dest!: conn_call_writes)

subsection \<open>The lines of the relayed metrics\<close>

lemma line_text_lines:
  "ProcessMetric (jobMetric j) (FlushInterval c) (Percentile c) = Some m' \<Longrightarrow> jobTime j = itoa (FlushTime m') \<Longrightarrow>
    metric_lines c (jobMetric j) = map (line_text j) (carbon_sends c m')"
  by (simp add: metric_lines_def line_text_def case_prod_beta)

text \<open>What is owed is written, given up, or still to send; two failed writes stand behind each line
  that is given up; and the wire has the written lines in the order of the writes.\<close>

definition wire_ok :: "net_env \<Rightarrow> CarbonRelay \<Rightarrow> net \<Rightarrow> relay_sys \<Rightarrow> bool" where
  "wire_ok env c n0 d \<longleftrightarrow>
     metrics_lines c (sRelayed (rSys d)) + (\<Sum>x\<leftarrow>slots d. call_lines c x) =
       mset (rWritten d) + mset (rGivenUp d) + (\<Sum>x\<leftarrow>slots d. to_send x) \<and>
     failed_writes env n0 + 2 * length (rGivenUp d) + (\<Sum>x\<leftarrow>slots d. burden x) \<le> failed_writes env (sysNet (rPool d)) \<and>
     subseq (map snd (wire n0) @ rWritten d) (map snd (wire (sysNet (rPool d))))"

lemma balance:
  fixes R :: "'a multiset"
  assumes "a + CL' = b + CL" "p + TS' = q + TS" "R + CL = W + TS" "q + a + R + V = b + p + R'"
  shows "R' + CL' = W + V + TS'"
proof (rule multiset_eqI)
  fix x
  from assms [THEN arg_cong [where f = "\<lambda>M. count M x"]]
  show "count (R' + CL') x = count (W + V + TS') x" by simp
qed

lemma wire_ok_move:
  assumes ok: "wire_ok env c n0 d" and jobs: "jobs_ok c d" "i < length (rJobs d)" "rJobs d' = (rJobs d)[i := x]"
    "rPool d' = rPool d \<or> pool_step env (rPool d) (i, e) (rPool d')"
    and out: "rWritten d' = rWritten d @ W" "rGivenUp d' = rGivenUp d @ G"
    and before: "rJobs d ! i = jo" "sysClients (rPool d) ! i = cl" and after: "sysClients (rPool d') ! i = cl'"
    and lines: "to_send (x, cl') + call_lines c (jo, cl) + metrics_lines c (sRelayed (rSys d)) + (mset W + mset G) =
      call_lines c (x, cl') + to_send (jo, cl) + metrics_lines c (sRelayed (rSys d'))"
    and failures: "burden (x, cl') + 2 * length G + failed_writes env (sysNet (rPool d)) \<le>
      burden (jo, cl) + failed_writes env (sysNet (rPool d'))"
    and wire: "map snd (wire (sysNet (rPool d'))) = map snd (wire (sysNet (rPool d))) @ W @ part"
  shows "wire_ok env c n0 d'"
proof -
  note sums = slots_step [OF jobs, unfolded before after]
  have "metrics_lines c (sRelayed (rSys d')) + (\<Sum>x\<leftarrow>slots d'. call_lines c x) =
      (mset (rWritten d) + mset (rGivenUp d)) + (mset W + mset G) + (\<Sum>x\<leftarrow>slots d'. to_send x)"
    by (rule balance [OF sums [of "call_lines c"] sums [of to_send] _ lines]) (use ok in \<open>simp add: wire_ok_def\<close>)
  moreover have "failed_writes env n0 + 2 * length (rGivenUp d @ G) + (\<Sum>x\<leftarrow>slots d'. burden x) \<le>
      failed_writes env (sysNet (rPool d'))"
    using sums [of burden] failures ok by (simp add: wire_ok_def)
  moreover have "subseq ((map snd (wire n0) @ rWritten d) @ W @ []) (map snd (wire (sysNet (rPool d))) @ W @ part)"
    using ok by (intro list_emb_append_mono) (auto simp: wire_ok_def)
  ultimately show ?thesis by (simp add: wire_ok_def out wire ac_simps)
qed

lemma relaying_lines: "metrics_lines c (ms @ [m]) = metrics_lines c ms + mset (metric_lines c m)"
  by (simp add: metrics_lines_def)

lemma slots_same: "rJobs d' = rJobs d \<Longrightarrow> rPool d' = rPool d \<Longrightarrow> slots d' = slots d"
  by (simp add: slots_def)

lemma wire_ok_step:
  "relay_step env auth load c d e d' \<Longrightarrow> jobs_ok c d \<Longrightarrow> wire_ok env c n0 d \<Longrightarrow> wire_ok env c n0 d'"
proof (induction rule: relay_step.induct)
  case (elsewhere d s)
  then show ?case by (simp add: wire_ok_def slots_same [of "d\<lparr>rSys := s\<rparr>" d])
next
  case (panics d i key m now)
  then show ?case by (simp add: wire_ok_def slots_same [of "d\<lparr>rSys := _\<rparr>" d])
next
  case (begins d i key m now m')
  have idle: "rJobs d ! i = None" "sysClients (rPool d) ! i = Free"
    using begins.hyps(2,3) begins.prems(1) by (auto simp: jobs_ok_def job_at_def slot_ok_def)
  let ?j = "\<lparr>jobMetric = m\<lparr>FlushTime := now\<rparr>, jobTime = itoa (FlushTime m'), jobLines = carbon_sends c m', jobRetry = True\<rparr>"
  have "metric_lines c (jobMetric ?j) = map (line_text ?j) (carbon_sends c m')"
    by (rule line_text_lines) (use begins.hyps(5) in simp_all)
  then show ?case
    by (intro wire_ok_move [OF begins.prems(2,1) begins.hyps(2), where x = "Some ?j" and cl' = Free and W = "[]" and G = "[]" and part = "[]" and e = Got,
          OF _ _ _ _ idle]) (simp_all add: idle)
next
  case (sends d i j l ls e p)
  have at: "i < length (rJobs d)" "rJobs d ! i = Some j" using sends.hyps(2) by (simp_all add: job_at_Some)
  obtain part where part: "map snd (wire (sysNet p)) = map snd (wire (sysNet (rPool d))) @ written_by e @ part"
    using wire_step [OF sends.hyps(4)] by blast
  have lines: "to_send (Some j, sysClients (rPool d) ! i) =
      to_send (Some (job_after e j), sysClients p ! i) + mset (written_by e) + mset (given_up_by e j)"
    by (rule to_send_step [OF sends.hyps(4,3)]) (rule sends.hyps(5))
  show ?case
    by (rule wire_ok_move [OF sends.prems(2,1) at(1), where x = "Some (job_after e j)" and jo = "Some j"
          and cl = "sysClients (rPool d) ! i" and cl' = "sysClients p ! i"
          and W = "written_by e" and G = "given_up_by e j" and part = part and e = e])
      (use lines burden_step [OF sends.hyps(4,3)] sends.hyps(4) part at(2) in \<open>simp_all add: ac_simps del: burden.simps\<close>)
next
  case (returns d i j key m)
  have at: "i < length (rJobs d)" "rJobs d ! i = Some j" using returns.hyps(2) by (simp_all add: job_at_Some)
  have free: "sysClients (rPool d) ! i = Free"
    using returns.prems(1) returns.hyps(3) at by (auto simp: jobs_ok_def slot_ok_def)
  show ?case
    by (intro wire_ok_move [OF returns.prems(2,1) at(1), where x = None and cl' = Free and W = "[]" and G = "[]" and part = "[]" and e = Got,
          OF _ _ _ _ at(2) free])
      (simp_all add: free returns.hyps(3) relaying_lines ac_simps)
qed

lemma wire_ok_init: "wire_ok env c n (relay_init config pool n)"
proof -
  have "sum_list (map f (zip (replicate k None) (replicate k Free))) = 0" if "f (None, Free) = 0"
    for f :: "job option \<times> client \<Rightarrow> 'a :: comm_monoid_add" and k
    using that by (induction k) simp_all
  then show ?thesis
    by (simp add: wire_ok_def relay_init_def Let_def slots_def pool_start_def main_init_def metrics_lines_def)
qed

lemma wire_ok_reach:
  "relay_reach env auth load c (relay_init config pool n) d \<Longrightarrow> wire_ok env c n d"
proof (induction rule: relay_reach.induct)
  case start
  show ?case by (rule wire_ok_init)
next
  case (step d e d')
  show ?case by (rule wire_ok_step [OF step.hyps(2) jobs_ok_reach [OF step.hyps(1)] step.IH])
qed

text \<open>
  Property C3.  Nothing is lost silently on the way to carbon, over every interleaving and with any
  failures: the lines of the metrics whose \<open>Relay\<close> has returned or is under way are, each exactly
  once, written, given up, or still to send.  The written ones are whole on the wire in the order
  of the writes, and behind each one given up there are two failed writes.
\<close>
theorem relay_system_accounts:
  assumes "relay_reach env auth load c (relay_init config pool n) d"
  shows "metrics_lines c (sRelayed (rSys d)) + (\<Sum>x\<leftarrow>slots d. call_lines c x) =
      mset (rWritten d) + mset (rGivenUp d) + (\<Sum>x\<leftarrow>slots d. to_send x) \<and>
    subseq (map snd (wire n) @ rWritten d) (map snd (wire (sysNet (rPool d)))) \<and>
    failed_writes env n + 2 * length (rGivenUp d) \<le> failed_writes env (sysNet (rPool d))"
  using wire_ok_reach [OF assms] by (simp add: wire_ok_def)

lemma clean_wire:
  assumes "relay_reach env auth load c (relay_init config pool n) d" "\<And>k. write_fails env k = None"
  shows "map snd (wire (sysNet (rPool d))) = map snd (wire n) @ rWritten d"
  using assms(1)
proof (induction rule: relay_reach.induct)
  case start
  show ?case by (simp add: relay_init_def pool_start_def Let_def)
next
  case (step d e d')
  show ?case
    using step.hyps(2) step.IH by (induction rule: relay_step.induct) (use wire_step assms(2) in \<open>fastforce+\<close>)
qed

lemma no_calls_sums:
  assumes "\<And>i. job_at d i = None"
  shows "(\<Sum>x\<leftarrow>slots d. call_lines c x) = {#}" "(\<Sum>x\<leftarrow>slots d. to_send x) = {#}"
proof -
  have "fst x = None" if "x \<in> set (slots d)" for x
    using that assms by (force simp: slots_def job_at_def set_zip split: if_splits)
  then have "call_lines c x = {#} \<and> to_send x = {#}" if "x \<in> set (slots d)" for x
    using that by (cases x) force
  then have "map (call_lines c) (slots d) = map (\<lambda>_. {#}) (slots d)" "map to_send (slots d) = map (\<lambda>_. {#}) (slots d)"
    by simp_all
  then show "(\<Sum>x\<leftarrow>slots d. call_lines c x) = {#}" "(\<Sum>x\<leftarrow>slots d. to_send x) = {#}"
    by (simp_all del: map_eq_conv)
qed

text \<open>
  Fact.  On a network where no write fails, what carbon has been sent is exactly what was relayed:
  whenever no call of \<open>Relay\<close> is under way, the wire holds the lines of the relayed metrics, every
  line whole and exactly once, and nothing else.
\<close>
theorem relay_system_delivers:
  assumes "relay_reach env auth load c (relay_init config pool n) d"
    and "\<And>k. write_fails env k = None" "wire n = []" "\<And>i. job_at d i = None"
  shows "mset (map snd (wire (sysNet (rPool d)))) = metrics_lines c (sRelayed (rSys d)) \<and> rGivenUp d = []"
proof -
  have "failed_writes env n' = 0" for n' using assms(2) by (simp add: failed_writes_def)
  then show ?thesis
    using wire_ok_reach [OF assms(1)] clean_wire [OF assms(1,2)] assms(3) no_calls_sums [OF assms(4)]
    by (simp add: wire_ok_def)
qed

subsection \<open>Calls go on\<close>

fun actor :: "relay_event \<Rightarrow> nat option" where
  "actor Elsewhere = None"
| "actor (Begins i) = Some i"
| "actor (Panics i) = Some i"
| "actor (Sends i e) = Some i"
| "actor (Returns i) = Some i"

lemma live_conn: "slots_ok p \<Longrightarrow> client_at p i cl \<Longrightarrow> x \<in># held cl \<Longrightarrow> \<exists>k. x = Conn k"
  using held_conn [of p i cl x] by (auto simp: slots_ok_def live_def)

text \<open>A goroutine that has a line to write is never stuck in the pool.\<close>

lemma pool_proceeds:
  assumes "slots_ok p" "client_at p i cl"
  shows "\<exists>e p'. pool_step env p (i, e) p' \<and> (\<forall>msg' ok. e = Wrote msg' ok \<longrightarrow> msg' = msg)"
proof (cases cl)
  case Free
  show ?thesis
  proof (cases "timer_first env (gets (sysNet p)) \<or> chan_recv (Connections (sysPool p)) = None")
    case True
    then show ?thesis using pool_step.timed_out [of p i env] assms(2) Free by blast
  next
    case False
    then obtain x ch where "chan_recv (Connections (sysPool p)) = Some (x, ch)" by auto
    then show ?thesis using pool_step.got [of p i env x ch] assms(2) Free False by blast
  qed
next
  case (Using x)
  then obtain k where "x = Conn k" using live_conn [OF assms, of x] by auto
  then obtain ok n where "conn_write env x msg (sysNet p) = Done (ok, n)"
    by (cases "write_fails env (writes (sysNet p))") (auto simp: Let_def)
  then show ?thesis using pool_step.wrote [of p i x env msg ok n] assms(2) Using by blast
next
  case (Returning x)
  then obtain k where "x = Conn k" using live_conn [OF assms, of x] by auto
  then obtain n where "conn_set_deadline x (Timeout (sysPool p)) (sysNet p) = Done n" by simp
  moreover obtain ch where "chan_send (Connections (sysPool p)) x = Some ch"
    using sends_proceed [OF assms(1), of i x] assms(2) Returning by blast
  ultimately show ?thesis using pool_step.gave_back [of p i x n ch env] assms(2) Returning by blast
next
  case (Replacing x)
  then obtain k where "x = Conn k" using live_conn [OF assms, of x] by auto
  then obtain n where "conn_close x (sysNet p) = Done n" by simp
  then show ?thesis using pool_step.closed_conn [of p i x n _ env] assms(2) Replacing by blast
next
  case Dialing
  obtain t where t: "conn_type (Type (sysPool p)) = Some t" using assms(1) by (auto simp: slots_ok_def)
  show ?thesis
  proof (cases "dial_ok env (dials (sysNet p)) t (Addr (sysPool p))")
    case True
    then show ?thesis using pool_step.dialed [of p i t env] t assms(2) Dialing by (meson conn_set_deadline.simps(2) pool_event.distinct)
  next
    case False
    then show ?thesis using pool_step.refused [of p i t env] t assms(2) Dialing by blast
  qed
next
  case (Counting v)
  then show ?thesis using pool_step.counted [of p i v env] assms(2) by blast
next
  case (Pushing x)
  then obtain ch where "chan_send (Connections (sysPool p)) x = Some ch"
    using sends_proceed [OF assms(1), of i x] assms(2) by blast
  then show ?thesis using pool_step.pushed [of p i x ch env] assms(2) Pushing by blast
qed

lemma create_relay_slots:
  assumes "CreateRelay env config n = Done (relay, Some pool, n')" "\<forall>i \<in> set (closed n). i < dials n"
  shows "slots_ok (pool_start pool n' m)"
  by (rule slots_ok_start [OF create_relay_connects [OF assms(1)] assms(2)])

text \<open>
  Property C19.  A goroutine in a flush never waits for another one: while the process runs and the
  goroutine is at a metric, it has a step of its own, whatever the others are doing with the pool
  and however the network behaves.
\<close>
theorem relay_call_proceeds:
  assumes "CreateRelay env config n = Done (Carbon c, Some pool, n')" "\<forall>i \<in> set (closed n). i < dials n"
    and "relay_reach env auth load c (relay_init config pool n') d"
    and "\<not> sOver (rSys d)" "relaying (rSys d) i key m"
  shows "\<exists>e d'. relay_step env auth load c d e d' \<and> actor e = Some i"
proof -
  have ok: "jobs_ok c d" by (rule jobs_ok_reach [OF assms(3)])
  have slots: "slots_ok (rPool d)"
    using views_reach [OF assms(3)] slots_ok_reach create_relay_slots [OF assms(1,2)] by blast
  have i: "i < length (rJobs d)" using ok assms(5) by (simp add: jobs_ok_def relaying_def)
  show ?thesis
  proof (cases "job_at d i")
    case None
    show ?thesis
    proof (cases "ProcessMetric (m\<lparr>FlushTime := 0\<rparr>) (FlushInterval c) (Percentile c)")
      case p: None
      from relay_step.panics [OF assms(4) None assms(5) p] show ?thesis by fastforce
    next
      case (Some m')
      from relay_step.begins [OF assms(4) i None assms(5) Some] show ?thesis by fastforce
    qed
  next
    case (Some j)
    show ?thesis
    proof (cases "jobLines j")
      case Nil
      from relay_step.returns [OF assms(4) Some Nil assms(5)] show ?thesis by fastforce
    next
      case (Cons l ls)
      have "client_at (rPool d) i (sysClients (rPool d) ! i)"
        using ok i assms(4) by (auto simp: client_at_def jobs_ok_def)
      then obtain e p where "pool_step env (rPool d) (i, e) p" "\<And>msg ok. e = Wrote msg ok \<Longrightarrow> msg = line_text j l"
        using pool_proceeds [OF slots] by blast
      from relay_step.sends [OF assms(4) Some Cons this] show ?thesis by fastforce
    qed
  qed
qed

subsection \<open>Calls end\<close>

text \<open>A line takes two attempts of at most five steps each.\<close>

fun steps_left :: "client \<Rightarrow> nat" where
  "steps_left Free = 5"
| "steps_left (Using x) = 4"
| "steps_left (Replacing x) = 3"
| "steps_left Dialing = 2"
| "steps_left (Counting v) = 1"
| "steps_left (Pushing x) = 1"
| "steps_left (Returning x) = 1"

definition call_work :: "job \<Rightarrow> client \<Rightarrow> nat" where
  "call_work j cl =
     (case jobLines j of [] \<Rightarrow> 0 | l # ls \<Rightarrow> 10 * length ls + (if jobRetry j then 5 else 0) + steps_left cl)"

definition work_at :: "relay_sys \<Rightarrow> nat \<Rightarrow> nat" where
  "work_at d i = (case job_at d i of None \<Rightarrow> 0 | Some j \<Rightarrow> call_work j (sysClients (rPool d) ! i))"

lemma steps_left_le: "steps_left cl \<le> 5" "0 < steps_left cl"
  by (cases cl; simp)+

lemma call_work_le: "call_work j cl \<le> 10 * length (jobLines j)"
  using steps_left_le [of cl] by (auto simp: call_work_def split: list.splits)

lemma call_work_step:
  assumes "pool_step env p (i, e) p'" "jobLines j = l # ls" "e \<noteq> TimedOut"
  shows "call_work (job_after e j) (sysClients p' ! i) < call_work j (sysClients p ! i)"
  using assms
  by (cases rule: pool_step.cases)
    (auto simp: client_at_def job_after_def attempt_failed_def next_line_def call_work_def split: list.splits)

lemma job_lines_le: "job_ok c s i j \<Longrightarrow> length (jobLines j) \<le> length (metric_lines c (jobMetric j))"
proof -
  assume "job_ok c s i j"
  then obtain m' sent where m': "ProcessMetric (jobMetric j) (FlushInterval c) (Percentile c) = Some m'"
    "jobTime j = itoa (FlushTime m')" "carbon_sends c m' = sent @ jobLines j"
    unfolding job_ok_def by blast
  show ?thesis using line_text_lines [OF m'(1,2)] m'(3) by simp
qed

text \<open>
  Property C9.  Every call of \<open>Relay\<close> ends: its goroutine makes at most ten steps on the pool for each
  line.  A number that starts within that bound falls with every step of the goroutine, until the
  call returns or the process ends, and the steps of all others leave it alone.
\<close>
theorem relay_call_ends:
  assumes "relay_reach env auth load c (relay_init config pool n) d" "relay_step env auth load c d e d'"
    and "job_at d i = Some j"
  shows "work_at d i \<le> 10 * length (metric_lines c (jobMetric j)) \<and>
    (if actor e = Some i
     then sOver (rSys d') \<or> job_at d' i = None \<or> (jobMetric (the (job_at d' i)) = jobMetric j \<and> work_at d' i < work_at d i)
     else job_at d' i = Some j \<and> work_at d' i = work_at d i)"
proof
  have ok: "jobs_ok c d" by (rule jobs_ok_reach [OF assms(1)])
  show "work_at d i \<le> 10 * length (metric_lines c (jobMetric j))"
    using call_work_le [of j "sysClients (rPool d) ! i"] job_lines_le [OF jobs_ok_job [OF ok assms(3)]] assms(3)
    by (simp add: work_at_def)
  from assms(2,3)
  show "if actor e = Some i
     then sOver (rSys d') \<or> job_at d' i = None \<or> (jobMetric (the (job_at d' i)) = jobMetric j \<and> work_at d' i < work_at d i)
     else job_at d' i = Some j \<and> work_at d' i = work_at d i"
  proof (induction rule: relay_step.induct)
    case (sends d k jk l ls e p)
    show ?case
    proof (cases "k = i")
      case True
      then show ?thesis
        using sends call_work_step [OF sends.hyps(4,3)] by (cases "e = TimedOut") (auto simp: work_at_def job_at_def)
    next
      case False
      then show ?thesis
        using sends pool_step_clients [OF sends.hyps(4)] by (auto simp: work_at_def job_at_def split: if_splits)
    qed
  qed (auto simp: work_at_def job_at_def nth_list_update split: if_splits)
qed

end
