(* ===== verification/Whole_Program.thy ===== *)
theory Whole_Program
  imports Program Relay_System_Facts
begin

text \<open>
  Everything in one system: the program of \<open>Program\<close>, from the command line to its end, whose
  relay goroutines make the calls of \<open>Relay_System\<close> over the shared pool.  It refines both, so
  that what they say of samples, signals, lines and connections holds of one run of \<open>main\<close>.
\<close>

subsection \<open>States and steps\<close>

record whole =
  wMain :: program
  wRelay :: relay_sys

text \<open>The steps of a call of \<open>Relay\<close> are those of \<open>Relay_System\<close>; no other step relays a metric.\<close>

inductive whole_step ::
  "net_env \<Rightarrow> Auth \<Rightarrow> 'e reloader \<Rightarrow> (os_state \<Rightarrow> os_state outcome) \<Rightarrow> CarbonRelay \<Rightarrow> whole \<Rightarrow> whole \<Rightarrow> bool"
  for env auth load nilUdp c where
  main: "program_step auth load nilUdp (wMain w) p \<Longrightarrow> sRelayed (pSys p) = sRelayed (pSys (wMain w)) \<Longrightarrow>
    whole_step env auth load nilUdp c w \<lparr>wMain = p, wRelay = (wRelay w)\<lparr>rSys := pSys p\<rparr>\<rparr>"
| call: "running (wMain w) \<Longrightarrow> relay_step env auth (\<lambda>_ _. False) c (wRelay w) e d \<Longrightarrow> e \<noteq> Elsewhere \<Longrightarrow>
    whole_step env auth load nilUdp c w \<lparr>wMain = (wMain w)\<lparr>pSys := rSys d\<rparr>, wRelay = d\<rparr>"

inductive whole_reach ::
  "net_env \<Rightarrow> Auth \<Rightarrow> 'e reloader \<Rightarrow> (os_state \<Rightarrow> os_state outcome) \<Rightarrow> CarbonRelay \<Rightarrow> whole \<Rightarrow> whole \<Rightarrow> bool"
  for env auth load nilUdp c w0 where
  start: "whole_reach env auth load nilUdp c w0 w0"
| step: "whole_reach env auth load nilUdp c w0 w \<Longrightarrow> whole_step env auth load nilUdp c w w' \<Longrightarrow>
    whole_reach env auth load nilUdp c w0 w'"

lemma whole_reach_rtranclp:
  "whole_reach env auth load nilUdp c s t \<longleftrightarrow> (whole_step env auth load nilUdp c)\<^sup>*\<^sup>* s t"
proof
  show "(whole_step env auth load nilUdp c)\<^sup>*\<^sup>* s t" if "whole_reach env auth load nilUdp c s t"
    using that by (induction rule: whole_reach.induct) (auto intro: rtranclp.rtrancl_into_rtrancl)
  show "whole_reach env auth load nilUdp c s t" if "(whole_step env auth load nilUdp c)\<^sup>*\<^sup>* s t"
    using that by (induction rule: rtranclp_induct) (auto intro: whole_reach.intros)
qed

text \<open>The start: what \<open>main\<close> has begun, with the pool and the network that \<open>CreateRelay\<close> left.\<close>

definition whole_init :: "begun \<Rightarrow> os_state \<Rightarrow> ConnectionPool \<Rightarrow> whole" where
  "whole_init b os pool =
     \<lparr>wMain = program_init b os, wRelay = relay_init (bgConfig b) pool (stNet (bgStarted b))\<rparr>"

subsection \<open>Both views\<close>

definition whole_ok :: "CarbonRelay \<Rightarrow> whole \<Rightarrow> bool" where
  "whole_ok c w \<longleftrightarrow> program_ok (wMain w) \<and> jobs_ok c (wRelay w) \<and> rSys (wRelay w) = pSys (wMain w)"

text \<open>A call leaves the channels and the flags of the program alone.\<close>

lemma call_keeps:
  assumes "relay_step env auth load c d e d'" "e \<noteq> Elsewhere"
  shows "sParse (rSys d') = sParse (rSys d) \<and> sConfig (rSys d') = sConfig (rSys d)"
  using assms by (induction rule: relay_step.induct) simp_all

lemma call_is_program_step:
  assumes "whole_ok c w" "running (wMain w)" "relay_step env auth (\<lambda>_ _. False) c (wRelay w) e d" "e \<noteq> Elsewhere"
  shows "(wMain w)\<lparr>pSys := rSys d\<rparr> = wMain w \<or> program_step auth load nilUdp (wMain w) ((wMain w)\<lparr>pSys := rSys d\<rparr>)"
proof -
  have agree: "rSys (wRelay w) = pSys (wMain w)" using assms(1) by (simp add: whole_ok_def)
  show ?thesis
    using step_sys [OF assms(3)] assms(1) call_keeps [OF assms(3,4)]
      program_step.goroutine [OF assms(2), of auth "rSys d" load nilUdp]
    by (auto simp: whole_ok_def agree)
qed

lemma relay_step_load:
  "relay_step env auth load c d e d' \<Longrightarrow> e \<noteq> Elsewhere \<Longrightarrow> relay_step env auth load' c d e d'"
  by (induction rule: relay_step.induct) (auto intro: relay_step.intros)

lemma main_is_relay_step:
  assumes "whole_ok c w" "program_step auth load nilUdp (wMain w) p" "sRelayed (pSys p) = sRelayed (pSys (wMain w))"
  shows "(wRelay w)\<lparr>rSys := pSys p\<rparr> = wRelay w \<or>
    relay_step env auth (reloads_to load) c (wRelay w) Elsewhere ((wRelay w)\<lparr>rSys := pSys p\<rparr>)"
proof -
  have agree: "rSys (wRelay w) = pSys (wMain w)" using assms(1) by (simp add: whole_ok_def)
  have "pSys p = pSys (wMain w) \<or> sys_step auth (reloads_to load) (pSys (wMain w)) (pSys p)"
    using program_to_sys_step [OF assms(2)] assms(1) by (simp add: whole_ok_def)
  then show ?thesis
    using relay_step.elsewhere [of auth "reloads_to load" "wRelay w" "pSys p" env c] assms(3) agree [symmetric] by auto
qed

lemma whole_to_relay_step:
  "whole_step env auth load nilUdp c w w' \<Longrightarrow> whole_ok c w \<Longrightarrow>
    wRelay w' = wRelay w \<or> (\<exists>e. relay_step env auth (reloads_to load) c (wRelay w) e (wRelay w'))"
proof (induction rule: whole_step.induct)
  case (main w p)
  then show ?case using main_is_relay_step [OF main.prems main.hyps, of env] by auto
next
  case (call w e d)
  then show ?case using relay_step_load [OF call.hyps(2,3)] by auto
qed

lemma whole_to_program_step:
  "whole_step env auth load nilUdp c w w' \<Longrightarrow> whole_ok c w \<Longrightarrow>
    wMain w' = wMain w \<or> program_step auth load nilUdp (wMain w) (wMain w')"
proof (induction rule: whole_step.induct)
  case (call w e d)
  then show ?case using call_is_program_step [OF call.prems call.hyps, of load nilUdp] by simp
qed simp

lemma whole_ok_step: "whole_step env auth load nilUdp c w w' \<Longrightarrow> whole_ok c w \<Longrightarrow> whole_ok c w'"
proof -
  assume step: "whole_step env auth load nilUdp c w w'" and ok: "whole_ok c w"
  have "program_ok (wMain w')"
    using whole_to_program_step [OF step ok] ok program_ok_step by (auto simp: whole_ok_def)
  moreover have "jobs_ok c (wRelay w')"
    using whole_to_relay_step [OF step ok] ok jobs_ok_step by (auto simp: whole_ok_def)
  moreover have "rSys (wRelay w') = pSys (wMain w')"
    using step by (induction rule: whole_step.induct) simp_all
  ultimately show ?thesis by (simp add: whole_ok_def)
qed

interpretation whole_to_program: refinement "whole_step env auth load nilUdp c" "whole_ok c" wMain
  "program_step auth load nilUdp" for env auth load nilUdp c
  by unfold_locales (erule (1) whole_ok_step, erule (1) whole_to_program_step)

interpretation whole_to_relay: refinement "whole_step env auth load nilUdp c" "whole_ok c" wRelay
  "\<lambda>d d'. \<exists>e. relay_step env auth (reloads_to load) c d e d'" for env auth load nilUdp c
  by unfold_locales (erule (1) whole_ok_step, erule (1) whole_to_relay_step)

lemma whole_parts:
  assumes "main_begin env readFile unmarshal osHostname configFile profileFile n = Done b"
    and "whole_reach env auth load nilUdp c (whole_init b os pool) w"
  shows "whole_ok c w" "program_reach auth load nilUdp (program_init b os) (wMain w)"
    "relay_reach env auth (reloads_to load) c (relay_init (bgConfig b) pool (stNet (bgStarted b))) (wRelay w)"
proof -
  have "program_ok (program_init b os)"
    by (rule program_parts(1) [OF assms(1) program_reach.start])
  then have ok: "whole_ok c (whole_init b os pool)"
    using jobs_ok_init by (simp add: whole_ok_def whole_init_def relay_init_def Let_def program_init_def)
  note reach = assms(2) [unfolded whole_reach_rtranclp]
  show "whole_ok c w" by (rule whole_to_program.inv_reach [OF reach ok])
  show "program_reach auth load nilUdp (program_init b os) (wMain w)"
    using whole_to_program.view_reach [OF reach ok] by (simp add: program_reach_rtranclp whole_init_def)
  show "relay_reach env auth (reloads_to load) c (relay_init (bgConfig b) pool (stNet (bgStarted b))) (wRelay w)"
    using whole_to_relay.view_reach [OF reach ok] by (simp add: relay_reach_rtranclp whole_init_def)
qed

text \<open>A run of the relay goroutines in which nothing quits and nothing panics is one of the program.\<close>

lemma flags_rise:
  "sys_step auth load s s' \<Longrightarrow> (quitFlag (sParse s) \<longrightarrow> quitFlag (sParse s')) \<and> (sOver s \<longrightarrow> sOver s')"
  by (induction rule: sys_step.induct) (auto elim: parse_step.cases)

lemma relay_flags_rise:
  "relay_step env auth load c d e d' \<Longrightarrow>
    (quitFlag (sParse (rSys d)) \<longrightarrow> quitFlag (sParse (rSys d'))) \<and> (sOver (rSys d) \<longrightarrow> sOver (rSys d'))"
  by (induction rule: relay_step.induct) (simp_all add: flags_rise)

lemma relay_is_whole_step:
  assumes "relay_step env auth (\<lambda>_ _. False) c d e d'" "pEnd p = None" "\<not> quitFlag (sParse (rSys d'))" "\<not> sOver (rSys d')"
  shows "whole_step env auth load nilUdp c \<lparr>wMain = p\<lparr>pSys := rSys d\<rparr>, wRelay = d\<rparr> \<lparr>wMain = p\<lparr>pSys := rSys d'\<rparr>, wRelay = d'\<rparr>"
proof -
  let ?w = "\<lparr>wMain = p\<lparr>pSys := rSys d\<rparr>, wRelay = d\<rparr>"
  have run: "running (wMain ?w)" using relay_flags_rise [OF assms(1)] assms(2,4) by (simp add: running_def)
  show ?thesis
  proof (cases "e = Elsewhere")
    case True
    with assms(1) obtain s where s: "sys_step auth (\<lambda>_ _. False) (rSys d) s" "sRelayed s = sRelayed (rSys d)" "d' = d\<lparr>rSys := s\<rparr>"
      by (cases rule: relay_step.cases) auto
    have "quitFlag (sParse s) = quitFlag (sParse (pSys (wMain ?w)))"
      using flags_rise [OF s(1)] assms(3) s(3) by auto
    from program_step.goroutine [OF run _ this, of auth load nilUdp] s(1)
    have "program_step auth load nilUdp (wMain ?w) (p\<lparr>pSys := s\<rparr>)" by simp
    from whole_step.main [OF this] s(2,3) show ?thesis by simp
  next
    case False
    from whole_step.call [OF run _ this, of env auth c d' load nilUdp] assms(1) show ?thesis by simp
  qed
qed

lemma relay_is_whole_run:
  assumes "relay_reach env auth (\<lambda>_ _. False) c d d'" "pEnd p = None" "\<not> quitFlag (sParse (rSys d'))" "\<not> sOver (rSys d')"
  shows "whole_reach env auth load nilUdp c \<lparr>wMain = p\<lparr>pSys := rSys d\<rparr>, wRelay = d\<rparr> \<lparr>wMain = p\<lparr>pSys := rSys d'\<rparr>, wRelay = d'\<rparr>"
  using assms(1,3,4)
proof (induction rule: relay_reach.induct)
  case start
  show ?case by (rule whole_reach.start)
next
  case (step d' e d'')
  have "whole_reach env auth load nilUdp c \<lparr>wMain = p\<lparr>pSys := rSys d\<rparr>, wRelay = d\<rparr> \<lparr>wMain = p\<lparr>pSys := rSys d'\<rparr>, wRelay = d'\<rparr>"
    using relay_flags_rise [OF step.hyps(2)] step.prems by (intro step.IH) auto
  then show ?case using relay_is_whole_step [OF step.hyps(2) assms(2) step.prems] by (rule whole_reach.step)
qed

lemma whole_init_views:
  "whole_init b os pool = \<lparr>wMain = (program_init b os)\<lparr>pSys := rSys (relay_init (bgConfig b) pool (stNet (bgStarted b)))\<rparr>,
     wRelay = relay_init (bgConfig b) pool (stNet (bgStarted b))\<rparr>" "pEnd (program_init b os) = None"
  by (simp_all add: whole_init_def relay_init_def Let_def program_init_def)

subsection \<open>From the command line to the wire\<close>

lemma create_connection_wire:
  "CreateConnection env pool n = Done (r, pool', n') \<Longrightarrow> wire n' = wire n"
  by (auto simp: CreateConnection_def Let_def split: if_splits option.splits outcome.splits)

lemma create_loop_wire: "create_loop env k pool n ec = Done (ec', pool', n') \<Longrightarrow> wire n' = wire n"
  by (induction env k pool n ec rule: create_loop.induct)
    (auto split: outcome.splits prod.splits dest: create_connection_wire)

lemma create_relay_wire: "CreateRelay env config n = Done (relay, pool, n') \<Longrightarrow> wire n' = wire n"
  by (auto simp: CreateRelay_def CreateConnectionPool_def Let_def dest: create_loop_wire
      split: if_splits outcome.splits prod.splits option.splits)

lemma begin_wire:
  assumes "main_begin env readFile unmarshal osHostname configFile profileFile n = Done b"
  shows "wire (stNet (bgStarted b)) = wire n"
  using main_begin_parts [OF assms]
  by (auto simp: main_start_def dest!: create_relay_wire [of env "bgConfig b" n] sym [of _ "bgStarted b"] split: outcome.splits prod.splits)

lemma whole_sent:
  assumes "main_begin env readFile unmarshal osHostname configFile profileFile n = Done b"
    and "stRelay (bgStarted b) = Carbon c" "stPool (bgStarted b) = Some pool" "auth = stAuth (bgStarted b)"
    and "whole_reach env auth load nilUdp c (whole_init b os pool) w"
    and "\<not> dbgRelay (cfgDebug (bgConfig b))" "\<And>k config config' err. load k config = Some (config', err) \<Longrightarrow> \<not> dbgRelay (cfgDebug config')"
    and "\<And>k. write_fails env k = None" "wire n = []" "\<And>i. job_at (wRelay w) i = None"
  shows "message_samples auth (sInput (pSys (wMain w))) =
      in_flight auth (pSys (wMain w)) + stored (pSys (wMain w)) + metric_samples (sRelayed (pSys (wMain w))) \<and>
    mset (map snd (wire (sysNet (rPool (wRelay w))))) = metrics_lines c (sRelayed (pSys (wMain w)))"
proof -
  note relay = whole_parts(3) [OF assms(1,5)]
  have agree: "rSys (wRelay w) = pSys (wMain w)" using whole_parts(1) [OF assms(1,5)] by (simp add: whole_ok_def)
  have "sys_ok auth (pSys (wMain w))"
    by (rule sys_ok_reach [of auth "reloads_to load" "bgConfig b"])
      (use views_reach [OF relay] agree assms(6,7) in \<open>auto simp: reloads_to_def\<close>)
  moreover have "mset (map snd (wire (sysNet (rPool (wRelay w))))) = metrics_lines c (sRelayed (rSys (wRelay w)))"
    using wire_ok_reach [OF relay] clean_wire [OF relay assms(8)] no_calls_sums [OF assms(10)] assms(8,9) begin_wire [OF assms(1)]
    by (simp add: wire_ok_def failed_writes_def)
  ultimately show ?thesis by (simp add: sys_ok_def agree)
qed

text \<open>
  Property C4.  From the command line to the wire: in every run of the program in which no write fails,
  the samples of the accepted messages are, each exactly once, on the way, in a store or in a relayed
  metric, and whenever no call of \<open>Relay\<close> is under way, carbon has been sent exactly the lines of the
  relayed metrics.  The internal metrics (\<open>debug.relay\<close>) are off throughout.
\<close>
theorem whole_delivers:
  assumes "main_begin env readFile unmarshal osHostname configFile profileFile n = Done b"
    and "stRelay (bgStarted b) = Carbon c" "stPool (bgStarted b) = Some pool" "auth = stAuth (bgStarted b)"
    and "whole_reach env auth load nilUdp c (whole_init b os pool) w"
    and "\<not> dbgRelay (cfgDebug (bgConfig b))" "\<And>k config config' err. load k config = Some (config', err) \<Longrightarrow> \<not> dbgRelay (cfgDebug config')"
    and "\<And>k. write_fails env k = None" "wire n = []" "\<And>i. job_at (wRelay w) i = None"
  shows "message_samples auth (sInput (pSys (wMain w))) =
      in_flight auth (pSys (wMain w)) + stored (pSys (wMain w)) + metric_samples (sRelayed (pSys (wMain w))) \<and>
    mset (map snd (wire (sysNet (rPool (wRelay w))))) = metrics_lines c (sRelayed (pSys (wMain w)))"
  by (rule whole_sent [OF assms])

end
