(* ===== verification/Stored_Types.thy ===== *)
theory Stored_Types
  imports System
begin

text \<open>
  Where the metrics in the daemon come from: the type of each of them, in the hands of the parser, in a
  channel or in a store, is the type of a metric that a client has sent.  So a daemon that is sent
  no timers has none to process.
\<close>

definition sent_types :: "Auth \<Rightarrow> string list \<Rightarrow> int set" where
  "sent_types auth msgs = MetricType ` set (accepted_metrics auth msgs)"

lemma set_accepted: "set (accepted_metrics auth msgs) = {m. \<exists>msg \<in> set msgs. accepted_metric auth msg = Some m}"
  by (auto simp: accepted_metrics_def List.map_filter_def intro: rev_image_eqI)

lemma sent_types_mono: "set msgs \<subseteq> set msgs' \<Longrightarrow> sent_types auth msgs \<subseteq> sent_types auth msgs'"
  by (auto simp: sent_types_def set_accepted)

lemma accepted_type: "msg \<in> set msgs \<Longrightarrow> accepted_metric auth msg = Some m \<Longrightarrow> MetricType m \<in> sent_types auth msgs"
  unfolding sent_types_def set_accepted by (intro imageI) blast

definition parser_types :: "Auth \<Rightarrow> string list \<Rightarrow> parse_state \<Rightarrow> bool" where
  "parser_types auth msgs p \<longleftrightarrow> set (chan_buf (parseChannel p)) \<subseteq> set msgs \<and>
     (\<forall>m \<in> set (pending (parserPc p)) \<union> set (chan_buf (relayChannel p)). MetricType m \<in> sent_types auth msgs)"

definition types_ok :: "Auth \<Rightarrow> sys \<Rightarrow> bool" where
  "types_ok auth s \<longleftrightarrow> parser_types auth (sInput s) (sParse s) \<and>
     (\<forall>w \<in> set (sWorkers s). \<forall>m \<in> ran (wStore w). MetricType m \<in> sent_types auth (sInput s)) \<and>
     set (concat (sReaders s)) \<union> set (sUdp s) \<subseteq> set (sInput s) \<and> \<not> dbgRelay (cfgDebug (sConfig s))"

lemma parser_types_mono: "parser_types auth msgs p \<Longrightarrow> set msgs \<subseteq> set msgs' \<Longrightarrow> parser_types auth msgs' p"
  using sent_types_mono [of msgs msgs' auth] by (auto simp: parser_types_def)

lemma parser_types_step:
  "parse_step auth p e p' \<Longrightarrow> parser_types auth msgs p \<Longrightarrow> (\<And>msg. e = Enqueued msg \<Longrightarrow> msg \<in> set msgs) \<Longrightarrow>
    parser_types auth msgs p' \<and> (\<forall>m. e = Dequeued m \<longrightarrow> MetricType m \<in> sent_types auth msgs)"
proof (induction rule: parse_step.induct)
  case (accept s msg c m)
  then have "msg \<in> set msgs" by (auto simp: parser_types_def chan_recv_def split: list.splits)
  then have "MetricType m \<in> sent_types auth msgs"
    by (rule accepted_type) (simp add: accepted_metric_def accept.hyps(3))
  then show ?case using accept by (auto simp: parser_types_def chan_recv_def split: list.splits)
qed (auto simp: parser_types_def chan_recv_def chan_send_def split: list.splits if_splits)

lemma aggregate_types: "m' \<in> ran (AggregateMetric store m) \<Longrightarrow> \<exists>x \<in> insert m (ran store). MetricType m' = MetricType x"
  by (auto simp: AggregateMetric_def ran_def merge_metric_def Let_def split: option.splits if_splits)

lemma worker_types:
  assumes "types_ok auth s" "worker_at s i pc" "parser_types auth (sInput s) p"
    and "\<And>m. m \<in> ran st \<Longrightarrow> MetricType m \<in> sent_types auth (sInput s)"
  shows "types_ok auth (set_worker i st pc' (s\<lparr>sParse := p, sRelayed := r\<rparr>))"
  using assms set_update_subset_insert [of "sWorkers s" i "\<lparr>wStore = st, wPc = pc'\<rparr>"]
  by (auto simp: types_ok_def set_worker_def)

lemma store_types:
  "types_ok auth s \<Longrightarrow> worker_at s i pc \<Longrightarrow> m \<in> ran (store_at s i) \<Longrightarrow> MetricType m \<in> sent_types auth (sInput s)"
  by (auto simp: types_ok_def worker_at_def store_at_def)

text \<open>More input does not hurt.\<close>

lemma types_ok_input: "types_ok auth s \<Longrightarrow> types_ok auth (s\<lparr>sInput := sInput s @ msgs\<rparr>)"
proof -
  assume ok: "types_ok auth s"
  have types: "sent_types auth (sInput s) \<subseteq> sent_types auth (sInput s @ msgs)" by (rule sent_types_mono) simp
  have "parser_types auth (sInput s @ msgs) (sParse s)"
    by (rule parser_types_mono [of _ "sInput s"]) (use ok in \<open>simp_all add: types_ok_def\<close>)
  moreover have "\<forall>w \<in> set (sWorkers s). \<forall>m \<in> ran (wStore w). MetricType m \<in> sent_types auth (sInput s @ msgs)"
    using ok types by (meson subsetD types_ok_def)
  moreover have "set (concat (sReaders s)) \<union> set (sUdp s) \<subseteq> set (sInput s @ msgs)"
    using ok by (simp add: types_ok_def) blast
  ultimately show ?thesis using ok by (simp add: types_ok_def)
qed

text \<open>The parts that a step of a reader or of the parser changes.\<close>

lemma types_ok_parse:
  assumes "types_ok auth s" "parse_step auth (sParse s) e p" "\<And>msg. e = Enqueued msg \<Longrightarrow> msg \<in> set (sInput s)"
  shows "types_ok auth (s\<lparr>sParse := p\<rparr>)"
  using parser_types_step [OF assms(2), of "sInput s"] assms(1,3) by (simp add: types_ok_def)

lemma types_ok_worker:
  assumes "types_ok auth s" "worker_at s i pc" "ran st \<subseteq> ran (store_at s i)"
  shows "types_ok auth (set_worker i st pc' s)" "types_ok auth (set_worker i st pc' (s\<lparr>sRelayed := r\<rparr>))"
proof -
  have ok: "parser_types auth (sInput s) (sParse s)" using assms(1) by (simp add: types_ok_def)
  have st: "MetricType m \<in> sent_types auth (sInput s)" if "m \<in> ran st" for m
    using store_types [OF assms(1,2)] assms(3) that by blast
  note w = worker_types [OF assms(1,2) ok st, where pc' = pc']
  show "types_ok auth (set_worker i st pc' s)" using w [where r = "sRelayed s"] by simp
  show "types_ok auth (set_worker i st pc' (s\<lparr>sRelayed := r\<rparr>))" using w [where r = r] by simp
qed

lemma types_ok_step:
  assumes "\<And>c c'. load c c' \<Longrightarrow> \<not> dbgRelay (cfgDebug c')"
  shows "sys_step auth load s s' \<Longrightarrow> types_ok auth s \<Longrightarrow> types_ok auth s'"
proof (induction rule: sys_step.induct)
  case (connection s chunks msgs)
  have "set (concat (sReaders s @ [msgs])) \<union> set (sUdp s) \<subseteq> set (sInput s @ msgs)"
    using connection.prems by (auto simp: types_ok_def)
  then show ?case
    using types_ok_input [OF connection.prems, of msgs] by (simp add: types_ok_def)
next
  case (reader_sends s r msg rest p)
  have r: "msg # rest \<in> set (sReaders s)" using reader_sends.hyps(2,3) by (metis nth_mem)
  have "set (concat (sReaders s)) \<subseteq> set (sInput s)" using reader_sends.prems by (simp add: types_ok_def)
  moreover have "msg \<in> set (concat (sReaders s))" unfolding set_concat by (rule UN_I [OF r]) simp
  ultimately have "msg \<in> set (sInput s)" by blast
  then have parse: "types_ok auth (s\<lparr>sParse := p\<rparr>)" using types_ok_parse [OF reader_sends.prems reader_sends.hyps(4)] by simp
  have "set ((sReaders s)[r := rest]) \<subseteq> insert rest (set (sReaders s))" by (rule set_update_subset_insert)
  then have "(\<Union>x \<in> set ((sReaders s)[r := rest]). set x) \<subseteq> (\<Union>x \<in> insert rest (set (sReaders s)). set x)"
    by (rule UN_mono) simp
  moreover have "set rest \<subseteq> set (concat (sReaders s))" unfolding set_concat using UN_upper [OF r, of set] by auto
  ultimately have "set (concat ((sReaders s)[r := rest])) \<subseteq> set (concat (sReaders s))" unfolding set_concat by blast
  then have "set (concat ((sReaders s)[r := rest])) \<union> set (sUdp s) \<subseteq> set (sInput s)"
    using reader_sends.prems unfolding types_ok_def by blast
  then show ?case using parse by (simp add: types_ok_def)
next
  case (datagram s packet msgs)
  have "set (concat (sReaders s)) \<union> set msgs \<subseteq> set (sInput s @ msgs)"
    using datagram.prems by (auto simp: types_ok_def)
  then show ?case
    using types_ok_input [OF datagram.prems, of msgs] by (simp add: types_ok_def)
next
  case (udp_sends s msg rest p)
  then have parse: "types_ok auth (s\<lparr>sParse := p\<rparr>)"
    using types_ok_parse [OF udp_sends.prems udp_sends.hyps(3)] by (simp add: types_ok_def)
  have "set (concat (sReaders s)) \<union> set rest \<subseteq> set (sInput s)" using udp_sends by (simp add: types_ok_def)
  then show ?case using parse by (simp add: types_ok_def)
next
  case (parser s e p)
  show ?case by (rule types_ok_parse [OF parser.prems parser.hyps(2)]) (use parser.hyps(3) in auto)
next
  case (worker_receives s i m p)
  note at = worker_receives.hyps(1) and ok = worker_receives.prems
  have p: "parser_types auth (sInput s) p" "MetricType m \<in> sent_types auth (sInput s)"
    using parser_types_step [OF worker_receives.hyps(2), of "sInput s"] ok by (simp_all add: types_ok_def)
  have "MetricType m' \<in> sent_types auth (sInput s)" if "m' \<in> ran (AggregateMetric (store_at s i) m)" for m'
    using aggregate_types [OF that] store_types [OF ok at] p(2) by auto
  from worker_types [OF ok at p(1) this, where pc' = AtTick and r = "sRelayed s"] show ?case by simp
next
  case (tick s i store mem order)
  then have "store = store_at s i" by (simp add: PrepareRuntimeMetrics_def types_ok_def)
  then show ?case using types_ok_worker(1) [OF tick.prems tick.hyps(1)] by simp
next
  case (all_relayed s i n store t0 t1 order)
  then have "store = store_at s i" by (simp add: PrepareFlushMetrics_def types_ok_def)
  then show ?case using types_ok_worker(1) [OF all_relayed.prems all_relayed.hyps(1)] by simp
next
  case (relay_returns s i key keys n m now)
  show ?case by (rule types_ok_worker(2) [OF relay_returns.prems relay_returns.hyps(1)]) (auto simp: ran_def split: if_splits)
next
  case (internal_returns s i key keys m now)
  show ?case by (rule types_ok_worker(2) [OF internal_returns.prems internal_returns.hyps(1)]) (auto simp: ran_def split: if_splits)
next
  case (reload s config)
  then show ?case using assms by (simp add: types_ok_def)
next
  case (quit s p)
  show ?case by (rule types_ok_parse [OF quit.prems quit.hyps(2)]) simp
next
  case (over s)
  then show ?case by (simp add: types_ok_def)
qed (use types_ok_worker(1) in blast)+

lemma types_ok_init: "\<not> dbgRelay (cfgDebug config) \<Longrightarrow> types_ok auth (main_init config)"
  by (simp add: types_ok_def parser_types_def main_init_def parse_init_def make_chan_def)

lemma types_ok_reach:
  assumes "sys_reach auth load (main_init config) s" "\<not> dbgRelay (cfgDebug config)"
    and "\<And>c c'. load c c' \<Longrightarrow> \<not> dbgRelay (cfgDebug c')"
  shows "types_ok auth s"
  using assms(1)
proof (induction rule: sys_reach.induct)
  case start
  show ?case by (rule types_ok_init [OF assms(2)])
next
  case (step s s')
  show ?case by (rule types_ok_step [OF assms(3) step.hyps(2) step.IH])
qed

end
