(* ===== verification/Wire_Delivery.thy ===== *)
theory Wire_Delivery
  imports Whole_Program Delivery Stored_Types
begin

text \<open>
  What \<open>Delivery\<close> says of the daemon, down to the wire: on a network that works, a running program
  can always go on to send carbon the lines of everything it has accepted, unless the processing of
  a timer panics on the way.
\<close>

subsection \<open>A network that works\<close>

definition works :: "net_env \<Rightarrow> bool" where
  "works env \<longleftrightarrow> (\<forall>k. write_fails env k = None) \<and> (\<forall>k t a. dial_ok env k t a) \<and> (\<forall>k. \<not> timer_first env k)"

lemma works_refuses_none: "works env \<Longrightarrow> refused_since env k p = 0"
  by (simp add: works_def refused_since_def failed_dials_def)

text \<open>The states of the composed daemon over the pool that \<open>CreateRelay\<close> made, while it runs.\<close>

definition live_relay ::
  "net_env \<Rightarrow> Auth \<Rightarrow> ConfigValues \<Rightarrow> CarbonRelay \<Rightarrow> ConnectionPool \<Rightarrow> net \<Rightarrow> relay_sys \<Rightarrow> bool" where
  "live_relay env auth config c pool n d \<longleftrightarrow>
     (\<exists>load. relay_reach env auth load c (relay_init config pool n) d) \<and> \<not> sOver (rSys d)"

lemma live_no_timeout:
  assumes "CreateRelay env config n0 = Done (Carbon c, Some pool, n)" "\<forall>i \<in> set (closed n0). i < dials n0" "works env"
    and "live_relay env auth config c pool n d" "pool_step env (rPool d) (i, e) p"
  shows "e \<noteq> TimedOut"
proof
  assume "e = TimedOut"
  then have free: "client_at (rPool d) i Free"
    "timer_first env (gets (sysNet (rPool d))) \<or> chan_recv (Connections (sysPool (rPool d))) = None"
    using assms(5) by (auto simp: pool_step_timed_out)
  note created = create_relay_connects [OF assms(1)]
  have reach: "pool_reach env (pool_start pool n (nat (relayConcurrency (cfgRelay config)))) (rPool d)"
    using assms(4) views_reach by (auto simp: live_relay_def)
  from connection_there [OF created assms(2) reach works_refuses_none [OF assms(3)] free(1)] free(2) assms(3)
  show False by (auto simp: works_def)
qed

subsection \<open>Finishing a call\<close>

lemma relay_reach_trans:
  "relay_reach env auth load c e f \<Longrightarrow> relay_reach env auth load c d e \<Longrightarrow> relay_reach env auth load c d f"
  by (induction rule: relay_reach.induct) (auto intro: relay_reach.step)

text \<open>The states that the composed daemon goes on to while only goroutine \<open>i\<close> is busy with its call.\<close>

definition goes_on ::
  "net_env \<Rightarrow> Auth \<Rightarrow> (ConfigValues \<Rightarrow> ConfigValues \<Rightarrow> bool) \<Rightarrow> CarbonRelay \<Rightarrow> nat \<Rightarrow> relay_sys \<Rightarrow> relay_sys \<Rightarrow> bool" where
  "goes_on env auth load c i d d' \<longleftrightarrow> relay_reach env auth load c d d' \<and> length (rJobs d') = length (rJobs d) \<and>
     (\<forall>k. k \<noteq> i \<longrightarrow> job_at d' k = job_at d k)"

lemma goes_on_trans: "goes_on env auth load c i d e \<Longrightarrow> goes_on env auth load c i e f \<Longrightarrow> goes_on env auth load c i d f"
  by (auto simp: goes_on_def intro: relay_reach_trans)

lemma relay_step_mono:
  "relay_step env auth load c d e d' \<Longrightarrow> (\<And>a b. load a b \<Longrightarrow> load' a b) \<Longrightarrow> relay_step env auth load' c d e d'"
  by (induction rule: relay_step.induct) (blast intro: relay_step.intros sys_step_mono)+

lemma relay_reach_mono:
  "relay_reach env auth load c d d' \<Longrightarrow> (\<And>a b. load a b \<Longrightarrow> load' a b) \<Longrightarrow> relay_reach env auth load' c d d'"
  by (induction rule: relay_reach.induct) (auto intro: relay_reach.intros relay_step_mono)

lemma live_relay_on:
  assumes "live_relay env auth config c pool n d" "relay_reach env auth load c d d'" "\<not> sOver (rSys d')"
  shows "live_relay env auth config c pool n d'"
proof -
  obtain load0 where "relay_reach env auth load0 c (relay_init config pool n) d" using assms(1) by (auto simp: live_relay_def)
  then have "relay_reach env auth (\<lambda>a b. load a b \<or> load0 a b) c (relay_init config pool n) d"
    by (rule relay_reach_mono) simp
  moreover have "relay_reach env auth (\<lambda>a b. load a b \<or> load0 a b) c d d'" using assms(2) by (rule relay_reach_mono) simp
  ultimately show ?thesis using assms(3) relay_reach_trans unfolding live_relay_def by blast
qed

lemma job_at_set: "job_at (set_job i jo d) k = (if k = i \<and> i < length (rJobs d) then jo else job_at d k)"
  by (auto simp: job_at_def nth_list_update)

lemma job_at_fields [simp]:
  "job_at (d\<lparr>rSys := s\<rparr>) k = job_at d k" "job_at (d\<lparr>rPool := p, rSys := s, rWritten := w, rGivenUp := g\<rparr>) k = job_at d k"
  by (simp_all add: job_at_def)

lemma send_goes_on:
  assumes "CreateRelay env config n0 = Done (Carbon c, Some pool, n)" "\<forall>i \<in> set (closed n0). i < dials n0" "works env"
    and "live_relay env auth config c pool n d" "job_at d i = Some j" "jobLines j \<noteq> []"
  shows "\<exists>d' j'. goes_on env auth load c i d d' \<and> live_relay env auth config c pool n d' \<and> rSys d' = rSys d \<and>
    job_at d' i = Some j' \<and> jobMetric j' = jobMetric j \<and> work_at d' i < work_at d i"
proof -
  obtain load0 where reach: "relay_reach env auth load0 c (relay_init config pool n) d" and run: "\<not> sOver (rSys d)"
    using assms(4) by (auto simp: live_relay_def)
  have ok: "jobs_ok c d" by (rule jobs_ok_reach [OF reach])
  have slots: "slots_ok (rPool d)"
    using views_reach [OF reach] slots_ok_reach create_relay_slots [OF assms(1,2)] by blast
  have i: "i < length (rJobs d)" using assms(5) by (simp add: job_at_Some)
  have "client_at (rPool d) i (sysClients (rPool d) ! i)" using ok i run by (auto simp: client_at_def jobs_ok_def)
  obtain l ls where l: "jobLines j = l # ls" using assms(6) by (cases "jobLines j") auto
  from \<open>client_at _ _ _\<close> obtain e p where e: "pool_step env (rPool d) (i, e) p" "\<And>msg ok. e = Wrote msg ok \<Longrightarrow> msg = line_text j l"
    using pool_proceeds [OF slots] by blast
  have no: "e \<noteq> TimedOut" by (rule live_no_timeout [OF assms(1-4) e(1)])
  let ?d = "set_job i (Some (job_after e j)) (d\<lparr>rPool := p, rSys := (rSys d)\<lparr>sOver := (e = TimedOut)\<rparr>,
      rWritten := rWritten d @ written_by e, rGivenUp := rGivenUp d @ given_up_by e j\<rparr>)"
  have step: "relay_reach env auth load c d ?d"
    by (rule relay_reach.step [OF relay_reach.start relay_step.sends [OF run assms(5) l e]])
  have sys: "rSys ?d = rSys d" using no run by (simp add: sys_over_same)
  have job: "job_at ?d i = Some (job_after e j)" using i by (simp add: job_at_set)
  have "work_at ?d i < work_at d i"
    using call_work_step [OF e(1) l no] job assms(5) by (simp add: work_at_def)
  moreover have "jobMetric (job_after e j) = jobMetric j" using job_after_cases [of e j] by (auto simp: next_line_def)
  moreover have "goes_on env auth load c i d ?d" using step by (simp add: goes_on_def job_at_set)
  moreover have "live_relay env auth config c pool n ?d" by (rule live_relay_on [OF assms(4) step]) (simp add: sys run del: set_job_simps)
  ultimately show ?thesis using sys job by blast
qed

lemma sends_finish:
  assumes "CreateRelay env config n0 = Done (Carbon c, Some pool, n)" "\<forall>i \<in> set (closed n0). i < dials n0" "works env"
    and "live_relay env auth config c pool n d" "job_at d i = Some j"
  shows "\<exists>d' j'. goes_on env auth load c i d d' \<and> live_relay env auth config c pool n d' \<and> rSys d' = rSys d \<and>
    job_at d' i = Some j' \<and> jobMetric j' = jobMetric j \<and> jobLines j' = []"
  using assms(4,5)
proof (induction "work_at d i" arbitrary: d j rule: less_induct)
  case less
  show ?case
  proof (cases "jobLines j = []")
    case True
    have "goes_on env auth load c i d d" by (simp add: goes_on_def relay_reach.start)
    then show ?thesis using less.prems True by blast
  next
    case False
    from send_goes_on [OF assms(1-3) less.prems False] obtain d1 j1 where d1:
      "goes_on env auth load c i d d1" "live_relay env auth config c pool n d1" "rSys d1 = rSys d"
      "job_at d1 i = Some j1" "jobMetric j1 = jobMetric j" "work_at d1 i < work_at d i" by blast
    from less.hyps [OF d1(6,2,4)] obtain d2 j2 where
      "goes_on env auth load c i d1 d2" "live_relay env auth config c pool n d2" "rSys d2 = rSys d1"
      "job_at d2 i = Some j2" "jobMetric j2 = jobMetric j1" "jobLines j2 = []" by blast
    then show ?thesis using d1 goes_on_trans by metis
  qed
qed

lemma call_finishes:
  assumes "CreateRelay env config n0 = Done (Carbon c, Some pool, n)" "\<forall>i \<in> set (closed n0). i < dials n0" "works env"
    and "live_relay env auth config c pool n d" "job_at d i = Some j"
  shows "\<exists>d' key. goes_on env auth load c i d d' \<and> live_relay env auth config c pool n d' \<and> job_at d' i = None \<and>
    next_key (pc_of (rSys d) i) = Some key \<and>
    rSys d' = set_worker i ((store_at (rSys d) i)(key := None)) (after_key (pc_of (rSys d) i))
      ((rSys d)\<lparr>sRelayed := sRelayed (rSys d) @ [jobMetric j]\<rparr>)"
proof -
  from sends_finish [OF assms] obtain d1 j1 where d1:
    "goes_on env auth load c i d d1" "live_relay env auth config c pool n d1" "rSys d1 = rSys d"
    "job_at d1 i = Some j1" "jobMetric j1 = jobMetric j" "jobLines j1 = []" by blast
  have run: "\<not> sOver (rSys d1)" and ok: "jobs_ok c d1" using d1(2) jobs_ok_reach by (auto simp: live_relay_def)
  obtain key m where r: "relaying (rSys d1) i key m" using jobs_ok_job [OF ok d1(4)] by (auto simp: job_ok_def)
  let ?d = "set_job i None (d1\<lparr>rSys := set_worker i ((store_at (rSys d1) i)(key := None)) (after_key (pc_of (rSys d1) i))
      ((rSys d1)\<lparr>sRelayed := sRelayed (rSys d1) @ [jobMetric j1]\<rparr>)\<rparr>)"
  have step: "relay_reach env auth load c d1 ?d"
    by (rule relay_reach.step [OF relay_reach.start relay_step.returns [OF run d1(4,6) r]])
  have "i < length (rJobs d1)" using d1(4) by (simp add: job_at_Some)
  then have "goes_on env auth load c i d1 ?d" "job_at ?d i = None" using step by (simp_all add: goes_on_def job_at_set)
  moreover have "live_relay env auth config c pool n ?d" by (rule live_relay_on [OF d1(2) step]) (simp add: run)
  moreover have "next_key (pc_of (rSys d) i) = Some key" using r d1(3) by (simp add: relaying_def)
  ultimately show ?thesis using d1(1,3,5) goes_on_trans by (intro exI [of _ ?d] exI [of _ key]) auto
qed

subsection \<open>All calls finished\<close>

definition no_calls :: "relay_sys \<Rightarrow> bool" where
  "no_calls d \<longleftrightarrow> (\<forall>i. job_at d i = None)"

lemma finite_calls: "finite {i. job_at d i \<noteq> None}"
  by (rule finite_subset [of _ "{..<length (rJobs d)}"]) (auto simp: job_at_def split: if_splits)

lemma calls_finish:
  assumes "CreateRelay env config n0 = Done (Carbon c, Some pool, n)" "\<forall>i \<in> set (closed n0). i < dials n0" "works env"
    and "live_relay env auth config c pool n d"
  shows "\<exists>d'. relay_reach env auth load c d d' \<and> live_relay env auth config c pool n d' \<and> no_calls d' \<and>
    sParse (rSys d') = sParse (rSys d) \<and> sInput (rSys d') = sInput (rSys d)"
  using assms(4)
proof (induction "card {i. job_at d i \<noteq> None}" arbitrary: d rule: less_induct)
  case less
  show ?case
  proof (cases "no_calls d")
    case True
    then show ?thesis using less.prems relay_reach.start by blast
  next
    case False
    then obtain i j where j: "job_at d i = Some j" by (auto simp: no_calls_def)
    from call_finishes [OF assms(1-3) less.prems j] obtain d1 key where d1:
      "goes_on env auth load c i d d1" "live_relay env auth config c pool n d1" "job_at d1 i = None"
      "rSys d1 = set_worker i ((store_at (rSys d) i)(key := None)) (after_key (pc_of (rSys d) i))
        ((rSys d)\<lparr>sRelayed := sRelayed (rSys d) @ [jobMetric j]\<rparr>)" by blast
    have "{k. job_at d1 k \<noteq> None} \<subset> {k. job_at d k \<noteq> None}"
    proof (rule psubsetI)
      show "{k. job_at d1 k \<noteq> None} \<subseteq> {k. job_at d k \<noteq> None}"
      proof (rule Collect_mono, rule impI)
        fix k assume "job_at d1 k \<noteq> None"
        then have "k \<noteq> i" using d1(3) by metis
        then show "job_at d k \<noteq> None" using d1(1) \<open>job_at d1 k \<noteq> None\<close> by (simp add: goes_on_def)
      qed
      have "i \<in> {k. job_at d k \<noteq> None}" "i \<notin> {k. job_at d1 k \<noteq> None}" using j d1(3) by simp_all
      then show "{k. job_at d1 k \<noteq> None} \<noteq> {k. job_at d k \<noteq> None}" by metis
    qed
    then have "card {k. job_at d1 k \<noteq> None} < card {k. job_at d k \<noteq> None}" by (rule psubset_card_mono [OF finite_calls])
    from less.hyps [OF this d1(2)] obtain d2 where d2: "relay_reach env auth load c d1 d2"
      "live_relay env auth config c pool n d2" "no_calls d2" "sParse (rSys d2) = sParse (rSys d1)"
      "sInput (rSys d2) = sInput (rSys d1)" by blast
    have "relay_reach env auth load c d d2" using relay_reach_trans [OF d2(1)] d1(1) by (simp add: goes_on_def)
    moreover have "sParse (rSys d2) = sParse (rSys d)" "sInput (rSys d2) = sInput (rSys d)" using d2(4,5) d1(4) by simp_all
    ultimately show ?thesis using d2(2,3) by blast
  qed
qed

subsection \<open>Lifting a run of the daemon\<close>

text \<open>A step of \<open>System\<close> that relays is the end of a call; the others are steps of the composed daemon.\<close>

lemma sys_step_relays:
  assumes "sys_step auth load s s'" "sRelayed s' \<noteq> sRelayed s"
  shows "\<exists>i key m now. relaying s i key m \<and>
    s' = set_worker i ((store_at s i)(key := None)) (after_key (pc_of s i)) (s\<lparr>sRelayed := sRelayed s @ [m\<lparr>FlushTime := now\<rparr>]\<rparr>)"
  using assms
proof (induction rule: sys_step.induct)
  case (relay_returns s i key keys n m now)
  then have "relaying s i key m" "after_key (pc_of s i) = RelayingAll keys n" by (simp_all add: relaying_def worker_at_def pc_of_def)
  then show ?case by (intro exI [of _ i] exI [of _ key] exI [of _ m] exI [of _ now]) (simp del: fun_upd_apply add: fun_upd_def)
next
  case (internal_returns s i key keys m now)
  then have "relaying s i key m" "after_key (pc_of s i) = RelayingInternal keys" by (simp_all add: relaying_def worker_at_def pc_of_def)
  then show ?case by (intro exI [of _ i] exI [of _ key] exI [of _ m] exI [of _ now]) (simp del: fun_upd_apply add: fun_upd_def)
qed simp_all

text \<open>What can stop a flush: a goroutine that is at a timer whose processing panics.\<close>

definition panic_ahead :: "CarbonRelay \<Rightarrow> sys \<Rightarrow> bool" where
  "panic_ahead c s \<longleftrightarrow> (\<exists>i key m now. relaying s i key m \<and> MetricType m = MetricTypeTimer \<and>
     ProcessMetric (m\<lparr>FlushTime := now\<rparr>) (FlushInterval c) (Percentile c) = None)"

lemma sys_step_lifts:
  assumes "CreateRelay env config n0 = Done (Carbon c, Some pool, n)" "\<forall>i \<in> set (closed n0). i < dials n0" "works env"
    and "live_relay env auth config c pool n d" "no_calls d" "sys_step auth load (rSys d) s" "\<not> sOver s"
    and "\<not> panic_ahead c (rSys d)"
  shows "\<exists>d'. relay_reach env auth load c d d' \<and> live_relay env auth config c pool n d' \<and> no_calls d' \<and> rSys d' = s"
proof (cases "sRelayed s = sRelayed (rSys d)")
  case True
  have step: "relay_reach env auth load c d (d\<lparr>rSys := s\<rparr>)"
    by (rule relay_reach.step [OF relay_reach.start relay_step.elsewhere [OF assms(6) True]])
  have "no_calls (d\<lparr>rSys := s\<rparr>)" using assms(5) by (simp add: no_calls_def)
  moreover have "live_relay env auth config c pool n (d\<lparr>rSys := s\<rparr>)"
    by (rule live_relay_on [OF assms(4) step]) (simp add: assms(7))
  ultimately show ?thesis using step by (intro exI [of _ "d\<lparr>rSys := s\<rparr>"]) simp
next
  case False
  from sys_step_relays [OF assms(6) False] obtain i key m now where r: "relaying (rSys d) i key m"
    "s = set_worker i ((store_at (rSys d) i)(key := None)) (after_key (pc_of (rSys d) i))
      ((rSys d)\<lparr>sRelayed := sRelayed (rSys d) @ [m\<lparr>FlushTime := now\<rparr>]\<rparr>)" by blast
  have "ProcessMetric (m\<lparr>FlushTime := now\<rparr>) (FlushInterval c) (Percentile c) \<noteq> None"
  proof
    assume n: "ProcessMetric (m\<lparr>FlushTime := now\<rparr>) (FlushInterval c) (Percentile c) = None"
    then have "MetricType m = MetricTypeTimer" using process_panics_iff [of "m\<lparr>FlushTime := now\<rparr>"] by simp
    with n r(1) assms(8) show False unfolding panic_ahead_def by blast
  qed
  then obtain m' where m': "ProcessMetric (m\<lparr>FlushTime := now\<rparr>) (FlushInterval c) (Percentile c) = Some m'" by auto
  let ?j = "\<lparr>jobMetric = m\<lparr>FlushTime := now\<rparr>, jobTime = itoa (FlushTime m'), jobLines = carbon_sends c m', jobRetry = True\<rparr>"
  have run: "\<not> sOver (rSys d)" and ok: "jobs_ok c d" using assms(4) jobs_ok_reach by (auto simp: live_relay_def)
  have i: "i < length (rJobs d)" using ok r(1) by (simp add: jobs_ok_def relaying_def)
  have none: "job_at d i = None" using assms(5) by (simp add: no_calls_def)
  have begin_call: "relay_reach env auth load c d (set_job i (Some ?j) d)"
    by (rule relay_reach.step [OF relay_reach.start relay_step.begins [OF run i none r(1) m']])
  have live: "live_relay env auth config c pool n (set_job i (Some ?j) d)"
    by (rule live_relay_on [OF assms(4) begin_call]) (simp add: run)
  have "job_at (set_job i (Some ?j) d) i = Some ?j" using i by (simp add: job_at_set)
  from call_finishes [OF assms(1-3) live this] obtain d' key' where d': "goes_on env auth load c i (set_job i (Some ?j) d) d'"
    "live_relay env auth config c pool n d'" "job_at d' i = None" "next_key (pc_of (rSys (set_job i (Some ?j) d)) i) = Some key'"
    "rSys d' = set_worker i ((store_at (rSys (set_job i (Some ?j) d)) i)(key' := None)) (after_key (pc_of (rSys (set_job i (Some ?j) d)) i))
      ((rSys (set_job i (Some ?j) d))\<lparr>sRelayed := sRelayed (rSys (set_job i (Some ?j) d)) @ [jobMetric ?j]\<rparr>)"
    by blast
  have "key' = key" using d'(4) r(1) by (simp add: relaying_def)
  then have "rSys d' = s" using d'(5) r(2) by simp
  moreover have "no_calls d'" unfolding no_calls_def
  proof
    fix k
    show "job_at d' k = None"
      using d'(1,3) assms(5) by (cases "k = i") (auto simp: goes_on_def no_calls_def job_at_set)
  qed
  moreover have "relay_reach env auth load c d d'" using relay_reach_trans [OF _ begin_call] d'(1) by (simp add: goes_on_def)
  ultimately show ?thesis using d'(2) by blast
qed

lemma sys_run_lifts:
  assumes "CreateRelay env config n0 = Done (Carbon c, Some pool, n)" "\<forall>i \<in> set (closed n0). i < dials n0" "works env"
    and "live_relay env auth config c pool n d" "no_calls d" "sys_reach auth load (rSys d) s" "\<not> sOver s"
  shows "\<exists>d'. relay_reach env auth load c d d' \<and> live_relay env auth config c pool n d' \<and> no_calls d' \<and>
    (rSys d' = s \<or> panic_ahead c (rSys d')) \<and> sys_reach auth load (rSys d') s"
  using assms(6,7)
proof (induction rule: sys_reach.induct)
  case start
  then show ?case using assms(4,5) relay_reach.start sys_reach.start by blast
next
  case (step s s')
  have "\<not> sOver s" using flags_rise [OF step.hyps(2)] step.prems by blast
  then obtain d1 where d1: "relay_reach env auth load c d d1" "live_relay env auth config c pool n d1" "no_calls d1"
    "rSys d1 = s \<or> panic_ahead c (rSys d1)" "sys_reach auth load (rSys d1) s" using step.IH by blast
  have later: "sys_reach auth load (rSys d1) s'" by (rule sys_reach.step [OF d1(5) step.hyps(2)])
  show ?case
  proof (cases "panic_ahead c (rSys d1)")
    case True
    then show ?thesis using d1(1-3) later by blast
  next
    case False
    then have "sys_step auth load (rSys d1) s'" using d1(4) step.hyps(2) by simp
    from sys_step_lifts [OF assms(1-3) d1(2,3) this step.prems False] show ?thesis
      using relay_reach_trans d1(1) sys_reach.start by metis
  qed
qed

lemma flags_rise_reach: "sys_reach auth load s s' \<Longrightarrow> quitFlag (sParse s) \<longrightarrow> quitFlag (sParse s')"
  by (induction rule: sys_reach.induct) (auto dest: flags_rise)

lemma input_grows_reach: "sys_reach auth load s s' \<Longrightarrow> \<exists>xs. sInput s' = sInput s @ xs"
proof (induction rule: sys_reach.induct)
  case (step s' s'')
  have "\<exists>ys. sInput s'' = sInput s' @ ys"
    using step.hyps(2) by (induction rule: sys_step.induct) (auto simp: set_worker_def)
  then show ?case using step.IH by auto
qed simp

lemma relay_delivers:
  assumes "CreateRelay env config n0 = Done (Carbon c, Some pool, n)" "\<forall>i \<in> set (closed n0). i < dials n0" "works env"
    and "live_relay env auth config c pool n d" "0 < relayConcurrency (cfgRelay config)" "\<not> quitFlag (sParse (rSys d))"
  shows "\<exists>d'. relay_reach env auth load c d d' \<and> live_relay env auth config c pool n d' \<and> no_calls d' \<and>
    \<not> quitFlag (sParse (rSys d')) \<and>
    sInput (rSys d') = sInput (rSys d) \<and>
    (panic_ahead c (rSys d') \<or> in_flight auth (rSys d') = {#} \<and> stored (rSys d') = {#})"
proof -
  from calls_finish [OF assms(1-4), of load] obtain d1 where d1: "relay_reach env auth load c d d1"
    "live_relay env auth config c pool n d1" "no_calls d1" "sParse (rSys d1) = sParse (rSys d)" "sInput (rSys d1) = sInput (rSys d)" by blast
  obtain load0 where past: "relay_reach env auth load0 c (relay_init config pool n) d1" "\<not> sOver (rSys d1)"
    using d1(2) by (auto simp: live_relay_def)
  have "alive (rSys d1)" by (rule alive_reach [OF views_reach [OF past(1), THEN conjunct1] assms(5)])
  then have "going (rSys d1)" using past(2) d1(4) assms(6) by (simp add: going_def)
  then obtain s where s: "leads auth load (rSys d1) s" "in_flight auth s = {#}" "stored s = {#}" using can_deliver by blast
  then have run: "sys_reach auth load (rSys d1) s" "\<not> sOver s" "\<not> quitFlag (sParse s)" "sInput s = sInput (rSys d1)"
    by (simp_all add: leads_def going_def)
  from sys_run_lifts [OF assms(1-3) d1(2,3) run(1,2)] obtain d2 where d2: "relay_reach env auth load c d1 d2"
    "live_relay env auth config c pool n d2" "no_calls d2" "rSys d2 = s \<or> panic_ahead c (rSys d2)" "sys_reach auth load (rSys d2) s" by blast
  have "sys_reach auth load (rSys d1) (rSys d2)"
    using relay_to_sys.view_reach [OF d2(1) [unfolded relay_reach_rtranclp] jobs_ok_reach [OF past(1)]]
    by (simp add: sys_reach_rtranclp)
  then obtain xs where xs: "sInput (rSys d2) = sInput (rSys d1) @ xs" using input_grows_reach by blast
  moreover obtain ys where "sInput s = sInput (rSys d2) @ ys" using input_grows_reach [OF d2(5)] by blast
  ultimately have "sInput (rSys d1) @ xs @ ys = sInput (rSys d1)" using run(4) by (metis append_assoc)
  then have "sInput (rSys d2) = sInput (rSys d1)" by (simp add: xs)
  moreover have "\<not> quitFlag (sParse (rSys d2))" using flags_rise_reach [OF d2(5)] run(3) by blast
  moreover have "relay_reach env auth load c d d2" by (rule relay_reach_trans [OF d2(1) d1(1)])
  ultimately show ?thesis using d2(2-4) s(2,3) d1(5) by (intro exI [of _ d2]) auto
qed

subsection \<open>From the command line\<close>

lemma begin_relay:
  assumes "main_begin env readFile unmarshal osHostname configFile profileFile n = Done b"
    and "stRelay (bgStarted b) = Carbon c" "stPool (bgStarted b) = Some pool"
  shows "CreateRelay env (bgConfig b) n = Done (Carbon c, Some pool, stNet (bgStarted b))"
proof -
  have "main_start env (bgConfig b) n = Done (bgStarted b)" using main_begin_parts [OF assms(1)] by simp
  then show ?thesis
    using assms(2,3) by (auto simp: main_start_def dest!: sym [of _ "bgStarted b"] split: outcome.splits prod.splits)
qed

lemma panic_needs_timer:
  assumes "types_ok auth s" "panic_ahead c s"
  shows "MetricTypeTimer \<in> sent_types auth (sInput s)"
proof -
  obtain i key m where "relaying s i key m" "MetricType m = MetricTypeTimer" using assms(2) by (auto simp: panic_ahead_def)
  then have "sWorkers s ! i \<in> set (sWorkers s)" "m \<in> ran (wStore (sWorkers s ! i))"
    by (auto simp: relaying_def store_at_def ran_def)
  then show ?thesis using assms(1) \<open>MetricType m = _\<close> unfolding types_ok_def by metis
qed

text \<open>
  Property C5.  On a working network nothing that the program has accepted is out of reach of carbon: from
  every state that the program reaches before it is told to quit, it can go on, without new input, until
  the relayed metrics hold exactly the samples of all accepted messages and carbon has been sent exactly their
  lines.  The only thing that can be in the way is a timer that a client has sent and whose processing panics.
  There is at least one relay goroutine, and the internal metrics (\<open>debug.relay\<close>) are off throughout.
\<close>
theorem whole_can_deliver:
  assumes "main_begin env readFile unmarshal osHostname configFile profileFile n = Done b"
    and "stRelay (bgStarted b) = Carbon c" "stPool (bgStarted b) = Some pool" "auth = stAuth (bgStarted b)"
    and "whole_reach env auth load nilUdp c (whole_init b os pool) w"
    and "\<not> dbgRelay (cfgDebug (bgConfig b))" "\<And>k config config' err. load k config = Some (config', err) \<Longrightarrow> \<not> dbgRelay (cfgDebug config')"
    and "works env" "wire n = []" "\<forall>i \<in> set (closed n). i < dials n" "0 < relayConcurrency (cfgRelay (bgConfig b))"
    and "\<not> sOver (pSys (wMain w))" "\<not> quitFlag (sParse (pSys (wMain w)))"
  shows "\<exists>w'. whole_reach env auth load nilUdp c w w' \<and> sInput (pSys (wMain w')) = sInput (pSys (wMain w)) \<and>
    (panic_ahead c (pSys (wMain w')) \<and> MetricTypeTimer \<in> sent_types auth (sInput (pSys (wMain w))) \<or>
     metric_samples (sRelayed (pSys (wMain w'))) = message_samples auth (sInput (pSys (wMain w))) \<and>
     mset (map snd (wire (sysNet (rPool (wRelay w'))))) = metrics_lines c (sRelayed (pSys (wMain w'))))"
proof -
  note parts = whole_parts [OF assms(1,5)]
  have agree: "rSys (wRelay w) = pSys (wMain w)" and ok: "program_ok (wMain w)" using parts(1) by (simp_all add: whole_ok_def)
  have live: "live_relay env auth (bgConfig b) c pool (stNet (bgStarted b)) (wRelay w)"
    using parts(3) assms(12) agree by (auto simp: live_relay_def)
  from relay_delivers [OF begin_relay [OF assms(1-3)] assms(10,8) live assms(11), of "\<lambda>_ _. False"] assms(13) agree obtain d where
    d: "relay_reach env auth (\<lambda>_ _. False) c (wRelay w) d" "live_relay env auth (bgConfig b) c pool (stNet (bgStarted b)) d"
      "no_calls d" "\<not> quitFlag (sParse (rSys d))" "sInput (rSys d) = sInput (pSys (wMain w))"
      "panic_ahead c (rSys d) \<or> in_flight auth (rSys d) = {#} \<and> stored (rSys d) = {#}"
    by auto
  let ?w = "\<lparr>wMain = (wMain w)\<lparr>pSys := rSys d\<rparr>, wRelay = d\<rparr>"
  have "pEnd (wMain w) = None" using ok assms(13) by (auto simp: program_ok_def)
  moreover have "\<not> sOver (rSys d)" using d(2) by (simp add: live_relay_def)
  ultimately have "whole_reach env auth load nilUdp c \<lparr>wMain = (wMain w)\<lparr>pSys := rSys (wRelay w)\<rparr>, wRelay = wRelay w\<rparr> ?w"
    using relay_is_whole_run [OF d(1) _ d(4)] by blast
  moreover have "\<lparr>wMain = (wMain w)\<lparr>pSys := rSys (wRelay w)\<rparr>, wRelay = wRelay w\<rparr> = w" by (simp add: agree)
  ultimately have on: "whole_reach env auth load nilUdp c w ?w" by simp
  have reach: "whole_reach env auth load nilUdp c (whole_init b os pool) ?w"
    using assms(5) on unfolding whole_reach_rtranclp by (rule rtranclp_trans)
  have calls: "job_at (wRelay ?w) i = None" for i using d(3) by (simp add: no_calls_def)
  have sent: "message_samples auth (sInput (rSys d)) = in_flight auth (rSys d) + stored (rSys d) + metric_samples (sRelayed (rSys d)) \<and>
      mset (map snd (wire (sysNet (rPool d)))) = metrics_lines c (sRelayed (rSys d))"
    using whole_sent [OF assms(1-4) reach assms(6,7) _ assms(9) calls] assms(8) by (simp add: works_def)
  have "sys_reach auth (reloads_to load) (main_init (bgConfig b)) (rSys d)"
    using program_parts(2) [OF assms(1) whole_parts(2) [OF assms(1) reach]] by simp
  then have "types_ok auth (rSys d)"
    by (rule types_ok_reach) (use assms(6,7) in \<open>auto simp: reloads_to_def\<close>)
  from panic_needs_timer [OF this] show ?thesis using on sent d(5,6) by (intro exI [of _ ?w]) auto
qed

end
