(* ===== verification/Relay_System_Run.thy ===== *)
theory Relay_System_Run
  imports Relay_System_Facts
begin

text \<open>
  A run of the composed daemon: the only relay goroutine of the default configuration, with
  runtime metrics switched on, ticks and relays its first metric to carbon.  The properties of
  \<open>Relay_System_Facts\<close> are applied along this run.
\<close>

subsection \<open>The configuration and the flush\<close>

definition run_config :: ConfigValues where
  "run_config = (load_defaults new_ConfigValues)
     \<lparr>cfgDebug := \<lparr>dbgVerbose = False, dbgReceipt = False, dbgProfile = False, dbgRelay = True\<rparr>\<rparr>"

definition run_carbon :: CarbonRelay where
  "run_carbon = SetPrefixesAndSuffixes
     \<lparr>FlushInterval = relayFlush (cfgRelay run_config), Percentile = statsPercentile run_config,
      Prefixes = Map.empty, Suffixes = Map.empty\<rparr> run_config"

definition run_pool :: ConnectionPool where
  "run_pool = \<lparr>Size = 1, Connections = \<lparr>chan_buf = [Conn 0], chan_cap = 1\<rparr>,
     Addr = ''127.0.0.1'' @ '':'' @ itoa 2003, Type = ConnPoolTypeTcp, Timeout = 30 * 1000000000, ErrorCount = 0\<rparr>"

definition run_net :: net where
  "run_net = new_net\<lparr>dials := 1, deadlines := [(0, 30 * 1000000000)]\<rparr>"

lemma run_created: "CreateRelay steady run_config new_net = Done (Carbon run_carbon, Some run_pool, run_net)"
  by (simp add: CreateRelay_def CreateConnectionPool_def CreateConnection_def run_config_def load_defaults_def Let_def
      run_carbon_def run_pool_def run_net_def new_net_def steady_def conn_type_def chan_send_def make_chan_def)

lemma run_fresh: "\<forall>i \<in> set (closed new_net). i < dials new_net"
  by (simp add: new_net_def)

definition run_gauge :: "string \<Rightarrow> Metric" where
  "run_gauge name = CreateSimpleMetric (''statsgod.'' @ svcHostname (cfgService run_config) @ ''.runtime.memory'' @ name)
     (float_of_int 0 / float_of_int Megabyte) MetricTypeGauge"

definition run_store :: metric_map where
  "run_store = PrepareRuntimeMetrics Map.empty run_config \<lparr>HeapAlloc = 0, Alloc = 0, Sys = 0\<rparr>"

definition run_keys :: "string list" where
  "run_keys = map (\<lambda>name. Key (run_gauge name)) [''.heapalloc'', ''.alloc'', ''.sys'']"

lemma run_store_eq: "run_store = [Key (run_gauge ''.heapalloc'') \<mapsto> run_gauge ''.heapalloc'',
    Key (run_gauge ''.alloc'') \<mapsto> run_gauge ''.alloc'', Key (run_gauge ''.sys'') \<mapsto> run_gauge ''.sys'']"
  by (simp add: run_store_def PrepareRuntimeMetrics_def run_config_def Let_def put_metric_def run_gauge_def)

lemma run_keys_distinct: "distinct run_keys"
  by (simp add: run_keys_def run_gauge_def CreateSimpleMetric_def)

lemma run_order: "map_order run_store run_keys"
  using run_keys_distinct by (auto simp: map_order_def run_store_eq run_keys_def)

lemma card_run: "card (dom run_store) = 3"
  using run_order run_keys_distinct distinct_card [of run_keys] by (simp add: map_order_def run_keys_def)

definition run_job :: job where
  "run_job = (let m = (run_gauge ''.heapalloc'')\<lparr>FlushTime := 7\<rparr>; v = LastValue m
     in \<lparr>jobMetric = m, jobTime = itoa 7,
         jobLines = [(ApplyPrefixAndSuffix run_carbon (Key m) NamespaceTypeGauge, v)], jobRetry = True\<rparr>)"

lemma gauge_line:
  assumes "MetricType m = MetricTypeGauge"
  shows "\<exists>m'. ProcessMetric m d qs = Some m' \<and> FlushTime m' = FlushTime m \<and>
    carbon_sends c m' = [(ApplyPrefixAndSuffix c (Key m) NamespaceTypeGauge, LastValue m)]"
proof -
  obtain m' where p: "ProcessMetric m d qs = Some m'" using process_gauge [OF assms] by blast
  with assms have "MetricType m' = MetricTypeGauge \<and> Key m' = Key m \<and> LastValue m' = LastValue m \<and> FlushTime m' = FlushTime m"
    by (auto simp: ProcessMetric_def Let_def MetricTypeGauge_def MetricTypeCounter_def split: option.splits)
  with p show ?thesis by (simp add: carbon_sends_def)
qed

lemma run_process:
  "\<exists>m'. ProcessMetric (jobMetric run_job) (FlushInterval run_carbon) (Percentile run_carbon) = Some m' \<and>
    FlushTime m' = 7 \<and> carbon_sends run_carbon m' = jobLines run_job"
  using gauge_line [of "jobMetric run_job" "FlushInterval run_carbon" "Percentile run_carbon" run_carbon]
  by (simp add: run_job_def Let_def run_gauge_def CreateSimpleMetric_def)

subsection \<open>The run\<close>

definition run_sys :: "metric_map \<Rightarrow> worker_pc \<Rightarrow> Metric list \<Rightarrow> sys" where
  "run_sys store pc relayed = (main_init run_config)\<lparr>sWorkers := [\<lparr>wStore = store, wPc = pc\<rparr>], sRelayed := relayed\<rparr>"

definition run_state :: "sys \<Rightarrow> conn list \<Rightarrow> net \<Rightarrow> client \<Rightarrow> job option \<Rightarrow> string list \<Rightarrow> relay_sys" where
  "run_state s conns n cl j written =
     \<lparr>rSys = s, rPool = \<lparr>sysPool = run_pool\<lparr>Connections := \<lparr>chan_buf = conns, chan_cap = 1\<rparr>\<rparr>, sysNet = n,
        sysClients = [cl], sysCrashed = False\<rparr>, rJobs = [j], rWritten = written, rGivenUp = []\<rparr>"

definition ticking :: sys where
  "ticking = run_sys run_store (RelayingAll run_keys 3) []"

text \<open>The states of a call for one line, in a daemon whose other parts stand at \<open>s\<close>.\<close>

definition flushing :: "sys \<Rightarrow> relay_sys" where
  "flushing s = run_state s [Conn 0] run_net Free None []"

definition calling :: "sys \<Rightarrow> job \<Rightarrow> relay_sys" where
  "calling s j = run_state s [Conn 0] run_net Free (Some j) []"

definition sending :: "sys \<Rightarrow> job \<Rightarrow> relay_sys" where
  "sending s j = run_state s [] (run_net\<lparr>gets := 1\<rparr>) (Using (Conn 0)) (Some j) []"

definition first_line :: "job \<Rightarrow> string" where
  "first_line j = line_text j (hd (jobLines j))"

definition written_net :: "string \<Rightarrow> net" where
  "written_net line = run_net\<lparr>gets := 1, writes := 1, wire := [(0, line)]\<rparr>"

definition written :: "sys \<Rightarrow> job \<Rightarrow> relay_sys" where
  "written s j = run_state s [] (written_net (first_line j)) (Returning (Conn 0)) (Some j) [first_line j]"

definition released_net :: "string \<Rightarrow> net" where
  "released_net line = (written_net line)\<lparr>deadlines := [(0, 30 * 1000000000), (0, 30 * 1000000000)]\<rparr>"

definition sent_line :: "sys \<Rightarrow> job \<Rightarrow> relay_sys" where
  "sent_line s j = run_state s [Conn 0] (released_net (first_line j)) Free (Some (j\<lparr>jobLines := []\<rparr>)) [first_line j]"

definition after_call :: "sys \<Rightarrow> string \<Rightarrow> job \<Rightarrow> sys" where
  "after_call s key j = set_worker 0 ((store_at s 0)(key := None)) (after_key (pc_of s 0)) (s\<lparr>sRelayed := sRelayed s @ [jobMetric j]\<rparr>)"

definition returned :: "sys \<Rightarrow> string \<Rightarrow> job \<Rightarrow> relay_sys" where
  "returned s key j = run_state (after_call s key j) [Conn 0] (released_net (first_line j)) Free None [first_line j]"

abbreviation run_step where
  "run_step \<equiv> relay_step steady AuthNone (\<lambda>_ _. False) run_carbon"

abbreviation flush_key where
  "flush_key \<equiv> Key (run_gauge ''.heapalloc'')"

abbreviation run_reach where
  "run_reach \<equiv> relay_reach steady AuthNone (\<lambda>_ _. False) run_carbon (relay_init run_config run_pool run_net)"

lemma run_init: "relay_init run_config run_pool run_net = run_state (run_sys Map.empty AtQuit []) [Conn 0] run_net Free None []"
  by (simp add: relay_init_def run_state_def run_sys_def main_init_def pool_start_def Let_def run_config_def
      load_defaults_def run_pool_def)

lemma run_sys_simps [simp]:
  "set_worker 0 store' pc' (run_sys store pc relayed) = run_sys store' pc' relayed"
  "worker_at (run_sys store pc relayed) 0 pc' \<longleftrightarrow> pc = pc'" "store_at (run_sys store pc relayed) 0 = store"
  "sRelayed (run_sys store pc relayed) = relayed" "sConfig (run_sys store pc relayed) = run_config"
  "\<not> sOver (run_sys store pc relayed)" "\<not> quitFlag (sParse (run_sys store pc relayed))"
  "relaying (run_sys store pc relayed) 0 key m \<longleftrightarrow> next_key pc = Some key \<and> store key = Some m"
  "(run_sys store pc relayed)\<lparr>sRelayed := relayed'\<rparr> = run_sys store pc relayed'"
  "(run_sys store pc relayed)\<lparr>sOver := False\<rparr> = run_sys store pc relayed" "pc_of (run_sys store pc relayed) 0 = pc"
  by (auto simp: run_sys_def main_init_def set_worker_def worker_at_def store_at_def parse_init_def relaying_def pc_of_def)

lemma run_state_simps [simp]:
  "rSys (run_state s conns n cl j out) = s" "job_at (run_state s conns n cl j out) 0 = j"
  "length (rJobs (run_state s conns n cl j out)) = 1"
  "(run_state s conns n cl j out)\<lparr>rSys := s'\<rparr> = run_state s' conns n cl j out"
  "set_job 0 j' (run_state s conns n cl j out) = run_state s conns n cl j' out"
  by (simp_all add: run_state_def job_at_def set_job_def)

lemma reach_flushing: "run_reach (flushing ticking)"
proof -
  let ?st = "\<lambda>store pc. run_state (run_sys store pc []) [Conn 0] run_net Free None []"
  have move: "run_step (?st store pc) Elsewhere (?st store' pc')"
    if "sys_step AuthNone (\<lambda>_ _. False) (run_sys store pc []) (run_sys store' pc' [])" for store pc store' pc'
    using relay_step.elsewhere [of AuthNone "\<lambda>_ _. False" "?st store pc"] that by simp
  have "run_step (?st Map.empty AtQuit) Elsewhere (?st Map.empty AtReceive)"
    by (rule move) (use sys_step.worker_goes_on [of "run_sys Map.empty AtQuit []" 0] in simp)
  moreover have "run_step (?st Map.empty AtReceive) Elsewhere (?st Map.empty AtTick)"
    by (rule move) (use sys_step.worker_idles [of "run_sys Map.empty AtReceive []" 0] in simp)
  moreover have "sys_step AuthNone (\<lambda>_ _. False) (run_sys Map.empty AtTick [])
      (set_worker 0 run_store (RelayingAll run_keys (int (card (dom run_store)))) (run_sys Map.empty AtTick []))"
    by (rule sys_step.tick [OF _ _ run_order]) (simp_all add: run_store_def)
  then have "run_step (?st Map.empty AtTick) Elsewhere (flushing ticking)"
    unfolding flushing_def ticking_def by (intro move) (simp add: card_run)
  ultimately show ?thesis unfolding run_init [symmetric] by (meson relay_reach.start relay_reach.step)
qed

lemma run_head: "run_keys = flush_key # tl run_keys" "run_store flush_key = Some (run_gauge ''.heapalloc'')"
  by (simp_all add: run_keys_def run_store_eq run_gauge_def CreateSimpleMetric_def)

lemma run_relaying [simp]: "relaying ticking 0 flush_key (run_gauge ''.heapalloc'')"
  using run_head by (simp add: ticking_def) (metis next_key.simps(1))

text \<open>The metric is processed, a connection is taken, written to and given back, and the call returns.\<close>

lemma step_begins:
  assumes "\<not> sOver s" "relaying s 0 key m" "ProcessMetric (m\<lparr>FlushTime := 7\<rparr>) (FlushInterval c) (Percentile c) = Some m'"
    and "FlushTime m' = 7" "j = \<lparr>jobMetric = m\<lparr>FlushTime := 7\<rparr>, jobTime = itoa 7, jobLines = carbon_sends c m', jobRetry = True\<rparr>"
  shows "relay_step steady auth load c (flushing s) (Begins 0) (calling s j)"
  using relay_step.begins [of "flushing s" 0 key m 7 c m' steady auth load] assms by (simp add: flushing_def calling_def)

lemma step_run_sends:
  assumes "pool_step steady (rPool d) (0, e) (rPool (run_state s conns' n' cl' jo out'))"
    and "d = run_state s conns n cl (Some j) out" "e \<noteq> TimedOut" "\<And>msg ok. e = Wrote msg ok \<Longrightarrow> msg = first_line j"
    and "out' = out @ written_by e" "\<not> attempt_failed e" "jo = Some (job_after e j)" "\<not> sOver s" "jobLines j = [l]"
  shows "relay_step steady auth load c d (Sends 0 e) (run_state s conns' n' cl' jo out')"
proof -
  have "relay_step steady auth load c d (Sends 0 e) (set_job 0 (Some (job_after e j))
      (d\<lparr>rPool := rPool (run_state s conns' n' cl' jo out'), rSys := (rSys d)\<lparr>sOver := (e = TimedOut)\<rparr>,
         rWritten := rWritten d @ written_by e, rGivenUp := rGivenUp d @ given_up_by e j\<rparr>))"
    by (rule relay_step.sends [OF _ _ assms(9,1)]) (use assms in \<open>simp_all add: first_line_def\<close>)
  then show ?thesis using assms by (simp add: run_state_def set_job_def given_up_by_def sys_over_same)
qed

lemma step_got:
  assumes "\<not> sOver s" "jobLines j = [l]"
  shows "relay_step steady auth load c (calling s j) (Sends 0 Got) (sending s j)"
  unfolding sending_def
proof (rule step_run_sends)
  show "pool_step steady (rPool (calling s j)) (0, Got)
      (rPool (run_state s [] (run_net\<lparr>gets := 1\<rparr>) (Using (Conn 0)) (Some j) []))"
    using pool_step.got [of "rPool (calling s j)" 0 steady "Conn 0" "\<lparr>chan_buf = [], chan_cap = 1\<rparr>"]
    by (simp add: calling_def run_state_def client_at_def steady_def chan_recv_def set_client_def set_conns_def
        run_net_def new_net_def)
qed (use assms in \<open>simp_all add: calling_def attempt_failed_def job_after_def\<close>)

lemma step_wrote:
  assumes "\<not> sOver s" "jobLines j = [l]"
  shows "relay_step steady auth load c (sending s j) (Sends 0 (Wrote (first_line j) True)) (written s j)"
  unfolding written_def
proof (rule step_run_sends)
  show "pool_step steady (rPool (sending s j)) (0, Wrote (first_line j) True)
      (rPool (run_state s [] (written_net (first_line j)) (Returning (Conn 0)) (Some j) [first_line j]))"
    using pool_step.wrote [of "rPool (sending s j)" 0 "Conn 0" steady "first_line j" True "written_net (first_line j)"]
    by (simp add: sending_def run_state_def client_at_def steady_def set_client_def run_net_def new_net_def written_net_def)
qed (use assms in \<open>simp_all add: sending_def attempt_failed_def job_after_def\<close>)

lemma step_gave_back:
  assumes "\<not> sOver s" "jobLines j = [l]" "jobRetry j"
  shows "relay_step steady auth load c (written s j) (Sends 0 GaveBack) (sent_line s j)"
  unfolding sent_line_def
proof (rule step_run_sends)
  show "pool_step steady (rPool (written s j)) (0, GaveBack)
      (rPool (run_state s [Conn 0] (released_net (first_line j)) Free (Some (j\<lparr>jobLines := []\<rparr>)) [first_line j]))"
    using pool_step.gave_back [of "rPool (written s j)" 0 "Conn 0" "released_net (first_line j)" "\<lparr>chan_buf = [Conn 0], chan_cap = 1\<rparr>" steady]
    by (simp add: written_def run_state_def client_at_def set_client_def set_conns_def run_net_def new_net_def
        written_net_def released_net_def chan_send_def run_pool_def)
qed (use assms in \<open>simp_all add: written_def attempt_failed_def job_after_def next_line_def\<close>)

lemma step_returns:
  assumes "\<not> sOver s" "relaying s 0 key m"
  shows "relay_step steady auth load c (sent_line s j) (Returns 0) (returned s key j)"
  using relay_step.returns [of "sent_line s j" 0 "j\<lparr>jobLines := []\<rparr>" key m steady auth load c] assms
  by (simp add: sent_line_def returned_def after_call_def)

text \<open>A metric of one line is relayed in five steps.\<close>

lemma one_line_call:
  assumes "relay_reach steady auth load c d0 (flushing s)" "\<not> sOver s" "relaying s 0 key m"
    and "ProcessMetric (m\<lparr>FlushTime := 7\<rparr>) (FlushInterval c) (Percentile c) = Some m'"
    and "FlushTime m' = 7" "carbon_sends c m' = [l]"
    and "j = \<lparr>jobMetric = m\<lparr>FlushTime := 7\<rparr>, jobTime = itoa 7, jobLines = [l], jobRetry = True\<rparr>"
  shows "relay_reach steady auth load c d0 (calling s j)" "relay_reach steady auth load c d0 (sending s j)"
    "relay_reach steady auth load c d0 (written s j)" "relay_reach steady auth load c d0 (sent_line s j)"
    "relay_reach steady auth load c d0 (returned s key j)"
proof -
  have j: "jobLines j = [l]" "jobRetry j" using assms(7) by simp_all
  show 1: "relay_reach steady auth load c d0 (calling s j)"
    by (rule relay_reach.step [OF assms(1) step_begins [OF assms(2-5)]]) (simp add: assms(6,7))
  show 2: "relay_reach steady auth load c d0 (sending s j)" by (rule relay_reach.step [OF 1 step_got [OF assms(2) j(1)]])
  show 3: "relay_reach steady auth load c d0 (written s j)" by (rule relay_reach.step [OF 2 step_wrote [OF assms(2) j(1)]])
  show 4: "relay_reach steady auth load c d0 (sent_line s j)" by (rule relay_reach.step [OF 3 step_gave_back [OF assms(2) j]])
  show "relay_reach steady auth load c d0 (returned s key j)" by (rule relay_reach.step [OF 4 step_returns [OF assms(2,3)]])
qed

text \<open>The first metric of the flush.\<close>

lemma ticking_sys [simp]: "\<not> sOver ticking" "ticking\<lparr>sOver := False\<rparr> = ticking"
  by (simp_all add: ticking_def)

lemma run_job_line: "\<exists>l. jobLines run_job = [l]"
  by (simp add: run_job_def Let_def)

lemma reach_run:
  "run_reach (calling ticking run_job)" "run_reach (sending ticking run_job)" "run_reach (written ticking run_job)"
  "run_reach (sent_line ticking run_job)" "run_reach (returned ticking flush_key run_job)"
proof -
  obtain m' l where m': "ProcessMetric (jobMetric run_job) (FlushInterval run_carbon) (Percentile run_carbon) = Some m'"
    "FlushTime m' = 7" "carbon_sends run_carbon m' = jobLines run_job" "jobLines run_job = [l]"
    using run_process run_job_line by blast
  have j: "jobMetric run_job = (run_gauge ''.heapalloc'')\<lparr>FlushTime := 7\<rparr>"
    "run_job = \<lparr>jobMetric = (run_gauge ''.heapalloc'')\<lparr>FlushTime := 7\<rparr>, jobTime = itoa 7, jobLines = [l], jobRetry = True\<rparr>"
    using m'(4) by (simp_all add: run_job_def Let_def)
  note call = one_line_call [OF reach_flushing ticking_sys(1) run_relaying m'(1) [unfolded j(1)] m'(2) m'(3) [unfolded m'(4)] j(2)]
  show "run_reach (calling ticking run_job)" "run_reach (sending ticking run_job)" "run_reach (written ticking run_job)"
    "run_reach (sent_line ticking run_job)" "run_reach (returned ticking flush_key run_job)"
    by (rule call)+
qed

subsection \<open>The properties on the run\<close>

theorem relay_system_refines_witness:
  "sys_reach AuthNone (\<lambda>_ _. False) (main_init run_config) (rSys (written ticking run_job)) \<and>
    (\<exists>key m. relaying (rSys (written ticking run_job)) 0 key m)"
proof -
  have "client_at (rPool (written ticking run_job)) 0 (Returning (Conn 0))" by (simp add: written_def run_state_def client_at_def)
  then show ?thesis using relay_system_refines [OF reach_run(3)] by blast
qed

theorem relay_system_accounts_witness:
  "metrics_lines run_carbon (sRelayed (rSys (sent_line ticking run_job))) +
    (\<Sum>x\<leftarrow>slots (sent_line ticking run_job). call_lines run_carbon x) = {#first_line run_job#}"
  using relay_system_accounts [OF reach_run(4), THEN conjunct1]
  by (simp add: sent_line_def run_state_def slots_def)

theorem relay_system_delivers_witness:
  "metrics_lines run_carbon [jobMetric run_job] = {#first_line run_job#}"
proof -
  have "job_at (returned ticking flush_key run_job) i = None" for i by (simp add: returned_def run_state_def job_at_def)
  from relay_system_delivers [OF reach_run(5) _ _ this, THEN conjunct1]
  show ?thesis
    by (simp add: returned_def steady_def run_net_def new_net_def after_call_def ticking_def)
      (simp add: run_state_def released_net_def written_net_def)
qed

theorem relay_call_proceeds_witness:
  "\<exists>e d'. run_step (flushing ticking) e d' \<and> actor e = Some 0"
  by (rule relay_call_proceeds [OF run_created run_fresh reach_flushing, where key = flush_key
        and m = "run_gauge ''.heapalloc''"]) (simp_all add: flushing_def)

theorem relay_call_ends_witness:
  "work_at (sending ticking run_job) 0 < work_at (calling ticking run_job) 0 \<and>
    work_at (calling ticking run_job) 0 \<le> 10 * length (metric_lines run_carbon (jobMetric run_job))"
proof -
  obtain l where "jobLines run_job = [l]" using run_job_line by blast
  from relay_call_ends [OF reach_run(1) step_got [OF ticking_sys(1) this], of 0 run_job]
  show ?thesis by (simp add: calling_def sending_def)
qed

end
