(* ===== verification/Whole_Run.thy ===== *)
theory Whole_Run
  imports Wire_Delivery Relay_System_Run
begin

text \<open>
  A run of the whole program: the daemon starts without a configuration file, a client sends one
  gauge over TCP, and the message goes through reader, parser, store and flush to carbon.
\<close>

subsection \<open>The start\<close>

definition whole_config :: ConfigValues where
  "whole_config = fst (the (CreateConfig no_file no_yaml None ''c''))"

definition whole_carbon :: CarbonRelay where
  "whole_carbon = SetPrefixesAndSuffixes
     \<lparr>FlushInterval = relayFlush (cfgRelay whole_config), Percentile = statsPercentile whole_config,
      Prefixes = Map.empty, Suffixes = Map.empty\<rparr> whole_config"

lemma whole_config_created: "CreateConfig no_file no_yaml None ''c'' = Some (whole_config, Some ReadError)"
  by (simp add: whole_config_def CreateConfig_def LoadFile_def Let_def)

lemma whole_config_fields [simp]:
  "relayType (cfgRelay whole_config) = RelayTypeCarbon" "relayConcurrency (cfgRelay whole_config) = 1"
  "relayTimeout (cfgRelay whole_config) = 30 * 1000000000" "carbonHost whole_config = ''127.0.0.1''"
  "carbonPort whole_config = 2003" "\<not> dbgRelay (cfgDebug whole_config)" "\<not> dbgProfile (cfgDebug whole_config)"
  "svcAuth (cfgService whole_config) = ''none''" "nsPrefix (cfgNamespace whole_config) = ''stats''"
  "nsSuffix (cfgNamespace whole_config) = ''''" "nsGauges (nsPrefixes (cfgNamespace whole_config)) = ''gauges''"
  "nsGauges (nsSuffixes (cfgNamespace whole_config)) = ''''"
  by (simp_all add: whole_config_def CreateConfig_def LoadFile_def Let_def load_defaults_def)

lemma whole_created: "CreateRelay steady whole_config new_net = Done (Carbon whole_carbon, Some run_pool, run_net)"
  by (simp add: CreateRelay_def CreateConnectionPool_def CreateConnection_def Let_def whole_carbon_def
      run_pool_def run_net_def new_net_def steady_def conn_type_def chan_send_def make_chan_def)

lemma whole_begun:
  "\<exists>b. main_begin steady no_file no_yaml None ''c'' True new_net = Done b \<and> bgConfig b = whole_config \<and>
    stRelay (bgStarted b) = Carbon whole_carbon \<and> stPool (bgStarted b) = Some run_pool \<and>
    stAuth (bgStarted b) = AuthNone \<and> stNet (bgStarted b) = run_net"
proof -
  obtain sockets where "start_sockets whole_config = Done sockets" using start_sockets_ok by blast
  moreover have "CreateAuth whole_config = AuthNone" by (simp add: CreateAuth_def AuthTypeConfigToken_def)
  ultimately show ?thesis by (simp add: main_begin_def whole_config_created main_start_def whole_created)
qed

subsection \<open>The message on its way\<close>

definition sent_gauge :: Metric where
  "sent_gauge = plain_gauge\<lparr>FlushTime := 7\<rparr>"

definition whole_ticking :: sys where
  "whole_ticking = quit_state whole_config (parse_init\<lparr>parserPc := Testing\<rparr>) [] [''a'' \<mapsto> plain_gauge] (RelayingAll [''a''] 1)"

definition whole_job :: job where
  "whole_job = \<lparr>jobMetric = sent_gauge, jobTime = itoa 7,
     jobLines = [(ApplyPrefixAndSuffix whole_carbon ''a'' NamespaceTypeGauge, Fin 2)], jobRetry = True\<rparr>"

lemma whole_ticks: "sys_reach AuthNone (\<lambda>_ _. False) (main_init whole_config) whole_ticking"
proof -
  let ?q = "quit_state whole_config (parse_init\<lparr>parserPc := Testing\<rparr>) [] [''a'' \<mapsto> plain_gauge]"
  have "map_order [''a'' \<mapsto> plain_gauge] [''a'']" by (simp add: map_order_def)
  from sys_step.tick [OF _ _ this, of "?q AtTick" 0 undefined AuthNone "\<lambda>_ _. False"]
  have tick: "sys_step AuthNone (\<lambda>_ _. False) (?q AtTick) whole_ticking"
    by (simp add: whole_ticking_def PrepareRuntimeMetrics_def)
  show ?thesis by (rule sys_reach.step [OF reach_stored tick]) simp
qed

abbreviation whole_relay_init where
  "whole_relay_init \<equiv> relay_init whole_config run_pool run_net"

lemma whole_relay_start: "whole_relay_init = run_state (main_init whole_config) [Conn 0] run_net Free None []"
  by (simp add: relay_init_def run_state_def pool_start_def Let_def run_pool_def)

lemma whole_elsewhere:
  assumes "sys_reach AuthNone (\<lambda>_ _. False) (main_init whole_config) s" "sRelayed s = []"
  shows "relay_reach steady AuthNone (\<lambda>_ _. False) whole_carbon whole_relay_init (flushing s)"
proof -
  have "sRelayed (main_init whole_config) = []" by (simp add: main_init_def)
  then show ?thesis
    using elsewhere_run [of AuthNone "\<lambda>_ _. False" whole_relay_init s steady whole_carbon] assms
    by (simp add: whole_relay_start flushing_def)
qed

lemma whole_relayed:
  "relay_reach steady AuthNone (\<lambda>_ _. False) whole_carbon whole_relay_init (returned whole_ticking ''a'' whole_job)"
proof -
  have start: "relay_reach steady AuthNone (\<lambda>_ _. False) whole_carbon whole_relay_init (flushing whole_ticking)"
    by (rule whole_elsewhere [OF whole_ticks]) (simp add: whole_ticking_def)
  have at: "relaying whole_ticking 0 ''a'' plain_gauge" "\<not> sOver whole_ticking"
    by (simp_all add: whole_ticking_def relaying_def pc_of_def) (simp add: quit_state_def)
  have gauge: "MetricType (plain_gauge\<lparr>FlushTime := 7\<rparr>) = MetricTypeGauge" "Key plain_gauge = ''a''" "LastValue plain_gauge = Fin 2"
    by (simp_all add: plain_gauge_def parsed_metric_def new_Metric_def)
  obtain m' where m': "ProcessMetric (plain_gauge\<lparr>FlushTime := 7\<rparr>) (FlushInterval whole_carbon) (Percentile whole_carbon) = Some m'"
    "FlushTime m' = 7" "carbon_sends whole_carbon m' = [(ApplyPrefixAndSuffix whole_carbon ''a'' NamespaceTypeGauge, Fin 2)]"
    using gauge_line [OF gauge(1), of "FlushInterval whole_carbon" "Percentile whole_carbon" whole_carbon] gauge(2,3) by auto
  show ?thesis
    by (rule one_line_call(5) [OF start at(2,1) m']) (simp add: whole_job_def sent_gauge_def)
qed

subsection \<open>The property on the run\<close>

text \<open>The line that reaches carbon: the namespace, the value and the time, in the format of carbon.\<close>

lemma whole_prefix: "ApplyPrefixAndSuffix whole_carbon ''a'' NamespaceTypeGauge = ''stats.gauges.a''"
  by (simp add: ApplyPrefixAndSuffix_def whole_carbon_def SetPrefixesAndSuffixes_def lookup_string_def Let_def
      type_names_def NamespaceTypeGauge_def NamespaceTypeCounter_def NamespaceTypeRate_def NamespaceTypeSet_def NamespaceTypeTimer_def)

lemma whole_line: "first_line whole_job = ''stats.gauges.a 2.000000 7'' @ [newline]"
  by (simp add: first_line_def whole_job_def line_text_def payload_def whole_prefix print_two itoa_def
      nat_digits.simps digit_char_eval newline_def)

abbreviation no_reload :: "unit reloader" where
  "no_reload \<equiv> (\<lambda>_. LoadFile no_file no_yaml None ''c'')"

definition fresh_os :: os_state where
  "fresh_os = \<lparr>osUmask = 18, osFiles = [], osOpen = [], osNext = 0\<rparr>"

lemma no_reload_debug: "no_reload k config = Some (config', err) \<Longrightarrow> \<not> dbgRelay (cfgDebug config')"
  by (auto simp: LoadFile_def Let_def load_defaults_def split: if_splits)

lemma whole_job_metric: "jobMetric whole_job = sent_gauge"
  by (simp add: whole_job_def)

lemma whole_relayed_sys:
  "\<not> quitFlag (sParse (rSys (returned whole_ticking ''a'' whole_job)))" "\<not> sOver (rSys (returned whole_ticking ''a'' whole_job))"
  "sInput (rSys (returned whole_ticking ''a'' whole_job)) = [''a:2|g'']"
  "sRelayed (rSys (returned whole_ticking ''a'' whole_job)) = [sent_gauge]"
  "job_at (returned whole_ticking ''a'' whole_job) i = None"
  "map snd (wire (sysNet (rPool (returned whole_ticking ''a'' whole_job)))) = [''stats.gauges.a 2.000000 7'' @ [newline]]"
  by (simp_all add: returned_def after_call_def whole_ticking_def whole_job_metric)
    (simp_all add: run_state_def job_at_def released_net_def written_net_def whole_line parse_init_def whole_job_metric)

text \<open>A run of the relay goroutines as a run of the program.\<close>

lemma whole_run:
  assumes "relay_reach steady AuthNone (\<lambda>_ _. False) whole_carbon whole_relay_init d"
    and "\<not> quitFlag (sParse (rSys d))" "\<not> sOver (rSys d)"
  shows "\<exists>b w. main_begin steady no_file no_yaml None ''c'' True new_net = Done b \<and> bgConfig b = whole_config \<and>
     stRelay (bgStarted b) = Carbon whole_carbon \<and> stPool (bgStarted b) = Some run_pool \<and> AuthNone = stAuth (bgStarted b) \<and>
     whole_reach steady AuthNone no_reload Done whole_carbon (whole_init b fresh_os run_pool) w \<and>
     pSys (wMain w) = rSys d \<and> wRelay w = d"
proof -
  obtain b where b: "main_begin steady no_file no_yaml None ''c'' True new_net = Done b" "bgConfig b = whole_config"
    "stRelay (bgStarted b) = Carbon whole_carbon" "stPool (bgStarted b) = Some run_pool"
    "AuthNone = stAuth (bgStarted b)" "stNet (bgStarted b) = run_net"
    using whole_begun by metis
  have "relay_reach steady AuthNone (\<lambda>_ _. False) whole_carbon (relay_init (bgConfig b) run_pool (stNet (bgStarted b))) d"
    using assms(1) b(2,6) by simp
  from relay_is_whole_run [OF this whole_init_views(2) assms(2,3), of no_reload Done b fresh_os]
  have "\<exists>w. whole_reach steady AuthNone no_reload Done whole_carbon (whole_init b fresh_os run_pool) w \<and>
      pSys (wMain w) = rSys d \<and> wRelay w = d"
    unfolding whole_init_views(1) [symmetric] by (intro exI conjI) (assumption, simp_all)
  then show ?thesis using b(1-5) by blast
qed

lemmas delivered_run = whole_run [OF whole_relayed whole_relayed_sys(1,2)]

theorem whole_delivers_witness:
  "\<exists>b w. whole_reach steady AuthNone no_reload Done whole_carbon (whole_init b fresh_os run_pool) w \<and>
     sInput (pSys (wMain w)) = [''a:2|g''] \<and> sRelayed (pSys (wMain w)) = [sent_gauge] \<and>
     metrics_lines whole_carbon [sent_gauge] = {#''stats.gauges.a 2.000000 7'' @ [newline]#} \<and>
     {#(''a'', Fin 2)#} = in_flight AuthNone (pSys (wMain w)) + stored (pSys (wMain w)) + metric_samples [sent_gauge]"
proof -
  obtain b w where r: "main_begin steady no_file no_yaml None ''c'' True new_net = Done b" "bgConfig b = whole_config"
    "stRelay (bgStarted b) = Carbon whole_carbon" "stPool (bgStarted b) = Some run_pool" "AuthNone = stAuth (bgStarted b)"
    "whole_reach steady AuthNone no_reload Done whole_carbon (whole_init b fresh_os run_pool) w"
    "pSys (wMain w) = rSys (returned whole_ticking ''a'' whole_job)" "wRelay w = returned whole_ticking ''a'' whole_job"
    using delivered_run by blast
  have "message_samples AuthNone (sInput (pSys (wMain w))) =
      in_flight AuthNone (pSys (wMain w)) + stored (pSys (wMain w)) + metric_samples (sRelayed (pSys (wMain w))) \<and>
    mset (map snd (wire (sysNet (rPool (wRelay w))))) = metrics_lines whole_carbon (sRelayed (pSys (wMain w)))"
    by (rule whole_delivers [OF r(1,3-6)])
      (use no_reload_debug whole_relayed_sys(5) in \<open>simp_all add: r(2,8) steady_def new_net_def\<close>)
  then show ?thesis
    using r(6) whole_relayed_sys(3,4,6) one_message_input(2) unfolding r(7,8) by (intro exI [of _ b] exI [of _ w]) (simp add: r(7))
qed

text \<open>The same daemon, with the message in its store.\<close>

definition whole_stored :: sys where
  "whole_stored = quit_state whole_config (parse_init\<lparr>parserPc := Testing\<rparr>) [] [''a'' \<mapsto> plain_gauge] AtTick"

lemma no_timer_sent: "MetricTypeTimer \<notin> sent_types AuthNone [''a:2|g'']"
  by (simp add: sent_types_def accepted_metric_def parse_plain_gauge parsed_metric_def new_Metric_def metric_type_defs)

theorem whole_can_deliver_witness:
  "\<exists>b w w'. whole_reach steady AuthNone no_reload Done whole_carbon (whole_init b fresh_os run_pool) w \<and>
     sRelayed (pSys (wMain w)) = [] \<and> wire (sysNet (rPool (wRelay w))) = [] \<and>
     whole_reach steady AuthNone no_reload Done whole_carbon w w' \<and> sInput (pSys (wMain w')) = [''a:2|g''] \<and>
     metric_samples (sRelayed (pSys (wMain w'))) = {#(''a'', Fin 2)#} \<and>
     mset (map snd (wire (sysNet (rPool (wRelay w'))))) = metrics_lines whole_carbon (sRelayed (pSys (wMain w')))"
proof -
  have stored: "\<not> quitFlag (sParse whole_stored)" "\<not> sOver whole_stored" "sRelayed whole_stored = []" "sInput whole_stored = [''a:2|g'']"
    by (simp_all add: whole_stored_def parse_init_def)
  have "sys_reach AuthNone (\<lambda>_ _. False) (main_init whole_config) whole_stored"
    unfolding whole_stored_def by (rule reach_stored) simp
  then have "relay_reach steady AuthNone (\<lambda>_ _. False) whole_carbon whole_relay_init (flushing whole_stored)"
    by (rule whole_elsewhere) (rule stored(3))
  from whole_run [OF this] obtain b w where r: "main_begin steady no_file no_yaml None ''c'' True new_net = Done b"
    "bgConfig b = whole_config" "stRelay (bgStarted b) = Carbon whole_carbon" "stPool (bgStarted b) = Some run_pool"
    "AuthNone = stAuth (bgStarted b)" "whole_reach steady AuthNone no_reload Done whole_carbon (whole_init b fresh_os run_pool) w"
    "pSys (wMain w) = whole_stored" "wRelay w = flushing whole_stored"
    using stored(1,2) by (auto simp: flushing_def)
  have empty: "wire (sysNet (rPool (wRelay w))) = []" by (simp add: r(8) flushing_def run_state_def run_net_def new_net_def)
  have "\<exists>w'. whole_reach steady AuthNone no_reload Done whole_carbon w w' \<and> sInput (pSys (wMain w')) = sInput (pSys (wMain w)) \<and>
    (panic_ahead whole_carbon (pSys (wMain w')) \<and> MetricTypeTimer \<in> sent_types AuthNone (sInput (pSys (wMain w))) \<or>
     metric_samples (sRelayed (pSys (wMain w'))) = message_samples AuthNone (sInput (pSys (wMain w))) \<and>
     mset (map snd (wire (sysNet (rPool (wRelay w'))))) = metrics_lines whole_carbon (sRelayed (pSys (wMain w'))))"
    by (rule whole_can_deliver [OF r(1,3-6)])
      (use no_reload_debug stored in \<open>simp_all add: r(2,7) steady_def new_net_def works_def\<close>)
  then obtain w' where "whole_reach steady AuthNone no_reload Done whole_carbon w w'" "sInput (pSys (wMain w')) = [''a:2|g'']"
    "metric_samples (sRelayed (pSys (wMain w'))) = {#(''a'', Fin 2)#}"
    "mset (map snd (wire (sysNet (rPool (wRelay w'))))) = metrics_lines whole_carbon (sRelayed (pSys (wMain w')))"
    unfolding r(7) stored(4) one_message_input(2) using no_timer_sent by blast
  then show ?thesis using r(6) empty stored(3) unfolding r(7) [symmetric] by blast
qed

end
