(* ===== verification/Receiver.thy ===== *)
theory Receiver
  imports Go_Text
begin

text \<open>
  The receiver that stands in for carbon while debugging, \<open>extras/receiver.go\<close>: what it prints for
  a connection, given what the connection delivers.
\<close>

datatype read_end = EOF | ReadError

text \<open>\<open>bufio.Reader.ReadString\<close>: up to the first delimiter, or all there is and why it ended.\<close>

definition ReadString :: "char \<Rightarrow> string list \<Rightarrow> read_end \<Rightarrow> string \<times> read_end option" where
  "ReadString delim chunks fin =
     (let s = concat chunks
      in if delim \<in> set s then (takeWhile (\<lambda>c. c \<noteq> delim) s @ [delim], None) else (s, Some fin))"

datatype receiver_event = PrintedError | Exited | NewClient string string | ConnectionClosed string

definition handleConnection :: "string \<Rightarrow> string list \<Rightarrow> read_end \<Rightarrow> receiver_event list" where
  "handleConnection addr chunks fin =
     (case ReadString (CHR 0x0A) chunks fin of
        (status, err) \<Rightarrow>
          if err \<noteq> None \<and> err \<noteq> Some EOF then [PrintedError, Exited]
          else [NewClient addr status, ConnectionClosed addr])"

text \<open>The loop of \<open>main\<close>: a failed accept is reported and the loop goes on; every accepted connection
  has its own goroutine, whose events are listed here in the order of the connections.\<close>

fun accept_connections :: "(string \<times> string list \<times> read_end) option list \<Rightarrow> receiver_event list list" where
  "accept_connections [] = []"
| "accept_connections (None # rest) = [PrintedError] # accept_connections rest"
| "accept_connections (Some (addr, chunks, fin) # rest) =
     handleConnection addr chunks fin # accept_connections rest"

definition receiver_main ::
  "bool \<Rightarrow> (string \<times> string list \<times> read_end) option list \<Rightarrow> receiver_event list list" where
  "receiver_main listening conns = (if \<not> listening then [[PrintedError, Exited]] else accept_connections conns)"

text \<open>Only the first line of a connection is shown, however many there are and however they arrive:
  the doubt that the code expresses about line ends is right.\<close>

lemma handleConnection_first_line:
  assumes "concat chunks = line @ CHR 0x0A # rest" "CHR 0x0A \<notin> set line"
  shows "handleConnection addr chunks fin = [NewClient addr (line @ [CHR 0x0A]), ConnectionClosed addr]"
  using assms by (simp add: handleConnection_def ReadString_def Let_def)

end
