(* ===== verification/Test_Messages.thy ===== *)
theory Test_Messages
  imports Socket_Facts Parse_Loop
begin

text \<open>
  What the daemon makes of the messages of its test clients: they print a value below 1000 as
  an integer after a key of letters and dots, and write each message at once.
\<close>

subsection \<open>Values\<close>

lemma read_float_digits: "read_float (nat_digits n) = Some (False, n, 0)"
proof -
  have d: "nat_digits n \<noteq> []" "\<forall>c \<in> set (nat_digits n). is_digit c" using nat_digits_all by auto
  have "read_sign (nat_digits n) = (False, nat_digits n)"
    using read_sign_digits [OF d, of False "[]"] by simp
  moreover have "takeWhile is_digit (nat_digits n) = nat_digits n" "dropWhile is_digit (nat_digits n) = []"
    using takeWhile_digits_append [OF d(2), of "[]"] by auto
  ultimately show ?thesis
    by (simp add: read_float_def Let_def read_exponent_def del: takeWhile_eq_all_conv dropWhile_eq_Nil_conv)
qed

lemma ParseFloat32_itoa:
  assumes "n < 16777216"
  shows "ParseFloat32 (itoa (int n)) = (Fin (of_nat n), None)"
proof -
  have d: "nat_digits n \<noteq> []" "\<forall>c \<in> set (nat_digits n). is_digit c" using nat_digits_all by auto
  have s: "special (nat_digits n) = None" using special_number [OF d, of False "[]"] by simp
  have r: "rep binary32 (of_nat n)"
    using b32.rep_of_int [of "int n"] assms by (simp add: binary32_def)
  have "ilog2 (of_nat n) < 128" if "0 < n"
  proof (rule ccontr)
    assume "\<not> ilog2 (of_nat n) < 128"
    then have "(2::rat) powi 128 \<le> of_nat n" using le_ilog2_iff [of "of_nat n" 128] that by simp
    moreover have "(16777216::rat) \<le> 2 powi 128" by simp
    moreover have "(of_nat n :: rat) < 16777216" using assms by linarith
    ultimately show False by linarith
  qed
  then have "to_float binary32 False (of_nat n) = Fin (of_nat n)"
    using r by (intro to_float32_exact) auto
  then show ?thesis by (simp add: itoa_def ParseFloat32_def s read_float_digits decimal_def)
qed

subsection \<open>Messages\<close>

text \<open>Keys that reach the store as they are.\<close>

definition client_key :: "string \<Rightarrow> bool" where
  "client_key key \<longleftrightarrow> plain_field key \<and> CHR '':'' \<notin> set key \<and> newline \<notin> set key"

definition client_message :: "string \<Rightarrow> nat \<Rightarrow> string \<Rightarrow> string" where
  "client_message key n typ = key @ '':'' @ itoa (int n) @ ''|'' @ typ"

lemma colon_rune: "of_char c = RuneColon \<longleftrightarrow> c = CHR '':''"
  by (metis char_of_char of_char_colon(1))

lemma length_itoa_small: "n < 1000 \<Longrightarrow> length (itoa (int n)) \<le> 3"
  using length_nat_digits [of n 2] by (simp add: itoa_def)

lemma itoa_field: "n < 1000 \<Longrightarrow> plain_field (itoa (int n))"
  using nat_digits_all [of n] length_itoa_small [of n]
  by (fastforce simp: plain_field_def itoa_def MaximumMetricLength_def is_digit_def)

lemma client_message_parses:
  assumes "client_key key" "n < 1000" "getMetricType typ = (t, True)"
  shows "ParseMetricString (client_message key n typ) = Some (parsed_metric key (Fin (of_nat n)) t 1, None)"
proof -
  let ?ks = "map of_char key :: rune list"
  have key: "plain_field key" "CHR '':'' \<notin> set key" using assms(1) by (auto simp: client_key_def)
  note F = plain_field_runes [OF key(1)]
  have "plain_runes ?ks"
    using F by (auto simp: plain_runes_def ascii_def valid_rune_def surrogate_def)
  moreover have "RuneColon \<notin> set ?ks" using key(2) by (metis colon_rune imageE list.set_map)
  moreover have "plain_field typ"
    using assms(3) by (auto simp: getMetricType_def field_eval split: if_splits)
  moreover have "utf8_encode ?ks = key" by (rule runes_of_field [OF F(5)])
  ultimately show ?thesis
    using well_formed_message [of ?ks "itoa (int n)" "typ"] itoa_field [OF assms(2)] ParseFloat32_itoa [of n] assms(2,3)
    by (simp add: client_message_def)
qed

subsection \<open>Reception\<close>

lemma newline_facts: "\<not> is_digit newline" "newline \<noteq> CHR ''-''" "newline \<noteq> CHR '':''" "newline \<noteq> CHR ''|''"
  by (simp_all add: newline_def is_digit_def)

lemma client_message_line:
  assumes "client_key key" "typ \<in> {''c'', ''g'', ''ms'', ''s''}"
  shows "newline \<notin> set (client_message key n typ)" "long_enough (client_message key n typ)"
proof -
  have "newline \<notin> set (itoa (int n))" using nat_digits_all newline_facts by (auto simp: itoa_def)
  then show "newline \<notin> set (client_message key n typ)"
    using assms newline_facts by (auto simp: client_message_def client_key_def newline_def)
  show "long_enough (client_message key n typ)"
    by (simp add: client_message_def long_enough_def MinimumLengthMessage_def)
qed

lemma tail_of_newline: "tail_of (s @ [newline]) = []"
  by (simp add: tail_of_def split_on_append_sep [of newline s "[]", simplified])

lemma whole_lines_Cons:
  assumes "newline \<notin> set m" "long_enough m"
  shows "whole_lines (m @ newline # s) = m # whole_lines s"
  using assms split_on_append_sep [of newline m s] split_on_no_sep [OF assms(1)]
  by (simp add: whole_lines_def)

lemma terminated_framed: "framed p (map (\<lambda>m. m @ [newline]) msgs)"
  by (induction msgs arbitrary: p) (auto simp: tail_of_newline simp flip: append_assoc)

lemma whole_lines_terminated:
  "list_all (\<lambda>m. newline \<notin> set m \<and> long_enough m) msgs \<Longrightarrow> whole_lines (concat (map (\<lambda>m. m @ [newline]) msgs)) = msgs"
  by (induction msgs) (auto simp: whole_lines_Cons, simp add: whole_lines_def)

text \<open>Messages with their line ends, one write each.\<close>

lemma read_terminated:
  assumes "list_all (\<lambda>m. newline \<notin> set m \<and> long_enough m) msgs"
  shows "readInput (map (\<lambda>m. m @ [newline]) msgs) = Some msgs"
proof -
  show ?thesis using framing [OF terminated_framed] whole_lines_terminated [OF assms] by simp
qed

text \<open>A message without line end on a connection of its own, and as a datagram.\<close>

lemma read_unterminated:
  "newline \<notin> set m \<Longrightarrow> long_enough m \<Longrightarrow> length m < readLength \<Longrightarrow> readInput [m] = Some [m]"
  by (auto simp: readInput_def read_chunk_def split_on_no_sep long_enough_def)

lemma read_datagram:
  assumes "newline \<notin> set m" "long_enough m" "int (length m) \<le> udpMaxpacket (cfgUdp config)"
  shows "readInputUdp config (Some m) = Done [m]"
  using assms by (simp add: readInputUdp_def Let_def split_on_no_sep long_enough_def)

subsection \<open>Generated keys\<close>

text \<open>The documented strings of \<open>randutil.String(20, randutil.Alphabet)\<close>.\<close>

definition letter :: "char \<Rightarrow> bool" where
  "letter c = (let n = of_char c :: nat in 65 \<le> n \<and> n \<le> 90 \<or> 97 \<le> n \<and> n \<le> 122)"

definition random_name :: "string \<Rightarrow> bool" where
  "random_name w \<longleftrightarrow> length w = 20 \<and> list_all letter w"

lemma random_key:
  assumes "random_name w"
  shows "client_key (''statsgod.test.'' @ w)"
proof -
  have "of_char c < (128::nat) \<and> c \<noteq> CHR '' '' \<and> c \<noteq> CHR 0x00 \<and> c \<noteq> CHR ''|'' \<and> c \<noteq> CHR '':'' \<and> c \<noteq> newline"
    if "letter c" for c
    using that by (auto simp: letter_def newline_def Let_def)
  then show ?thesis
    using assms by (auto simp: client_key_def plain_field_def random_name_def MaximumMetricLength_def newline_def list_all_iff)
qed

text \<open>The authenticator lets this token through: none without authentication, else a valid one
  without a dot.\<close>

fun auth_takes :: "Auth \<Rightarrow> string \<Rightarrow> bool" where
  "auth_takes AuthNone token = (token = [])"
| "auth_takes (AuthConfigToken tokens) token =
     (token \<noteq> [] \<and> CHR ''.'' \<notin> set token \<and> newline \<notin> set token \<and> map_of tokens token = Some True)"

lemma accepted_with_token:
  assumes "auth_takes auth token" "client_key key" "n < 1000" "getMetricType typ = (t, True)"
  shows "accepted_metric auth ((if token \<noteq> [] then token @ ''.'' else []) @ client_message key n typ) =
    Some (parsed_metric key (Fin (of_nat n)) t 1)"
proof (cases auth)
  case AuthNone
  then show ?thesis
    using assms client_message_parses [OF assms(2-4)] by (simp add: accepted_metric_def parse_message_def)
next
  case (AuthConfigToken tokens)
  then have "token \<noteq> []" "Authenticate auth (token @ CHR ''.'' # client_message key n typ) =
      (True, None, client_message key n typ)"
    using assms(1) token_authenticate_accepts by auto
  then show ?thesis
    using client_message_parses [OF assms(2-4)] by (simp add: accepted_metric_def parse_message_def)
qed

end
