(* ===== verification/Generator.thy ===== *)
theory Generator
  imports Pool_Facts Test_Messages
begin

text \<open>
  The sample generator \<open>extras/generator.go\<close>: per process a store of random metrics, a buffered
  channel that one goroutine fills with the whole store on every tick, another that starts a
  goroutine for every metric it takes, and the sending itself, each message over a new connection.
\<close>

subsection \<open>Metrics and messages\<close>

record gen_metric =
  genKey :: string
  genType :: string
  genConnection :: int

text \<open>The random sources: the i-th name, kind of connection, and index below a bound.\<close>

record gen_source =
  genString :: "nat \<Rightarrow> string"
  genKind :: "nat \<Rightarrow> int"
  genIndex :: "nat \<Rightarrow> nat \<Rightarrow> nat"

definition gen_types :: "string list" where
  "gen_types = [''c'', ''g'', ''ms'']"

definition gen_one :: "gen_source \<Rightarrow> nat \<Rightarrow> gen_metric" where
  "gen_one rand i = \<lparr>genKey = ''statsgod.test.'' @ genString rand i,
     genType = gen_types ! genIndex rand i (length gen_types), genConnection = genKind rand i\<rparr>"

definition generator_names :: "gen_source \<Rightarrow> int \<Rightarrow> gen_metric list \<Rightarrow> gen_metric list" where
  "generator_names rand numMetrics store = store @ map (gen_one rand) [0..<nat numMetrics]"

definition gen_payload :: "(nat \<Rightarrow> nat) \<Rightarrow> gen_metric \<Rightarrow> string" where
  "gen_payload intn m =
     (if genType m = ''ms'' then genKey m @ '':'' @ itoa (int (intn 1000)) @ ''|ms''
      else if genType m = ''c'' then genKey m @ '':1|c''
      else genKey m @ '':'' @ itoa (int (intn 100)) @ ''|g'')"

text \<open>
  \<open>fmt.Fprintf(c, payload)\<close> takes the message for a format; without arguments it writes it as it
  is unless it has a percent sign, for which \<open>verbs\<close> says what \<open>fmt\<close> makes of it.
\<close>

definition fprintf :: "(string \<Rightarrow> string) \<Rightarrow> string \<Rightarrow> string" where
  "fprintf verbs format = (if CHR ''%'' \<in> set format then verbs format else format)"

record gen_flags =
  genHost :: string
  genPortTcp :: int
  genPortUdp :: int
  genSock :: string

text \<open>The network and address of a kind of connection; other kinds send nothing.\<close>

definition gen_target :: "gen_flags \<Rightarrow> int \<Rightarrow> (string \<times> string) option" where
  "gen_target flags kind =
     (if kind = 1 then Some (''tcp'', genHost flags @ '':'' @ itoa (genPortTcp flags))
      else if kind = 2 then Some (''udp'', genHost flags @ '':'' @ itoa (genPortUdp flags))
      else if kind = 3 then Some (''unix'', genSock flags)
      else None)"

text \<open>The result: whether the error of the dial was reported.\<close>

definition generator_send ::
  "net_env \<Rightarrow> (string \<Rightarrow> string) \<Rightarrow> gen_flags \<Rightarrow> (nat \<Rightarrow> nat) \<Rightarrow> gen_metric \<Rightarrow> net \<Rightarrow> (bool \<times> net) outcome" where
  "generator_send env verbs flags intn m n =
     (case gen_target flags (genConnection m) of
        None \<Rightarrow> Done (False, n)
      | Some (network, addr) \<Rightarrow>
          (let c = Conn (dials n); n1 = n\<lparr>dials := dials n + 1\<rparr>
           in if \<not> dial_ok env (dials n) network addr then Done (True, n1)
              else (case conn_write env c (fprintf verbs (gen_payload intn m)) n1 of
                      Done (_, n2) \<Rightarrow>
                        (case conn_close c n2 of
                           Done n3 \<Rightarrow> Done (False, n3) | Panicked p \<Rightarrow> Panicked p | Hung \<Rightarrow> Hung)
                    | Panicked p \<Rightarrow> Panicked p
                    | Hung \<Rightarrow> Hung)))"

subsection \<open>The pipeline\<close>

definition AvailableMemory :: nat where "AvailableMemory = push_bit 20 10"
definition AverageMemoryPerRequest :: nat where "AverageMemoryPerRequest = push_bit 10 10"
definition MAXREQS :: nat where "MAXREQS = AvailableMemory div AverageMemoryPerRequest"

lemma MAXREQS_1024: "MAXREQS = 1024"
  by (simp add: MAXREQS_def AvailableMemory_def AverageMemoryPerRequest_def push_bit_eq_mult)

record pipeline =
  gLeft :: "gen_metric list"  \<comment> \<open>what \<open>loadTestMetrics\<close> has yet to put into the channel\<close>
  gChan :: "gen_metric chan"
  gRunning :: "gen_metric list"  \<comment> \<open>the goroutines \<open>sendMetricToStats\<close> that have not ended\<close>
  gNet :: net
  gTaken :: "gen_metric list"  \<comment> \<open>history: what \<open>handleStatsQueue\<close> has taken\<close>
  gEnded :: "gen_metric list"  \<comment> \<open>history: what has been sent, or failed to\<close>

definition pipeline_init :: "net \<Rightarrow> pipeline" where
  "pipeline_init n = \<lparr>gLeft = [], gChan = make_chan MAXREQS, gRunning = [], gNet = n, gTaken = [], gEnded = []\<rparr>"

text \<open>The goroutines that send end in any order.\<close>

inductive gen_step ::
  "net_env \<Rightarrow> (string \<Rightarrow> string) \<Rightarrow> gen_flags \<Rightarrow> gen_metric list \<Rightarrow> pipeline \<Rightarrow> pipeline \<Rightarrow> bool" for env verbs flags store where
  flush: "gLeft s = [] \<Longrightarrow> gen_step env verbs flags store s (s\<lparr>gLeft := store\<rparr>)"
| enqueue: "gLeft s = m # ms \<Longrightarrow> chan_send (gChan s) m = Some c \<Longrightarrow>
    gen_step env verbs flags store s (s\<lparr>gLeft := ms, gChan := c\<rparr>)"
| dequeue: "chan_recv (gChan s) = Some (m, c) \<Longrightarrow>
    gen_step env verbs flags store s (s\<lparr>gChan := c, gRunning := gRunning s @ [m], gTaken := gTaken s @ [m]\<rparr>)"
| deliver: "gRunning s = before @ m # after \<Longrightarrow> generator_send env verbs flags intn m (gNet s) = Done (failed, n) \<Longrightarrow>
    gen_step env verbs flags store s (s\<lparr>gRunning := before @ after, gNet := n, gEnded := gEnded s @ [m]\<rparr>)"

inductive gen_reach ::
  "net_env \<Rightarrow> (string \<Rightarrow> string) \<Rightarrow> gen_flags \<Rightarrow> gen_metric list \<Rightarrow> pipeline \<Rightarrow> pipeline \<Rightarrow> bool" for env verbs flags store where
  gen_start: "gen_reach env verbs flags store s s"
| gen_later: "gen_reach env verbs flags store s t \<Longrightarrow> gen_step env verbs flags store t u \<Longrightarrow> gen_reach env verbs flags store s u"

definition pipeline_inv :: "gen_metric list \<Rightarrow> pipeline \<Rightarrow> bool" where
  "pipeline_inv store s \<longleftrightarrow>
     (\<exists>rounds. gTaken s @ chan_buf (gChan s) @ gLeft s = concat (replicate rounds store)) \<and>
     mset (gTaken s) = mset (gRunning s) + mset (gEnded s) \<and>
     chan_cap (gChan s) = MAXREQS \<and> length (chan_buf (gChan s)) \<le> MAXREQS"

lemma generator_send_returns: "\<exists>failed n'. generator_send env verbs flags intn m n = Done (failed, n')"
  by (auto simp: generator_send_def Let_def split: option.splits)

lemma pipeline_inv_step: "gen_step env verbs flags store s t \<Longrightarrow> pipeline_inv store s \<Longrightarrow> pipeline_inv store t"
proof (induction rule: gen_step.induct)
  case (flush s)
  then obtain k where "gTaken s @ chan_buf (gChan s) = concat (replicate k store)" by (auto simp: pipeline_inv_def)
  then have "gTaken s @ chan_buf (gChan s) @ store = concat (replicate (Suc k) store)"
    by (simp only: concat_replicate_snoc append_assoc [symmetric])
  then have "\<exists>k. gTaken s @ chan_buf (gChan s) @ store = concat (replicate k store)" by blast
  then show ?case using flush.prems by (simp add: pipeline_inv_def)
next
  case (enqueue s m ms c)
  then show ?case
    using go_chan.send_bound [OF enqueue.hyps(2)] go_chan.send_contents [OF enqueue.hyps(2)]
      go_chan.send_capacity [OF enqueue.hyps(2)]
    by (simp add: pipeline_inv_def)
next
  case (dequeue s m c)
  then show ?case
    using go_chan.recv_contents [OF dequeue.hyps] go_chan.recv_capacity [OF dequeue.hyps]
    by (auto simp: pipeline_inv_def)
next
  case (deliver s before m after intn failed n)
  then show ?case by (simp add: pipeline_inv_def)
qed

lemma pipeline_inv_reach: "gen_reach env verbs flags store s t \<Longrightarrow> pipeline_inv store s \<Longrightarrow> pipeline_inv store t"
  by (induction rule: gen_reach.induct) (auto intro: pipeline_inv_step)

lemma pipeline_inv_init: "pipeline_inv store (pipeline_init n)"
  by (auto simp: pipeline_inv_def pipeline_init_def intro: exI [of _ 0])

text \<open>
  Fact.  The pipeline of the generator passes on the store, round after round, in order and
  without loss or repetition, with never more than \<open>MAXREQS\<close> metrics waiting; every goroutine it
  starts can end, in any order, each sending its metric once.
\<close>
theorem generator_pipeline:
  assumes "gen_reach env verbs flags store (pipeline_init n) s"
  shows "(\<exists>rounds. gTaken s @ chan_buf (gChan s) @ gLeft s = concat (replicate rounds store)) \<and>
    mset (gTaken s) = mset (gRunning s) + mset (gEnded s) \<and> length (chan_buf (gChan s)) \<le> MAXREQS \<and>
    (gRunning s = [] \<or> (\<exists>t. gen_step env verbs flags store s t \<and> gEnded t = gEnded s @ [hd (gRunning s)]))"
proof -
  have inv: "pipeline_inv store s" using pipeline_inv_reach [OF assms pipeline_inv_init] .
  have "\<exists>t. gen_step env verbs flags store s t \<and> gEnded t = gEnded s @ [hd (gRunning s)]" if r: "gRunning s \<noteq> []"
  proof -
    obtain m ms where m: "gRunning s = [] @ m # ms" using r by (cases "gRunning s") auto
    obtain failed n' where "generator_send env verbs flags (\<lambda>_. 0) m (gNet s) = Done (failed, n')"
      using generator_send_returns by blast
    from gen_step.deliver [OF m this] show ?thesis using m by fastforce
  qed
  then show ?thesis using inv by (auto simp: pipeline_inv_def)
qed

definition demo_metric :: gen_metric where
  "demo_metric = \<lparr>genKey = ''statsgod.test.x'', genType = ''c'', genConnection = 1\<rparr>"

definition demo_gen_flags :: gen_flags where
  "demo_gen_flags = \<lparr>genHost = ''h'', genPortTcp = 1, genPortUdp = 2, genSock = ''s''\<rparr>"

theorem generator_pipeline_witness:
  "\<exists>s rounds. gen_reach steady id demo_gen_flags [demo_metric] (pipeline_init new_net) s \<and> gLeft s = [demo_metric] \<and>
     chan_buf (gChan s) @ gLeft s = concat (replicate rounds [demo_metric])"
proof -
  let ?s = "(pipeline_init new_net)\<lparr>gLeft := [demo_metric]\<rparr>"
  have "gen_step steady id demo_gen_flags [demo_metric] (pipeline_init new_net) ?s"
    by (rule gen_step.flush) (simp add: pipeline_init_def)
  then have r: "gen_reach steady id demo_gen_flags [demo_metric] (pipeline_init new_net) ?s"
    by (blast intro: gen_reach.intros)
  from generator_pipeline [OF r] r show ?thesis by (intro exI [of _ ?s]) (auto simp: pipeline_init_def)
qed

subsection \<open>All processes\<close>

text \<open>What \<open>main\<close> starts: per process a store, a pipeline and its two goroutines.  The processes
  share no state of the program; each has its own view of the network.\<close>

type_synonym gen_process = "gen_metric list \<times> pipeline"

definition generator_main :: "int \<Rightarrow> (nat \<Rightarrow> gen_source) \<Rightarrow> int \<Rightarrow> net \<Rightarrow> gen_process list" where
  "generator_main concurrency rand numMetrics n =
     map (\<lambda>i. (generator_names (rand i) numMetrics [], pipeline_init n)) [0..<nat concurrency]"

inductive gen_main_step ::
  "(nat \<Rightarrow> net_env) \<Rightarrow> (string \<Rightarrow> string) \<Rightarrow> gen_flags \<Rightarrow> gen_process list \<Rightarrow> gen_process list \<Rightarrow> bool" for env verbs flags where
  process: "k < length ps \<Longrightarrow> ps ! k = (store, s) \<Longrightarrow> gen_step (env k) verbs flags store s t \<Longrightarrow>
    gen_main_step env verbs flags ps (ps[k := (store, t)])"

inductive gen_main_reach ::
  "(nat \<Rightarrow> net_env) \<Rightarrow> (string \<Rightarrow> string) \<Rightarrow> gen_flags \<Rightarrow> gen_process list \<Rightarrow> gen_process list \<Rightarrow> bool" for env verbs flags ps0 where
  main_start: "gen_main_reach env verbs flags ps0 ps0"
| main_later: "gen_main_reach env verbs flags ps0 ps \<Longrightarrow> gen_main_step env verbs flags ps qs \<Longrightarrow> gen_main_reach env verbs flags ps0 qs"

lemma processes_apart:
  "gen_main_reach env verbs flags ps0 ps \<Longrightarrow> length ps = length ps0 \<and>
    (\<forall>k < length ps0. fst (ps ! k) = fst (ps0 ! k) \<and>
       gen_reach (env k) verbs flags (fst (ps0 ! k)) (snd (ps0 ! k)) (snd (ps ! k)))"
proof (induction rule: gen_main_reach.induct)
  case main_start
  then show ?case by (simp add: gen_start)
next
  case (main_later ps qs)
  from main_later.hyps(2) show ?case
  proof cases
    case (process k store s t)
    have len: "length ps = length ps0" using main_later.IH by simp
    have old: "fst (ps ! j) = fst (ps0 ! j)" "gen_reach (env j) verbs flags (fst (ps0 ! j)) (snd (ps0 ! j)) (snd (ps ! j))"
      if "j < length ps0" for j
      using main_later.IH that by auto
    have k: "k < length ps0" "fst (ps0 ! k) = store" using process len old(1) [of k] by simp_all
    have "gen_reach (env k) verbs flags (fst (ps0 ! k)) (snd (ps0 ! k)) s"
      using old(2) [OF k(1)] process(3) by simp
    then have new: "gen_reach (env k) verbs flags (fst (ps0 ! k)) (snd (ps0 ! k)) t"
      using process(4) unfolding k(2) by (rule gen_later)
    have "fst (qs ! j) = fst (ps0 ! j) \<and> gen_reach (env j) verbs flags (fst (ps0 ! j)) (snd (ps0 ! j)) (snd (qs ! j))"
      if j: "j < length ps0" for j
      using old [OF j] new k len process(1) by (cases "j = k") simp_all
    then show ?thesis using main_later.IH process by simp
  qed
qed

text \<open>Every process sends its own store over and over, whatever the others do.\<close>

lemma generator_processes:
  assumes "gen_main_reach env verbs flags (generator_main concurrency rand numMetrics n) ps" "k < nat concurrency"
  shows "pipeline_inv (generator_names (rand k) numMetrics []) (snd (ps ! k))"
proof -
  have "gen_reach (env k) verbs flags (generator_names (rand k) numMetrics []) (pipeline_init n) (snd (ps ! k))"
    using processes_apart [OF assms(1)] assms(2) by (simp add: generator_main_def)
  then show ?thesis by (rule pipeline_inv_reach [OF _ pipeline_inv_init])
qed

subsection \<open>What the daemon makes of the messages\<close>

definition gen_random_ok :: "gen_source \<Rightarrow> bool" where
  "gen_random_ok rand \<longleftrightarrow> (\<forall>i. random_name (genString rand i)) \<and> (\<forall>i n. 0 < n \<longrightarrow> genIndex rand i n < n)"

lemma gen_type:
  assumes "gen_random_ok rand"
  shows "genType (gen_one rand i) \<in> {''c'', ''g'', ''ms''}"
proof -
  have "genIndex rand i (length gen_types) < length gen_types"
    using assms by (simp add: gen_random_ok_def gen_types_def)
  then have "gen_types ! genIndex rand i (length gen_types) \<in> set gen_types" by (rule nth_mem)
  then show ?thesis by (simp add: gen_one_def gen_types_def)
qed

lemma itoa_1: "itoa 1 = ''1''"
  by code_simp

text \<open>The message of a generated metric in the form of \<open>Test_Messages\<close>.\<close>

lemma gen_payload_message:
  assumes "genType m \<in> {''c'', ''g'', ''ms''}" "\<forall>n. 0 < n \<longrightarrow> intn n < n"
  shows "\<exists>v < 1000. gen_payload intn m = client_message (genKey m) v (genType m)"
proof -
  have "intn 100 < 100" "intn 1000 < 1000" using assms(2) by auto
  moreover have "genType m = ''ms'' \<Longrightarrow> ?thesis" if "intn 1000 < 1000"
    using that by (intro exI [of _ "intn 1000"]) (simp add: gen_payload_def client_message_def)
  moreover have "genType m = ''g'' \<Longrightarrow> ?thesis" if "intn 100 < 100"
    using that by (intro exI [of _ "intn 100"]) (simp add: gen_payload_def client_message_def)
  moreover have "genType m = ''c'' \<Longrightarrow> ?thesis"
    by (intro exI [of _ 1]) (simp add: gen_payload_def client_message_def itoa_1)
  ultimately show ?thesis using assms(1) by blast
qed

text \<open>
  Fact.  A generated message needs no line end: written over a connection of its own or as a
  datagram, it is received as it is, and accepted as the metric it was made from.
\<close>
theorem generator_messages_accepted:
  assumes "gen_random_ok rand" "\<forall>n. 0 < n \<longrightarrow> intn n < n" "store = generator_names rand numMetrics []"
    and "60 \<le> udpMaxpacket (cfgUdp config)"
  shows "list_all (\<lambda>m. let msg = fprintf verbs (gen_payload intn m) in
      readInput [msg] = Some [msg] \<and> readInputUdp config (Some msg) = Done [msg] \<and>
      (\<exists>v < 1000. accepted_metric AuthNone msg =
        Some (parsed_metric (genKey m) (Fin (of_nat v)) (fst (getMetricType (genType m))) 1))) store"
proof -
  have "let msg = fprintf verbs (gen_payload intn m) in
      readInput [msg] = Some [msg] \<and> readInputUdp config (Some msg) = Done [msg] \<and>
      (\<exists>v < 1000. accepted_metric AuthNone msg =
        Some (parsed_metric (genKey m) (Fin (of_nat v)) (fst (getMetricType (genType m))) 1))"
    if m: "m \<in> set store" for m
  proof -
    obtain i where i: "m = gen_one rand i" using m unfolding assms(3) generator_names_def by auto
    have name: "random_name (genString rand i)" using assms(1) by (simp add: gen_random_ok_def)
    have key: "genKey m = ''statsgod.test.'' @ genString rand i" by (simp add: i gen_one_def)
    have ck: "client_key (genKey m)" unfolding key by (rule random_key [OF name])
    have t: "genType m \<in> {''c'', ''g'', ''ms''}" unfolding i by (rule gen_type [OF assms(1)])
    obtain v where v: "v < 1000" "gen_payload intn m = client_message (genKey m) v (genType m)"
      using gen_payload_message [OF t assms(2)] by blast
    let ?msg = "client_message (genKey m) v (genType m)"
    have "\<not> is_digit (CHR ''%'')" by (simp add: is_digit_def)
    then have "CHR ''%'' \<notin> set (itoa (int v))" using nat_digits_all by (auto simp: itoa_def)
    moreover have "CHR ''%'' \<notin> set (genKey m)"
      using name by (auto simp: key random_name_def list_all_iff letter_def Let_def)
    ultimately have "CHR ''%'' \<notin> set ?msg" using t by (auto simp: client_message_def)
    then have msg: "fprintf verbs (gen_payload intn m) = ?msg" by (simp add: fprintf_def v)
    have line: "newline \<notin> set ?msg" "long_enough ?msg" using client_message_line [OF ck, of "genType m"] t by auto
    have len: "length ?msg < 60"
      using length_itoa_small [OF v(1)] name t by (auto simp: client_message_def key random_name_def)
    have "getMetricType (genType m) = (fst (getMetricType (genType m)), True)"
      using t by (auto simp: getMetricType_def)
    then have "accepted_metric AuthNone ?msg =
        Some (parsed_metric (genKey m) (Fin (of_nat v)) (fst (getMetricType (genType m))) 1)"
      using accepted_with_token [of AuthNone "[]" "genKey m" v] ck v(1) by simp
    then show ?thesis
      using read_unterminated [OF line] read_datagram [OF line, of config] len assms(4) v(1)
      unfolding msg by (auto simp: readLength_def)
  qed
  then show ?thesis by (auto simp: list_all_iff)
qed

theorem generator_messages_accepted_witness:
  "case generator_names \<lparr>genString = \<lambda>_. replicate 20 (CHR ''x''), genKind = \<lambda>_. 1, genIndex = \<lambda>_ _. 0\<rparr> 1 [] of
     [m] \<Rightarrow> readInput [gen_payload (\<lambda>_. 0) m] = Some [gen_payload (\<lambda>_. 0) m] \<and> accepted_metric AuthNone (gen_payload (\<lambda>_. 0) m) \<noteq> None
   | _ \<Rightarrow> False"
proof -
  let ?rand = "\<lparr>genString = \<lambda>_. replicate 20 (CHR ''x''), genKind = \<lambda>_. 1, genIndex = \<lambda>_ _. 0\<rparr>"
  have "gen_random_ok ?rand" by (simp add: gen_random_ok_def random_name_def list_all_iff letter_def)
  moreover have "60 \<le> udpMaxpacket (cfgUdp (load_defaults new_ConfigValues))" by (simp add: load_defaults_def)
  ultimately have "list_all (\<lambda>m. let msg = fprintf id (gen_payload (\<lambda>_. 0) m) in
      readInput [msg] = Some [msg] \<and> readInputUdp (load_defaults new_ConfigValues) (Some msg) = Done [msg] \<and>
      (\<exists>v < 1000. accepted_metric AuthNone msg =
        Some (parsed_metric (genKey m) (Fin (of_nat v)) (fst (getMetricType (genType m))) 1)))
      (generator_names ?rand 1 [])"
    by (intro generator_messages_accepted [where numMetrics = 1 and rand = ?rand and verbs = id]) auto
  then show ?thesis
    by (auto simp: generator_names_def gen_one_def gen_types_def fprintf_def gen_payload_def Let_def)
qed

end
