(* ===== verification/Load_Test.thy ===== *)
theory Load_Test
  imports Pool_Facts Test_Messages
begin

text \<open>
  The load test \<open>extras/loadtest.go\<close>: it makes metrics with random names, sends each of them over
  a connection of its own or over one of two connection pools, and counts connections and errors.
  The random names and kinds (package \<open>randutil\<close>) and numbers (\<open>math/rand\<close>) are arguments.  The
  direct connections and the two pools each have their own network, with its own environment.
\<close>

subsection \<open>Metrics\<close>

record load_metric =
  loadKey :: string
  loadType :: string
  loadValue :: int
  connectionType :: int

definition ConnectionTypeTcp :: int where "ConnectionTypeTcp = 1"
definition ConnectionTypeTcpPool :: int where "ConnectionTypeTcpPool = 2"
definition ConnectionTypeUdp :: int where "ConnectionTypeUdp = 3"
definition ConnectionTypeUnix :: int where "ConnectionTypeUnix = 4"
definition ConnectionTypeUnixPool :: int where "ConnectionTypeUnixPool = 5"

lemmas connection_types =
  ConnectionTypeTcp_def ConnectionTypeTcpPool_def ConnectionTypeUdp_def ConnectionTypeUnix_def ConnectionTypeUnixPool_def

text \<open>The flags the sending depends on.\<close>

record load_flags =
  statsHost :: string
  statsPortTcp :: int
  statsPortUdp :: int
  statsSock :: string
  statsPoolCount :: int
  connTypeFlag :: int

text \<open>What the random sources give for the i-th metric: a name, a kind of connection, and an index
  below the given bound.\<close>

record random_source =
  randString :: "nat \<Rightarrow> string"
  randKind :: "nat \<Rightarrow> int"
  randIndex :: "nat \<Rightarrow> nat \<Rightarrow> nat"

definition metricTypes :: "string list" where
  "metricTypes = [''c'', ''g'', ''ms'', ''s'']"

definition generate_metric :: "load_flags \<Rightarrow> random_source \<Rightarrow> string \<Rightarrow> nat \<Rightarrow> load_metric" where
  "generate_metric flags rand metricToken i =
     \<lparr>loadKey = metricToken @ ''statsgod.test.'' @ randString rand i,
      loadType = metricTypes ! randIndex rand i (length metricTypes), loadValue = 0,
      connectionType = (if connTypeFlag flags > 0 \<and> connTypeFlag flags < 6 then connTypeFlag flags else randKind rand i)\<rparr>"

definition generateMetricNames ::
  "load_flags \<Rightarrow> random_source \<Rightarrow> int \<Rightarrow> load_metric list \<Rightarrow> string \<Rightarrow> load_metric list" where
  "generateMetricNames flags rand numMetrics store metricToken =
     store @ map (generate_metric flags rand metricToken) [0..<nat numMetrics]"

text \<open>The token of the command line, if any, becomes a prefix of every key.\<close>

definition token_prefix :: "string \<Rightarrow> string" where
  "token_prefix token = (if token \<noteq> [] then token @ ''.'' else [])"

text \<open>The value of a message; \<open>intn n\<close> is what \<open>rand.Intn(n)\<close> returns this time.\<close>

definition metric_value :: "(nat \<Rightarrow> nat) \<Rightarrow> string \<Rightarrow> int" where
  "metric_value intn t =
     (if t = ''c'' then 1 else if t = ''g'' then int (intn 100) else if t = ''ms'' then int (intn 1000)
      else if t = ''s'' then int (intn 100) else 0)"

definition stringValue :: "(nat \<Rightarrow> nat) \<Rightarrow> load_metric \<Rightarrow> string" where
  "stringValue intn metric = loadKey metric @ '':'' @ itoa (metric_value intn (loadType metric)) @ ''|'' @ loadType metric"

subsection \<open>Counters and state\<close>

record counters =
  connectionCountTcpPool :: int
  connectionCountTcp :: int
  connectionCountUdp :: int
  connectionCountUnixPool :: int
  connectionCountUnix :: int
  connectionErrorTcpPool :: int
  connectionErrorTcp :: int
  connectionErrorUdp :: int
  connectionErrorUnixPool :: int
  connectionErrorUnix :: int

definition no_counts :: counters where
  "no_counts = \<lparr>connectionCountTcpPool = 0, connectionCountTcp = 0, connectionCountUdp = 0,
     connectionCountUnixPool = 0, connectionCountUnix = 0, connectionErrorTcpPool = 0, connectionErrorTcp = 0,
     connectionErrorUdp = 0, connectionErrorUnixPool = 0, connectionErrorUnix = 0\<rparr>"

record load_env =
  envDirect :: net_env
  envTcpPool :: net_env
  envUnixPool :: net_env

record load_state =
  ldCounters :: counters
  ldDirect :: net
  tcpPool :: ConnectionPool
  ldTcpNet :: net
  unixPool :: ConnectionPool
  ldUnixNet :: net

subsection \<open>Sending\<close>

text \<open>\<open>net.Dial\<close>, one write whose result is ignored, and the deferred \<open>Close\<close>; the flag says
  whether the dial succeeded.\<close>

definition dial_and_write :: "net_env \<Rightarrow> string \<Rightarrow> string \<Rightarrow> string \<Rightarrow> net \<Rightarrow> (bool \<times> net) outcome" where
  "dial_and_write env network addr msg n =
     (let c = Conn (dials n); n1 = n\<lparr>dials := dials n + 1\<rparr>
      in if dial_ok env (dials n) network addr
         then (case conn_write env c msg n1 of
                 Done (_, n2) \<Rightarrow>
                   (case conn_close c n2 of Done n3 \<Rightarrow> Done (True, n3) | Panicked p \<Rightarrow> Panicked p | Hung \<Rightarrow> Hung)
               | Panicked p \<Rightarrow> Panicked p
               | Hung \<Rightarrow> Hung)
         else Done (False, n1))"

datatype pool_result = NoConnection | WriteFailed | Written

text \<open>A connection of a pool, one write, and the deferred release, with a replacement after a
  failed write.\<close>

definition pool_write :: "net_env \<Rightarrow> string \<Rightarrow> ConnectionPool \<Rightarrow> net \<Rightarrow> (pool_result \<times> ConnectionPool \<times> net) outcome" where
  "pool_write env msg pool n =
     (case GetConnection env pool n of
        ((c, Some err), pool1, n1) \<Rightarrow> Done (NoConnection, pool1, n1)
      | ((c, None), pool1, n1) \<Rightarrow>
          (case conn_write env c msg n1 of
             Done (ok, n2) \<Rightarrow>
               (case ReleaseConnection env pool1 c (\<not> ok) n2 of
                  Done (_, pool2, n3) \<Rightarrow> Done (if ok then Written else WriteFailed, pool2, n3)
                | Panicked p \<Rightarrow> Panicked p
                | Hung \<Rightarrow> Hung)
           | Panicked p \<Rightarrow> Panicked p
           | Hung \<Rightarrow> Hung))"

definition newline_text :: string where "newline_text = [newline]"

definition host_addr :: "string \<Rightarrow> int \<Rightarrow> string" where
  "host_addr host port = host @ '':'' @ itoa port"

definition sendMetricToStats ::
  "load_env \<Rightarrow> load_flags \<Rightarrow> (nat \<Rightarrow> nat) \<Rightarrow> load_metric \<Rightarrow> load_state \<Rightarrow> load_state outcome" where
  "sendMetricToStats env flags intn metric s =
     (let msg = stringValue intn metric; c = ldCounters s; kind = connectionType metric
      in if kind = ConnectionTypeTcp then
           (case dial_and_write (envDirect env) ''tcp'' (host_addr (statsHost flags) (statsPortTcp flags))
                   (msg @ newline_text) (ldDirect s) of
              Done (ok, n) \<Rightarrow>
                Done (s\<lparr>ldDirect := n, ldCounters := c\<lparr>connectionCountTcp := connectionCountTcp c + 1,
                  connectionErrorTcp := (if ok then connectionErrorTcp c else connectionErrorTcp c + 1)\<rparr>\<rparr>)
            | Panicked p \<Rightarrow> Panicked p | Hung \<Rightarrow> Hung)
         else if kind = ConnectionTypeTcpPool then
           (case pool_write (envTcpPool env) (msg @ newline_text) (tcpPool s) (ldTcpNet s) of
              Done (r, pool, n) \<Rightarrow>
                Done (s\<lparr>tcpPool := pool, ldTcpNet := n,
                  ldCounters := c\<lparr>connectionCountTcpPool := connectionCountTcpPool c + 1,
                    connectionErrorTcpPool :=
                      (if r = WriteFailed then connectionErrorTcpPool c + 1 else connectionErrorTcpPool c),
                    connectionErrorTcp := (if r = NoConnection then connectionErrorTcp c + 1 else connectionErrorTcp c)\<rparr>\<rparr>)
            | Panicked p \<Rightarrow> Panicked p | Hung \<Rightarrow> Hung)
         else if kind = ConnectionTypeUdp then
           (case dial_and_write (envDirect env) ''udp'' (host_addr (statsHost flags) (statsPortUdp flags)) msg (ldDirect s) of
              Done (ok, n) \<Rightarrow>
                Done (s\<lparr>ldDirect := n, ldCounters := c\<lparr>connectionCountUdp := connectionCountUdp c + 1,
                  connectionErrorUdp := (if ok then connectionErrorUdp c else connectionErrorUdp c + 1)\<rparr>\<rparr>)
            | Panicked p \<Rightarrow> Panicked p | Hung \<Rightarrow> Hung)
         else if kind = ConnectionTypeUnix then
           (case dial_and_write (envDirect env) ''unix'' (statsSock flags) msg (ldDirect s) of
              Done (ok, n) \<Rightarrow>
                Done (s\<lparr>ldDirect := n, ldCounters := c\<lparr>connectionCountUnix := connectionCountUnix c + 1,
                  connectionErrorUnix := (if ok then connectionErrorUnix c else connectionErrorUnix c + 1)\<rparr>\<rparr>)
            | Panicked p \<Rightarrow> Panicked p | Hung \<Rightarrow> Hung)
         else if kind = ConnectionTypeUnixPool then
           (case pool_write (envUnixPool env) (msg @ newline_text) (unixPool s) (ldUnixNet s) of
              Done (r, pool, n) \<Rightarrow>
                Done (s\<lparr>unixPool := pool, ldUnixNet := n,
                  ldCounters := c\<lparr>connectionCountUnixPool := connectionCountUnixPool c + 1,
                    connectionErrorUnixPool :=
                      (if r = Written then connectionErrorUnixPool c else connectionErrorUnixPool c + 1)\<rparr>\<rparr>)
            | Panicked p \<Rightarrow> Panicked p | Hung \<Rightarrow> Hung)
         else Done s)"

subsection \<open>The goroutines and the report\<close>

text \<open>
  One thread of the test: \<open>sendTestMetrics\<close> hands every metric of its store to \<open>flushMetrics\<close>
  over an unbuffered channel whenever its ticker fires, and both return once \<open>main\<close> has closed the
  finish channel and they wait in their \<open>select\<close>.
\<close>

record load_sys =
  pending :: "load_metric list"  \<comment> \<open>what the sender has yet to hand over in this round\<close>
  senderRuns :: bool
  flusherRuns :: bool
  finished :: bool
  sent :: "load_metric list"  \<comment> \<open>history\<close>
  loadState :: load_state

inductive load_step ::
  "load_env \<Rightarrow> load_flags \<Rightarrow> load_metric list \<Rightarrow> load_sys \<Rightarrow> load_sys \<Rightarrow> bool" for env flags store where
  tick: "senderRuns s \<Longrightarrow> pending s = [] \<Longrightarrow> load_step env flags store s (s\<lparr>pending := store\<rparr>)"
| hand_over: "senderRuns s \<Longrightarrow> flusherRuns s \<Longrightarrow> pending s = m # ms \<Longrightarrow>
    sendMetricToStats env flags intn m (loadState s) = Done st \<Longrightarrow>
    load_step env flags store s (s\<lparr>pending := ms, sent := sent s @ [m], loadState := st\<rparr>)"
| finish: "load_step env flags store s (s\<lparr>finished := True\<rparr>)"
| sender_returns: "senderRuns s \<Longrightarrow> pending s = [] \<Longrightarrow> finished s \<Longrightarrow>
    load_step env flags store s (s\<lparr>senderRuns := False\<rparr>)"
| flusher_returns: "flusherRuns s \<Longrightarrow> finished s \<Longrightarrow> load_step env flags store s (s\<lparr>flusherRuns := False\<rparr>)"

inductive load_reach ::
  "load_env \<Rightarrow> load_flags \<Rightarrow> load_metric list \<Rightarrow> load_sys \<Rightarrow> load_sys \<Rightarrow> bool" for env flags store where
  start: "load_reach env flags store s s"
| later: "load_reach env flags store s t \<Longrightarrow> load_step env flags store t u \<Longrightarrow> load_reach env flags store s u"

text \<open>What \<open>main\<close> sets up: both pools, whose errors are ignored.\<close>

definition load_start :: "load_env \<Rightarrow> load_flags \<Rightarrow> net \<Rightarrow> load_state outcome" where
  "load_start env flags n =
     (case CreateConnectionPool (envTcpPool env) (statsPoolCount flags)
             (host_addr (statsHost flags) (statsPortTcp flags)) ConnPoolTypeTcp 10000000000 n of
        Done (tcp, _, n1) \<Rightarrow>
          (case CreateConnectionPool (envUnixPool env) (statsPoolCount flags) (statsSock flags) ConnPoolTypeUnix 10000000000 n of
             Done (unix, _, n2) \<Rightarrow>
               Done \<lparr>ldCounters = no_counts, ldDirect = n, tcpPool = tcp, ldTcpNet = n1, unixPool = unix, ldUnixNet = n2\<rparr>
           | Panicked p \<Rightarrow> Panicked p | Hung \<Rightarrow> Hung)
      | Panicked p \<Rightarrow> Panicked p | Hung \<Rightarrow> Hung)"

definition load_init :: "load_state \<Rightarrow> load_sys" where
  "load_init st =
     \<lparr>pending = [], senderRuns = True, flusherRuns = True, finished = False, sent = [], loadState = st\<rparr>"

text \<open>One block of the report; \<open>None\<close> is the panic of an integer division by zero.\<close>

definition printReqPerSecond :: "int \<Rightarrow> int \<Rightarrow> duration \<Rightarrow> (int \<times> f64) option" where
  "printReqPerSecond conns errors runTime =
     (if go_div runTime 1000000000 = 0 then None
      else Some (go_div (conns - errors) (go_div runTime 1000000000), float_of_int errors / float_of_int conns))"

definition totalCount :: "counters \<Rightarrow> int" where
  "totalCount c = connectionCountTcpPool c + connectionCountTcp c + connectionCountUdp c +
     connectionCountUnixPool c + connectionCountUnix c"

definition totalError :: "counters \<Rightarrow> int" where
  "totalError c = connectionErrorTcpPool c + connectionErrorTcp c + connectionErrorUdp c +
     connectionErrorUnixPool c + connectionErrorUnix c"

definition report_lines :: "counters \<Rightarrow> (string \<times> int \<times> int) list" where
  "report_lines c =
     [(''TCP'', connectionCountTcp c, connectionErrorTcp c),
      (''TCP (pool)'', connectionCountTcpPool c, connectionErrorTcpPool c),
      (''UDP'', connectionCountUdp c, connectionErrorUdp c),
      (''Unix'', connectionCountUnix c, connectionErrorUnix c),
      (''Unix (pool)'', connectionCountUnixPool c, connectionErrorUnixPool c),
      (''Total'', totalCount c, totalError c)]"

fun print_report :: "duration \<Rightarrow> (string \<times> int \<times> int) list \<Rightarrow> (string \<times> int \<times> int \<times> int \<times> f64) list option" where
  "print_report totalTime [] = Some []"
| "print_report totalTime ((title, conns, errors) # rest) =
     (case printReqPerSecond conns errors totalTime of
        None \<Rightarrow> None
      | Some (rate, errRate) \<Rightarrow>
          map_option (\<lambda>printed. (title, conns, errors, rate, errRate) # printed) (print_report totalTime rest))"

subsection \<open>Sending never fails the test program\<close>

definition load_ok :: "load_state \<Rightarrow> bool" where
  "load_ok s \<longleftrightarrow> pool_wf (tcpPool s) (ldTcpNet s) \<and> pool_wf (unixPool s) (ldUnixNet s)"

lemma dial_and_write_ok:
  "\<exists>n'. dial_and_write env network addr msg n = Done (dial_ok env (dials n) network addr, n')"
  by (auto simp: dial_and_write_def Let_def split: option.splits)

lemma conn_write_same:
  "conn_write env (Conn i) msg n = Done (ok, n') \<Longrightarrow> dials n' = dials n \<and> closed n' = closed n"
  by (auto simp: Let_def split: option.splits)

lemma conn_write_Conn: "\<exists>ok n'. conn_write env (Conn i) msg n = Done (ok, n')"
  by (auto simp: Let_def split: option.splits)

text \<open>A write over a pool returns, keeps the pool sound, and loses a slot only when its write
  failed.\<close>

lemma pool_write_ok:
  assumes "pool_wf pool n"
  shows "\<exists>r pool' n'. pool_write env msg pool n = Done (r, pool', n') \<and> pool_wf pool' n' \<and>
    length (idle pool') \<le> length (idle pool) \<and> (r \<noteq> WriteFailed \<longrightarrow> length (idle pool') = length (idle pool))"
proof (rule GetConnection_cases [OF assms, of env])
  assume "GetConnection env pool n = ((NilConn, Some ConnTimeout), pool, n\<lparr>gets := gets n + 1\<rparr>)"
  then show ?thesis using assms pool_wf_same_net [of "n\<lparr>gets := gets n + 1\<rparr>" n pool]
    by (simp add: pool_write_def)
next
  fix c cs
  let ?p = "pool\<lparr>Connections := (Connections pool)\<lparr>chan_buf := cs\<rparr>\<rparr>" and ?n = "n\<lparr>gets := gets n + 1\<rparr>"
  assume g: "idle pool = c # cs" "GetConnection env pool n = ((c, None), ?p, ?n)"
  have held: "pool_wf ?p ?n" "checked_out ?p ?n c" "idle ?p = cs"
    using checked_out_got [OF assms g(1) refl refl, of "gets n + 1"] by auto
  then obtain i where i: "c = Conn i" by (auto simp: checked_out_def live_def)
  obtain ok n2 where w: "conn_write env c msg ?n = Done (ok, n2)" using conn_write_Conn i by blast
  have h2: "pool_wf ?p n2" "checked_out ?p n2 c"
    using pool_wf_same_net [of n2 ?n ?p c] conn_write_same [of env i msg ?n ok n2] w i held by auto
  show ?thesis
  proof (cases ok)
    case True
    then show ?thesis using release_keep [OF h2, of env] w g held by (auto simp: pool_write_def)
  next
    case False
    then show ?thesis using release_recreate [of ?p n2 i env] h2 w g held i by (auto simp: pool_write_def)
  qed
qed

definition known_kind :: "load_metric \<Rightarrow> bool" where
  "known_kind m \<longleftrightarrow> 1 \<le> connectionType m \<and> connectionType m \<le> 5"

lemma known_kind_cases:
  "known_kind m \<longleftrightarrow> connectionType m \<in> {ConnectionTypeTcp, ConnectionTypeTcpPool, ConnectionTypeUdp,
     ConnectionTypeUnix, ConnectionTypeUnixPool}"
  by (auto simp: known_kind_def connection_types)

lemma send_counts:
  assumes "load_ok s"
  shows "\<exists>s'. sendMetricToStats env flags intn m s = Done s' \<and> load_ok s' \<and>
    totalCount (ldCounters s') = totalCount (ldCounters s) + (if known_kind m then 1 else 0) \<and>
    totalError (ldCounters s) \<le> totalError (ldCounters s') \<and>
    totalError (ldCounters s') \<le> totalError (ldCounters s) + (if known_kind m then 1 else 0)"
proof (cases "known_kind m")
  case True
  note direct = dial_and_write_ok [of "envDirect env"]
  obtain r pool n where tcp: "pool_write (envTcpPool env) (stringValue intn m @ newline_text) (tcpPool s) (ldTcpNet s) =
      Done (r, pool, n)" "pool_wf pool n"
    using pool_write_ok [of "tcpPool s" "ldTcpNet s" "envTcpPool env"] assms by (auto simp: load_ok_def) blast
  obtain r' pool' n' where unix: "pool_write (envUnixPool env) (stringValue intn m @ newline_text) (unixPool s) (ldUnixNet s) =
      Done (r', pool', n')" "pool_wf pool' n'"
    using pool_write_ok [of "unixPool s" "ldUnixNet s" "envUnixPool env"] assms by (auto simp: load_ok_def) blast
  obtain n1 ok1 where d1: "dial_and_write (envDirect env) ''tcp'' (host_addr (statsHost flags) (statsPortTcp flags))
      (stringValue intn m @ newline_text) (ldDirect s) = Done (ok1, n1)" using direct by blast
  obtain n2 ok2 where d2: "dial_and_write (envDirect env) ''udp'' (host_addr (statsHost flags) (statsPortUdp flags))
      (stringValue intn m) (ldDirect s) = Done (ok2, n2)" using direct by blast
  obtain n3 ok3 where d3: "dial_and_write (envDirect env) ''unix'' (statsSock flags) (stringValue intn m) (ldDirect s) =
      Done (ok3, n3)" using direct by blast
  show ?thesis
    using True assms tcp unix d1 d2 d3 unfolding known_kind_cases
    by (elim insertE; simp add: sendMetricToStats_def Let_def connection_types load_ok_def totalCount_def totalError_def)
next
  case False
  then show ?thesis using assms by (auto simp: sendMetricToStats_def known_kind_cases Let_def)
qed

definition load_inv :: "load_metric list \<Rightarrow> load_sys \<Rightarrow> bool" where
  "load_inv store s \<longleftrightarrow> load_ok (loadState s) \<and>
     (\<exists>k. sent s @ pending s = concat (replicate k store)) \<and>
     0 \<le> totalError (ldCounters (loadState s)) \<and>
     totalError (ldCounters (loadState s)) \<le> totalCount (ldCounters (loadState s)) \<and>
     (list_all known_kind store \<longrightarrow> totalCount (ldCounters (loadState s)) = int (length (sent s)))"

lemma load_inv_step:
  assumes "load_step env flags store s t" "load_inv store s"
  shows "load_inv store t"
  using assms
proof (induction rule: load_step.induct)
  case (tick s)
  then obtain k where "sent s = concat (replicate k store)" by (auto simp: load_inv_def)
  then have "sent s @ store = concat (replicate (Suc k) store)" by (simp only: concat_replicate_snoc)
  then have "\<exists>k. sent s @ store = concat (replicate k store)" by blast
  then show ?case using tick.prems by (simp add: load_inv_def)
next
  case (hand_over s m ms intn st)
  note inv = hand_over.prems[unfolded load_inv_def]
  obtain k where k: "sent s @ m # ms = concat (replicate k store)" using inv hand_over.hyps(3) by auto
  then have "m \<in> set (concat (replicate k store))" by (metis in_set_conv_decomp)
  then have m: "m \<in> set store" by auto
  obtain st' where st': "sendMetricToStats env flags intn m (loadState s) = Done st'" "load_ok st'"
    "totalCount (ldCounters st') = totalCount (ldCounters (loadState s)) + (if known_kind m then 1 else 0)"
    "totalError (ldCounters (loadState s)) \<le> totalError (ldCounters st')"
    "totalError (ldCounters st') \<le> totalError (ldCounters (loadState s)) + (if known_kind m then 1 else 0)"
    using send_counts [of "loadState s" env flags intn m] inv by blast
  then have "st' = st" using hand_over.hyps(4) by simp
  moreover have "list_all known_kind store \<Longrightarrow> known_kind m" using m by (simp add: list_all_iff)
  ultimately show ?case using inv st' k unfolding load_inv_def by auto
qed (auto simp: load_inv_def)

lemma load_inv_reach: "load_reach env flags store s t \<Longrightarrow> load_inv store s \<Longrightarrow> load_inv store t"
  by (induction rule: load_reach.induct) (auto intro: load_inv_step)

lemma load_start_ok:
  assumes "0 \<le> statsPoolCount flags" "\<forall>i \<in> set (closed n). i < dials n"
  shows "\<exists>st. load_start env flags n = Done st \<and> load_ok st \<and> ldCounters st = no_counts"
proof -
  have ty: "conn_type ConnPoolTypeTcp = Some ''tcp''" "conn_type ConnPoolTypeUnix = Some ''unix''"
    by (simp_all add: conn_type_def ConnPoolTypeTcp_def ConnPoolTypeUnix_def)
  obtain p e n1 where "CreateConnectionPool (envTcpPool env) (statsPoolCount flags)
      (host_addr (statsHost flags) (statsPortTcp flags)) ConnPoolTypeTcp 10000000000 n = Done (p, e, n1)" "pool_wf p n1"
    using create_pool [OF assms(1) ty(1) assms(2)] by metis
  moreover obtain p' e' n2 where "CreateConnectionPool (envUnixPool env) (statsPoolCount flags) (statsSock flags)
      ConnPoolTypeUnix 10000000000 n = Done (p', e', n2)" "pool_wf p' n2"
    using create_pool [OF assms(1) ty(2) assms(2)] by metis
  ultimately show ?thesis by (simp add: load_start_def load_ok_def)
qed

text \<open>The documented range of \<open>randutil.IntRange(1, 6)\<close>.\<close>

definition kinds_in_range :: "random_source \<Rightarrow> bool" where
  "kinds_in_range rand \<longleftrightarrow> (\<forall>i. 1 \<le> randKind rand i \<and> randKind rand i < 6)"

lemma generated_kinds:
  assumes "kinds_in_range rand"
  shows "list_all known_kind (generateMetricNames flags rand k [] token)"
proof -
  have "known_kind (generate_metric flags rand token i)" for i
    using assms by (auto simp: generate_metric_def known_kind_def kinds_in_range_def add1_zle_eq [symmetric])
  then show ?thesis by (simp add: generateMetricNames_def list_all_iff)
qed

text \<open>
  Property C22.  The books of the load test, whatever the network does: no send panics or blocks for
  ever, so the sender can always hand over its next metric; the metrics sent so far are
  the store over and over, cut at the point reached; every one is counted as exactly one
  connection, and there are never more errors than connections in total.
\<close>
theorem load_run_accounts:
  assumes "load_start env flags n = Done st" "\<forall>i \<in> set (closed n). i < dials n" "0 \<le> statsPoolCount flags"
    and "kinds_in_range rand" "store = generateMetricNames flags rand numMetrics [] token"
    and "load_reach env flags store (load_init st) s"
  shows "(\<exists>k. sent s @ pending s = concat (replicate k store)) \<and>
    totalCount (ldCounters (loadState s)) = int (length (sent s)) \<and>
    0 \<le> totalError (ldCounters (loadState s)) \<and>
    totalError (ldCounters (loadState s)) \<le> totalCount (ldCounters (loadState s)) \<and>
    (\<not> senderRuns s \<or> \<not> flusherRuns s \<or> pending s = [] \<or>
      (\<exists>t. load_step env flags store s t \<and> sent t = sent s @ [hd (pending s)]))"
proof -
  have "load_ok st" "ldCounters st = no_counts" using load_start_ok [OF assms(3,2), of env] assms(1) by auto
  then have "load_inv store (load_init st)"
    by (auto simp: load_inv_def load_init_def no_counts_def totalError_def totalCount_def intro: exI [of _ 0])
  then have inv: "load_inv store s" using load_inv_reach assms(6) by blast
  have "\<exists>t. load_step env flags store s t \<and> sent t = sent s @ [hd (pending s)]"
    if run: "senderRuns s" "flusherRuns s" "pending s \<noteq> []"
  proof -
    obtain m ms where m: "pending s = m # ms" using run(3) by (cases "pending s") auto
    obtain st' where "sendMetricToStats env flags (\<lambda>_. 0) m (loadState s) = Done st'"
      using send_counts [of "loadState s" env flags "\<lambda>_. 0" m] inv by (auto simp: load_inv_def)
    from load_step.hand_over [OF run(1,2) m this] show ?thesis using m by fastforce
  qed
  then show ?thesis using inv generated_kinds [OF assms(4)] assms(5) by (auto simp: load_inv_def)
qed

definition demo_flags :: load_flags where
  "demo_flags = \<lparr>statsHost = ''h'', statsPortTcp = 1, statsPortUdp = 2, statsSock = ''s'', statsPoolCount = 1, connTypeFlag = 2\<rparr>"

definition demo_random :: random_source where
  "demo_random = \<lparr>randString = \<lambda>_. ''x'', randKind = \<lambda>_. 1, randIndex = \<lambda>_ _. 0\<rparr>"

definition down :: net_env where
  "down = \<lparr>dial_ok = \<lambda>_ _ _. False, write_fails = \<lambda>_. None, timer_first = \<lambda>_. False\<rparr>"

theorem load_run_accounts_witness:
  "\<exists>st s. load_start \<lparr>envDirect = down, envTcpPool = down, envUnixPool = down\<rparr> demo_flags new_net = Done st \<and>
     pending s = generateMetricNames demo_flags demo_random 1 [] [] \<and>
     load_reach \<lparr>envDirect = down, envTcpPool = down, envUnixPool = down\<rparr> demo_flags
       (generateMetricNames demo_flags demo_random 1 [] []) (load_init st) s \<and>
     totalCount (ldCounters (loadState s)) = 0"
proof -
  let ?env = "\<lparr>envDirect = down, envTcpPool = down, envUnixPool = down\<rparr>"
  let ?store = "generateMetricNames demo_flags demo_random 1 [] []"
  have wf: "\<forall>i \<in> set (closed new_net). i < dials new_net" by (simp add: new_net_def)
  have pos: "0 \<le> statsPoolCount demo_flags" by (simp add: demo_flags_def)
  obtain st where st: "load_start ?env demo_flags new_net = Done st" using load_start_ok [OF pos wf] by blast
  let ?s = "(load_init st)\<lparr>pending := ?store\<rparr>"
  have "load_step ?env demo_flags ?store (load_init st) ?s" by (rule load_step.tick) (simp_all add: load_init_def)
  then have r: "load_reach ?env demo_flags ?store (load_init st) ?s" by (blast intro: load_reach.intros)
  have k: "kinds_in_range demo_random" by (simp add: kinds_in_range_def demo_random_def)
  from load_run_accounts [OF st wf pos k refl r] have "totalCount (ldCounters (loadState ?s)) = 0"
    by (simp add: load_init_def)
  then show ?thesis using st r by (intro exI [of _ st] exI [of _ ?s]) simp
qed

subsection \<open>The report\<close>

text \<open>
  Fact.  The books of the two TCP kinds are mixed up: when the TCP pool has no connection left,
  the failure of the pooled send is added to the errors of the direct TCP connections, so that the
  report shows no error for the pool and may show more TCP errors than TCP connections.
\<close>
theorem sendMetricToStats_wrong_counter:
  assumes "connectionType m = ConnectionTypeTcpPool" "idle (tcpPool s) = []"
  shows "\<exists>s'. sendMetricToStats env flags intn m s = Done s' \<and>
    connectionCountTcpPool (ldCounters s') = connectionCountTcpPool (ldCounters s) + 1 \<and>
    connectionErrorTcpPool (ldCounters s') = connectionErrorTcpPool (ldCounters s) \<and>
    connectionCountTcp (ldCounters s') = connectionCountTcp (ldCounters s) \<and>
    connectionErrorTcp (ldCounters s') = connectionErrorTcp (ldCounters s) + 1"
proof -
  have "GetConnection (envTcpPool env) (tcpPool s) (ldTcpNet s) =
      ((NilConn, Some ConnTimeout), tcpPool s, (ldTcpNet s)\<lparr>gets := gets (ldTcpNet s) + 1\<rparr>)"
    using assms(2) by (simp add: GetConnection_def Let_def idle_def chan_recv_def)
  then show ?thesis using assms(1)
    by (simp add: sendMetricToStats_def pool_write_def Let_def connection_types)
qed

theorem sendMetricToStats_wrong_counter_witness:
  "\<exists>s'. sendMetricToStats \<lparr>envDirect = down, envTcpPool = down, envUnixPool = down\<rparr> demo_flags (\<lambda>_. 0)
      \<lparr>loadKey = ''a'', loadType = ''c'', loadValue = 0, connectionType = 2\<rparr>
      \<lparr>ldCounters = no_counts, ldDirect = new_net, tcpPool = one_conn\<lparr>Connections := make_chan 1\<rparr>,
        ldTcpNet = new_net, unixPool = one_conn, ldUnixNet = new_net\<rparr> = Done s' \<and>
    connectionCountTcp (ldCounters s') < connectionErrorTcp (ldCounters s')"
  using sendMetricToStats_wrong_counter
    [of "\<lparr>loadKey = ''a'', loadType = ''c'', loadValue = 0, connectionType = 2\<rparr>"
      "\<lparr>ldCounters = no_counts, ldDirect = new_net, tcpPool = one_conn\<lparr>Connections := make_chan 1\<rparr>,
        ldTcpNet = new_net, unixPool = one_conn, ldUnixNet = new_net\<rparr>"
      "\<lparr>envDirect = down, envTcpPool = down, envUnixPool = down\<rparr>" demo_flags "\<lambda>_. 0"]
  by (auto simp: connection_types idle_def make_chan_def no_counts_def)

lemma print_report_None: "print_report t ls = None \<longleftrightarrow> ls \<noteq> [] \<and> go_div t 1000000000 = 0"
  by (induction t ls rule: print_report.induct) (auto simp: printReqPerSecond_def)

lemma print_report_Some:
  "go_div t 1000000000 \<noteq> 0 \<Longrightarrow> print_report t ls =
     Some (map (\<lambda>(title, conns, errors). (title, conns, errors, go_div (conns - errors) (go_div t 1000000000),
       float_of_int errors / float_of_int conns)) ls)"
  by (induction t ls rule: print_report.induct) (auto simp: printReqPerSecond_def)

lemma go_div_zero_iff: "0 < b \<Longrightarrow> go_div a b = 0 \<longleftrightarrow> \<bar>a\<bar> < b"
  by (auto simp: go_div_def sgn_if div_pos_pos_trivial pos_imp_zdiv_pos_iff zdiv_eq_0_iff)

text \<open>
  Fact.  A test that ran for less than a second panics before it reports anything; after at
  least a second all six blocks are printed, the last with the sums.
\<close>
theorem print_report_short_run:
  "print_report totalTime (report_lines c) =
     (if \<bar>totalTime\<bar> < 1000000000 then None
      else Some (map (\<lambda>(title, conns, errors). (title, conns, errors,
        go_div (conns - errors) (go_div totalTime 1000000000), float_of_int errors / float_of_int conns)) (report_lines c)))"
  using print_report_None [of totalTime "report_lines c"] print_report_Some [of totalTime "report_lines c"]
    go_div_zero_iff [of 1000000000 totalTime]
  by (simp add: report_lines_def)

subsection \<open>What the daemon makes of the messages\<close>

text \<open>What the documentation of the random sources promises.\<close>

definition random_ok :: "random_source \<Rightarrow> bool" where
  "random_ok rand \<longleftrightarrow> (\<forall>i. random_name (randString rand i)) \<and> (\<forall>i n. 0 < n \<longrightarrow> randIndex rand i n < n)"

lemma generated_type:
  assumes "random_ok rand"
  shows "loadType (generate_metric flags rand tok i) \<in> {''c'', ''g'', ''ms'', ''s''}"
proof -
  have "randIndex rand i (length metricTypes) < length metricTypes"
    using assms by (simp add: random_ok_def metricTypes_def)
  then have "metricTypes ! randIndex rand i (length metricTypes) \<in> set metricTypes" by (rule nth_mem)
  then show ?thesis by (simp add: generate_metric_def metricTypes_def)
qed

lemma metric_value_small:
  assumes "\<forall>n. 0 < n \<longrightarrow> intn n < n"
  shows "\<exists>v < 1000. metric_value intn t = int v"
proof -
  have "intn 100 < 100" "intn 1000 < 1000" using assms by auto
  then show ?thesis unfolding metric_value_def by (auto intro: exI [of _ 1] exI [of _ 0])
qed

lemma type_known: "t \<in> {''c'', ''g'', ''ms'', ''s''} \<Longrightarrow> getMetricType t = (fst (getMetricType t), True)"
  by (auto simp: getMetricType_def)

text \<open>One message, whatever number was drawn for it.\<close>

lemma load_message_accepted:
  assumes "random_ok rand" "\<forall>n. 0 < n \<longrightarrow> intn n < n" "auth_takes auth token"
    and "m \<in> set (generateMetricNames flags rand numMetrics [] (token_prefix token))"
  shows "newline \<notin> set (stringValue intn m) \<and> long_enough (stringValue intn m) \<and>
    (\<exists>key. loadKey m = token_prefix token @ key \<and> accepted_metric auth (stringValue intn m) =
      Some (parsed_metric key (Fin (of_int (metric_value intn (loadType m)))) (fst (getMetricType (loadType m))) 1))"
proof -
  obtain i where i: "m = generate_metric flags rand (token_prefix token) i"
    using assms(4) unfolding generateMetricNames_def by auto
  define key where "key = ''statsgod.test.'' @ randString rand i"
  have key: "loadKey m = token_prefix token @ key" "client_key key"
    using i assms(1) random_key by (auto simp: generate_metric_def key_def random_ok_def)
  have t: "loadType m \<in> {''c'', ''g'', ''ms'', ''s''}" unfolding i by (rule generated_type [OF assms(1)])
  obtain v where v: "v < 1000" "metric_value intn (loadType m) = int v"
    using metric_value_small [OF assms(2)] by blast
  have msg: "stringValue intn m = token_prefix token @ client_message key v (loadType m)"
    by (simp add: stringValue_def client_message_def key v)
  have "newline \<notin> set (token_prefix token)"
    using assms(3) by (cases auth) (auto simp: token_prefix_def newline_def)
  then have "newline \<notin> set (stringValue intn m)" "long_enough (stringValue intn m)"
    using client_message_line [OF key(2) t, of v] unfolding msg by (auto simp: long_enough_def)
  moreover have "accepted_metric auth (stringValue intn m) =
      Some (parsed_metric key (Fin (of_nat v)) (fst (getMetricType (loadType m))) 1)"
    using accepted_with_token [OF assms(3) key(2) v(1) type_known [OF t]]
    unfolding msg token_prefix_def by simp
  ultimately show ?thesis using key v by auto
qed

text \<open>
  Property C14.  From one end to the other: what the load test sends over a TCP connection, any
  sequence of its metrics with a number drawn anew for each send, is cut into exactly these messages
  by the reader of the daemon, as long as its reads respect the lines as \<open>framed\<close> says; and each is
  accepted as the metric it was made from: its key without the token, the value drawn for it and its
  type, with one hit, whether the daemon asks for a token or not.
\<close>
theorem load_messages_accepted:
  assumes "random_ok rand" "auth_takes auth token"
    and "\<forall>(intn, m) \<in> set sends. m \<in> set (generateMetricNames flags rand numMetrics [] (token_prefix token)) \<and>
      (\<forall>n. 0 < n \<longrightarrow> intn n < n)"
    and "framed [] reads" "concat reads = concat (map (\<lambda>(intn, m). stringValue intn m @ newline_text) sends)"
  shows "readInput reads = Some (map (\<lambda>(intn, m). stringValue intn m) sends) \<and>
    list_all (\<lambda>(intn, m). \<exists>key. loadKey m = token_prefix token @ key \<and>
      accepted_metric auth (stringValue intn m) =
        Some (parsed_metric key (Fin (of_int (metric_value intn (loadType m)))) (fst (getMetricType (loadType m))) 1)) sends"
proof
  let ?msgs = "map (\<lambda>(intn, m). stringValue intn m) sends"
  have one: "newline \<notin> set (stringValue intn m) \<and> long_enough (stringValue intn m) \<and>
      (\<exists>key. loadKey m = token_prefix token @ key \<and> accepted_metric auth (stringValue intn m) =
        Some (parsed_metric key (Fin (of_int (metric_value intn (loadType m)))) (fst (getMetricType (loadType m))) 1))"
    if "(intn, m) \<in> set sends" for intn m
    by (rule load_message_accepted [OF assms(1) _ assms(2)]) (use that assms(3) in blast)+
  show "list_all (\<lambda>(intn, m). \<exists>key. loadKey m = token_prefix token @ key \<and>
      accepted_metric auth (stringValue intn m) =
        Some (parsed_metric key (Fin (of_int (metric_value intn (loadType m)))) (fst (getMetricType (loadType m))) 1)) sends"
    using one by (auto simp: list_all_iff)
  have "concat reads = concat (map (\<lambda>m. m @ [newline]) ?msgs)"
    using assms(5) by (simp add: newline_text_def o_def case_prod_unfold)
  moreover have "list_all (\<lambda>m. newline \<notin> set m \<and> long_enough m) ?msgs" using one by (auto simp: list_all_iff)
  ultimately show "readInput reads = Some ?msgs" using framing [OF assms(4)] whole_lines_terminated [of ?msgs] by metis
qed

text \<open>Two sends of one gauge with different numbers, which arrive in one read.\<close>

definition gauge_random :: random_source where
  "gauge_random = demo_random\<lparr>randString := \<lambda>_. replicate 20 (CHR ''x''), randIndex := \<lambda>_ n. if n = 4 then 1 else 0\<rparr>"

definition gauge_metric :: load_metric where
  "gauge_metric = generate_metric demo_flags gauge_random ''tok.'' 0"

theorem load_messages_accepted_witness:
  "loadType gauge_metric = ''g'' \<and>
   readInput [stringValue (\<lambda>n. n - 1) gauge_metric @ newline_text @ stringValue (\<lambda>_. 0) gauge_metric @ newline_text] =
     Some [stringValue (\<lambda>n. n - 1) gauge_metric, stringValue (\<lambda>_. 0) gauge_metric] \<and>
   stringValue (\<lambda>n. n - 1) gauge_metric = ''tok.statsgod.test.'' @ replicate 20 (CHR ''x'') @ '':99|g''"
proof -
  have "random_ok gauge_random"
    by (simp add: random_ok_def random_name_def gauge_random_def demo_random_def list_all_iff letter_def)
  moreover have "auth_takes (AuthConfigToken [(''tok'', True)]) ''tok''" by (simp add: newline_def)
  moreover have "gauge_metric \<in> set (generateMetricNames demo_flags gauge_random 1 [] (token_prefix ''tok''))"
    by (simp add: generateMetricNames_def gauge_metric_def token_prefix_def)
  moreover have "framed [] [stringValue (\<lambda>n. n - 1) gauge_metric @ newline_text @ stringValue (\<lambda>_. 0) gauge_metric @ newline_text]"
    using tail_of_newline [of "stringValue (\<lambda>n. n - 1) gauge_metric @ newline_text @ stringValue (\<lambda>_. 0) gauge_metric"]
    by (simp add: newline_text_def)
  ultimately have "readInput [stringValue (\<lambda>n. n - 1) gauge_metric @ newline_text @ stringValue (\<lambda>_. 0) gauge_metric @ newline_text] =
     Some [stringValue (\<lambda>n. n - 1) gauge_metric, stringValue (\<lambda>_. 0) gauge_metric]"
    using load_messages_accepted [of gauge_random "AuthConfigToken [(''tok'', True)]" "''tok''"
        "[(\<lambda>n. n - 1, gauge_metric), (\<lambda>_. 0, gauge_metric)]" demo_flags 1] by simp
  then show ?thesis
    by (simp add: stringValue_def gauge_metric_def generate_metric_def gauge_random_def metricTypes_def metric_value_def itoa_def
        nat_digits.simps [of 99] nat_digits.simps [of 9] digit_char_eval)
qed

end
