(* ===== verification/Load_Threads.thy ===== *)
theory Load_Threads
  imports Load_Test
begin

text \<open>
  The load test with any number of threads: all senders and flushers share the channel, the flag to
  finish and the counters.  The counters are plain variables, so an increment is a read and a write
  between which other goroutines can run.  What a send does to the counters depends on the
  metric and on what became of the connection; \<open>Load_Test\<close> says how the network decides that.
\<close>

subsection \<open>What a send counts\<close>

datatype counter = CountTcp | CountTcpPool | CountUdp | CountUnix | CountUnixPool
  | ErrorTcp | ErrorTcpPool | ErrorUdp | ErrorUnix | ErrorUnixPool

fun counter_value :: "counter \<Rightarrow> counters \<Rightarrow> int" where
  "counter_value CountTcp = connectionCountTcp"
| "counter_value CountTcpPool = connectionCountTcpPool"
| "counter_value CountUdp = connectionCountUdp"
| "counter_value CountUnix = connectionCountUnix"
| "counter_value CountUnixPool = connectionCountUnixPool"
| "counter_value ErrorTcp = connectionErrorTcp"
| "counter_value ErrorTcpPool = connectionErrorTcpPool"
| "counter_value ErrorUdp = connectionErrorUdp"
| "counter_value ErrorUnix = connectionErrorUnix"
| "counter_value ErrorUnixPool = connectionErrorUnixPool"

fun set_counter :: "counter \<Rightarrow> int \<Rightarrow> counters \<Rightarrow> counters" where
  "set_counter CountTcp v cs = cs\<lparr>connectionCountTcp := v\<rparr>"
| "set_counter CountTcpPool v cs = cs\<lparr>connectionCountTcpPool := v\<rparr>"
| "set_counter CountUdp v cs = cs\<lparr>connectionCountUdp := v\<rparr>"
| "set_counter CountUnix v cs = cs\<lparr>connectionCountUnix := v\<rparr>"
| "set_counter CountUnixPool v cs = cs\<lparr>connectionCountUnixPool := v\<rparr>"
| "set_counter ErrorTcp v cs = cs\<lparr>connectionErrorTcp := v\<rparr>"
| "set_counter ErrorTcpPool v cs = cs\<lparr>connectionErrorTcpPool := v\<rparr>"
| "set_counter ErrorUdp v cs = cs\<lparr>connectionErrorUdp := v\<rparr>"
| "set_counter ErrorUnix v cs = cs\<lparr>connectionErrorUnix := v\<rparr>"
| "set_counter ErrorUnixPool v cs = cs\<lparr>connectionErrorUnixPool := v\<rparr>"

text \<open>The increments of one send, in the order of the code.  A pool of TCP connections that has none
  counts as an error of direct connections.\<close>

definition increments :: "int \<Rightarrow> pool_result \<Rightarrow> counter list" where
  "increments kind r =
     (if kind = ConnectionTypeTcp then CountTcp # (if r = NoConnection then [ErrorTcp] else [])
      else if kind = ConnectionTypeTcpPool then
        CountTcpPool # (case r of NoConnection \<Rightarrow> [ErrorTcp] | WriteFailed \<Rightarrow> [ErrorTcpPool] | Written \<Rightarrow> [])
      else if kind = ConnectionTypeUdp then CountUdp # (if r = NoConnection then [ErrorUdp] else [])
      else if kind = ConnectionTypeUnix then CountUnix # (if r = NoConnection then [ErrorUnix] else [])
      else if kind = ConnectionTypeUnixPool then CountUnixPool # (if r = Written then [] else [ErrorUnixPool])
      else [])"

definition increment :: "counter \<Rightarrow> counters \<Rightarrow> counters" where
  "increment c cs = set_counter c (counter_value c cs + 1) cs"

lemma counter_value_set: "counter_value c (set_counter d v cs) = (if c = d then v else counter_value c cs)"
  by (cases c; cases d) simp_all

text \<open>The sequential send of \<open>Load_Test\<close> makes exactly these increments.\<close>

lemma send_increments:
  assumes "sendMetricToStats env flags intn m s = Done s'"
  shows "\<exists>r. ldCounters s' = fold increment (increments (connectionType m) r) (ldCounters s)"
proof -
  note d = assms [unfolded sendMetricToStats_def Let_def]
  consider "connectionType m = ConnectionTypeTcp" | "connectionType m = ConnectionTypeTcpPool"
    | "connectionType m = ConnectionTypeUdp" | "connectionType m = ConnectionTypeUnix"
    | "connectionType m = ConnectionTypeUnixPool" | "\<not> known_kind m"
    by (auto simp: known_kind_cases)
  then show ?thesis
  proof cases
    case 1
    with d obtain ok where "ldCounters s' = (ldCounters s)\<lparr>connectionCountTcp := connectionCountTcp (ldCounters s) + 1,
        connectionErrorTcp := (if ok then connectionErrorTcp (ldCounters s) else connectionErrorTcp (ldCounters s) + 1)\<rparr>"
      by (auto split: outcome.splits prod.splits)
    then show ?thesis using 1
      by (intro exI [of _ "if ok then Written else NoConnection"]) (simp add: increments_def increment_def connection_types)
  next
    case 2
    with d obtain r where "ldCounters s' = (ldCounters s)\<lparr>connectionCountTcpPool := connectionCountTcpPool (ldCounters s) + 1,
        connectionErrorTcpPool := (if r = WriteFailed then connectionErrorTcpPool (ldCounters s) + 1 else connectionErrorTcpPool (ldCounters s)),
        connectionErrorTcp := (if r = NoConnection then connectionErrorTcp (ldCounters s) + 1 else connectionErrorTcp (ldCounters s))\<rparr>"
      by (auto simp: connection_types split: outcome.splits prod.splits)
    then show ?thesis using 2
      by (intro exI [of _ r]) (cases r; simp add: increments_def increment_def connection_types)
  next
    case 3
    with d obtain ok where "ldCounters s' = (ldCounters s)\<lparr>connectionCountUdp := connectionCountUdp (ldCounters s) + 1,
        connectionErrorUdp := (if ok then connectionErrorUdp (ldCounters s) else connectionErrorUdp (ldCounters s) + 1)\<rparr>"
      by (auto simp: connection_types split: outcome.splits prod.splits)
    then show ?thesis using 3
      by (intro exI [of _ "if ok then Written else NoConnection"]) (simp add: increments_def increment_def connection_types)
  next
    case 4
    with d obtain ok where "ldCounters s' = (ldCounters s)\<lparr>connectionCountUnix := connectionCountUnix (ldCounters s) + 1,
        connectionErrorUnix := (if ok then connectionErrorUnix (ldCounters s) else connectionErrorUnix (ldCounters s) + 1)\<rparr>"
      by (auto simp: connection_types split: outcome.splits prod.splits)
    then show ?thesis using 4
      by (intro exI [of _ "if ok then Written else NoConnection"]) (simp add: increments_def increment_def connection_types)
  next
    case 5
    with d obtain r where "ldCounters s' = (ldCounters s)\<lparr>connectionCountUnixPool := connectionCountUnixPool (ldCounters s) + 1,
        connectionErrorUnixPool := (if r = Written then connectionErrorUnixPool (ldCounters s) else connectionErrorUnixPool (ldCounters s) + 1)\<rparr>"
      by (auto simp: connection_types split: outcome.splits prod.splits)
    then show ?thesis using 5
      by (intro exI [of _ r]) (simp add: increments_def increment_def connection_types)
  next
    case 6
    with assms have "s' = s" by (auto simp: sendMetricToStats_def known_kind_cases Let_def)
    with 6 show ?thesis by (simp add: increments_def known_kind_cases)
  qed
qed

subsection \<open>Threads\<close>

record sender =
  sdPending :: "load_metric list"  \<comment> \<open>what it has yet to hand over in this round\<close>
  sdRuns :: bool

text \<open>A flusher in a send has increments to make; of the first it may have read the counter already.\<close>

record flusher =
  flTodo :: "counter list"
  flRead :: "int option"
  flRuns :: bool

record threads =
  thSenders :: "sender list"
  thFlushers :: "flusher list"
  thFinished :: bool
  thCounters :: counters
  thSent :: "(nat \<times> load_metric \<times> pool_result) list"  \<comment> \<open>history: the sender, the metric, what became of it\<close>

definition threads_init :: "nat \<Rightarrow> threads" where
  "threads_init k = \<lparr>thSenders = replicate k \<lparr>sdPending = [], sdRuns = True\<rparr>,
     thFlushers = replicate k \<lparr>flTodo = [], flRead = None, flRuns = True\<rparr>,
     thFinished = False, thCounters = no_counts, thSent = []\<rparr>"

definition sender_at :: "threads \<Rightarrow> nat \<Rightarrow> load_metric list \<Rightarrow> bool" where
  "sender_at s i ms \<longleftrightarrow> i < length (thSenders s) \<and> thSenders s ! i = \<lparr>sdPending = ms, sdRuns = True\<rparr>"

definition flusher_at :: "threads \<Rightarrow> nat \<Rightarrow> counter list \<Rightarrow> int option \<Rightarrow> bool" where
  "flusher_at s j cs v \<longleftrightarrow> j < length (thFlushers s) \<and> thFlushers s ! j = \<lparr>flTodo = cs, flRead = v, flRuns = True\<rparr>"

definition set_sender :: "nat \<Rightarrow> load_metric list \<Rightarrow> bool \<Rightarrow> threads \<Rightarrow> threads" where
  "set_sender i ms b s = s\<lparr>thSenders := (thSenders s)[i := \<lparr>sdPending = ms, sdRuns = b\<rparr>]\<rparr>"

definition set_flusher :: "nat \<Rightarrow> counter list \<Rightarrow> int option \<Rightarrow> bool \<Rightarrow> threads \<Rightarrow> threads" where
  "set_flusher j cs v b s = s\<lparr>thFlushers := (thFlushers s)[j := \<lparr>flTodo = cs, flRead = v, flRuns = b\<rparr>]\<rparr>"

inductive threads_step :: "load_metric list list \<Rightarrow> threads \<Rightarrow> threads \<Rightarrow> bool" for stores where
  tick: "sender_at s i [] \<Longrightarrow> threads_step stores s (set_sender i (stores ! i) True s)"
| hand_over: "sender_at s i (m # ms) \<Longrightarrow> flusher_at s j [] None \<Longrightarrow>
    threads_step stores s (set_sender i ms True (set_flusher j (increments (connectionType m) r) None True
      (s\<lparr>thSent := thSent s @ [(i, m, r)]\<rparr>)))"
| read_counter: "flusher_at s j (c # cs) None \<Longrightarrow>
    threads_step stores s (set_flusher j (c # cs) (Some (counter_value c (thCounters s))) True s)"
| write_counter: "flusher_at s j (c # cs) (Some v) \<Longrightarrow>
    threads_step stores s (set_flusher j cs None True (s\<lparr>thCounters := set_counter c (v + 1) (thCounters s)\<rparr>))"
| finish: "threads_step stores s (s\<lparr>thFinished := True\<rparr>)"
| sender_returns: "sender_at s i [] \<Longrightarrow> thFinished s \<Longrightarrow> threads_step stores s (set_sender i [] False s)"
| flusher_returns: "flusher_at s j [] None \<Longrightarrow> thFinished s \<Longrightarrow> threads_step stores s (set_flusher j [] None False s)"

inductive threads_reach :: "load_metric list list \<Rightarrow> threads \<Rightarrow> threads \<Rightarrow> bool" for stores s where
  start: "threads_reach stores s s"
| later: "threads_reach stores s t \<Longrightarrow> threads_step stores t u \<Longrightarrow> threads_reach stores s u"

lemma set_thread_simps [simp]:
  "thFlushers (set_sender i ms b s) = thFlushers s" "thSenders (set_flusher j cs v b s) = thSenders s"
  "thCounters (set_sender i ms b s) = thCounters s" "thCounters (set_flusher j cs v b s) = thCounters s"
  "thSent (set_sender i ms b s) = thSent s" "thSent (set_flusher j cs v b s) = thSent s"
  "thSenders (set_sender i ms b s) = (thSenders s)[i := \<lparr>sdPending = ms, sdRuns = b\<rparr>]"
  "thFlushers (set_flusher j cs v b s) = (thFlushers s)[j := \<lparr>flTodo = cs, flRead = v, flRuns = b\<rparr>]"
  by (simp_all add: set_sender_def set_flusher_def)

subsection \<open>What the counters say\<close>

text \<open>The increments that the sends so far call for, and those that are still to be made.\<close>

definition due :: "counter \<Rightarrow> threads \<Rightarrow> nat" where
  "due c s = (\<Sum>x\<leftarrow>thSent s. count_list (increments (connectionType (fst (snd x))) (snd (snd x))) c)"

definition still_to_make :: "counter \<Rightarrow> threads \<Rightarrow> nat" where
  "still_to_make c s = (\<Sum>f\<leftarrow>thFlushers s. count_list (flTodo f) c)"

text \<open>A counter never exceeds the increments made, and neither does what a flusher has read of it.\<close>

definition counts_ok :: "threads \<Rightarrow> bool" where
  "counts_ok s \<longleftrightarrow>
     (\<forall>c. 0 \<le> counter_value c (thCounters s) \<and> counter_value c (thCounters s) + int (still_to_make c s) \<le> int (due c s)) \<and>
     (\<forall>f \<in> set (thFlushers s). \<forall>v c cs. flRead f = Some v \<and> flTodo f = c # cs \<longrightarrow>
        0 \<le> v \<and> v + int (still_to_make c s) \<le> int (due c s))"

lemma still_set_flusher:
  assumes "flusher_at s j cs v"
  shows "still_to_make c (set_flusher j cs' v' b s) + count_list cs c = still_to_make c s + count_list cs' c"
  using sum_list_map_update [of j "thFlushers s" "\<lambda>f. count_list (flTodo f) c" "\<lparr>flTodo = cs', flRead = v', flRuns = b\<rparr>"] assms
  by (simp add: still_to_make_def flusher_at_def)

lemma counts_parts [simp]:
  "still_to_make c (set_sender i ms b s) = still_to_make c s" "due c (set_sender i ms b s) = due c s"
  "due c (set_flusher j cs v b s) = due c s" "still_to_make c (s\<lparr>thSent := xs\<rparr>) = still_to_make c s"
  "still_to_make c (s\<lparr>thCounters := n\<rparr>) = still_to_make c s" "due c (s\<lparr>thCounters := n\<rparr>) = due c s"
  "still_to_make c (s\<lparr>thFinished := x\<rparr>) = still_to_make c s" "due c (s\<lparr>thFinished := x\<rparr>) = due c s"
  "due c (s\<lparr>thSent := thSent s @ [(i, m, r)]\<rparr>) = due c s + count_list (increments (connectionType m) r) c"
  "counts_ok (set_sender i ms b s) = counts_ok s"
  by (simp_all add: still_to_make_def due_def counts_ok_def)

lemma counts_ok_move:
  assumes "counts_ok s" "flusher_at s j cs v" "thFlushers s' = (thFlushers s)[j := \<lparr>flTodo = cs', flRead = v', flRuns = b\<rparr>]"
    and "\<And>c. 0 \<le> counter_value c (thCounters s') \<and> counter_value c (thCounters s') + int (still_to_make c s') \<le> int (due c s')"
    and "\<And>c. int (due c s) - int (still_to_make c s) \<le> int (due c s') - int (still_to_make c s')"
    and "\<And>w c ds. v' = Some w \<Longrightarrow> cs' = c # ds \<Longrightarrow> 0 \<le> w \<and> w + int (still_to_make c s') \<le> int (due c s')"
  shows "counts_ok s'"
proof -
  have "0 \<le> w \<and> w + int (still_to_make c s') \<le> int (due c s')"
    if f: "f \<in> set (thFlushers s')" "flRead f = Some w" "flTodo f = c # ds" for f w c ds
  proof -
    from f(1) consider "f = \<lparr>flTodo = cs', flRead = v', flRuns = b\<rparr>" | "f \<in> set (thFlushers s)"
      using set_update_subset_insert [of "thFlushers s" j] unfolding assms(3) by blast
    then show ?thesis
    proof cases
      case 1
      then show ?thesis using assms(6) f(2,3) by simp
    next
      case 2
      then have "0 \<le> w \<and> w + int (still_to_make c s) \<le> int (due c s)" using assms(1) f(2,3) by (auto simp: counts_ok_def)
      then show ?thesis using assms(5) [of c] by linarith
    qed
  qed
  then show ?thesis using assms(4) by (auto simp: counts_ok_def)
qed

lemma counts_ok_step: "threads_step stores s s' \<Longrightarrow> counts_ok s \<Longrightarrow> counts_ok s'"
proof (induction rule: threads_step.induct)
  case (hand_over s i m ms j r)
  let ?s = "set_flusher j (increments (connectionType m) r) None True (s\<lparr>thSent := thSent s @ [(i, m, r)]\<rparr>)"
  have still: "still_to_make c ?s = still_to_make c s + count_list (increments (connectionType m) r) c" for c
    using still_set_flusher [of "s\<lparr>thSent := thSent s @ [(i, m, r)]\<rparr>" j "[]" None c] hand_over.hyps(2)
    by (simp add: flusher_at_def)
  have due: "due c ?s = due c s + count_list (increments (connectionType m) r) c" for c by simp
  have "counts_ok ?s"
    by (rule counts_ok_move [OF hand_over.prems hand_over.hyps(2)])
      (use hand_over.prems in \<open>auto simp: still due counts_ok_def simp del: counts_parts(3,9)\<close>)
  then show ?case by simp
next
  case (read_counter s j c cs)
  let ?s = "set_flusher j (c # cs) (Some (counter_value c (thCounters s))) True s"
  have still: "still_to_make d ?s = still_to_make d s" for d using still_set_flusher [OF read_counter.hyps, of d "c # cs"] by simp
  show ?case
    by (rule counts_ok_move [OF read_counter.prems read_counter.hyps]) (use read_counter.prems in \<open>auto simp: still counts_ok_def\<close>)
next
  case (write_counter s j c cs v)
  let ?t = "s\<lparr>thCounters := set_counter c (v + 1) (thCounters s)\<rparr>"
  have at: "flusher_at ?t j (c # cs) (Some v)" using write_counter.hyps by (simp add: flusher_at_def)
  have still: "still_to_make d (set_flusher j cs None True ?t) + (if d = c then 1 else 0) = still_to_make d s" for d
    using still_set_flusher [OF at, of d cs None True] by (auto split: if_splits)
  have "\<lparr>flTodo = c # cs, flRead = Some v, flRuns = True\<rparr> \<in> set (thFlushers s)"
    using write_counter.hyps by (metis flusher_at_def nth_mem)
  then have v: "0 \<le> v \<and> v + int (still_to_make c s) \<le> int (due c s)" using write_counter.prems by (fastforce simp: counts_ok_def)
  have old: "0 \<le> counter_value d (thCounters s) \<and> counter_value d (thCounters s) + int (still_to_make d s) \<le> int (due d s)" for d
    using write_counter.prems by (simp add: counts_ok_def)
  show ?case
  proof (rule counts_ok_move [OF write_counter.prems write_counter.hyps])
    fix d
    show "0 \<le> counter_value d (thCounters (set_flusher j cs None True ?t)) \<and>
        counter_value d (thCounters (set_flusher j cs None True ?t)) + int (still_to_make d (set_flusher j cs None True ?t))
          \<le> int (due d (set_flusher j cs None True ?t))"
      using v old [of d] still [of d] by (auto simp: counter_value_set split: if_splits)
    show "int (due d s) - int (still_to_make d s)
        \<le> int (due d (set_flusher j cs None True ?t)) - int (still_to_make d (set_flusher j cs None True ?t))"
      using still [of d] by (auto split: if_splits)
  qed auto
next
  case (flusher_returns s j)
  have still: "still_to_make d (set_flusher j [] None False s) = still_to_make d s" for d
    using still_set_flusher [OF flusher_returns.hyps(1), of d "[]"] by simp
  show ?case
    by (rule counts_ok_move [OF flusher_returns.prems flusher_returns.hyps(1)])
      (use flusher_returns.prems in \<open>auto simp: still counts_ok_def\<close>)
qed (auto simp: counts_ok_def)

lemma counts_ok_init: "counts_ok (threads_init k)"
proof -
  have "counter_value c no_counts = 0" for c by (cases c) (simp_all add: no_counts_def)
  moreover have "still_to_make c (threads_init k) = 0" for c by (simp add: still_to_make_def threads_init_def)
  ultimately show ?thesis by (auto simp: counts_ok_def threads_init_def due_def)
qed

text \<open>A single flusher is alone between its read and its write, so nothing is lost.\<close>

definition counts_exact :: "threads \<Rightarrow> bool" where
  "counts_exact s \<longleftrightarrow> (\<exists>f. thFlushers s = [f] \<and>
     (\<forall>c. counter_value c (thCounters s) + int (count_list (flTodo f) c) = int (due c s)) \<and>
     (\<forall>v. flRead f = Some v \<longrightarrow> (\<exists>c cs. flTodo f = c # cs \<and> v = counter_value c (thCounters s))))"

lemma counts_exact_set:
  assumes "thFlushers s = [f]"
    and "\<And>c. counter_value c (thCounters s) + int (count_list cs c) = int (due c s)"
    and "\<And>w. v = Some w \<Longrightarrow> \<exists>c ds. cs = c # ds \<and> w = counter_value c (thCounters s)"
  shows "counts_exact (set_flusher 0 cs v b s)"
  using assms by (simp add: counts_exact_def)

lemma counts_exact_at:
  assumes "counts_exact s" "flusher_at s j cs v"
  shows "j = 0" "\<exists>f. thFlushers s = [f]" "counter_value c (thCounters s) + int (count_list cs c) = int (due c s)"
    "v = Some w \<Longrightarrow> cs = c # ds \<Longrightarrow> w = counter_value c (thCounters s)"
  using assms by (auto simp: counts_exact_def flusher_at_def)

lemma counts_exact_step: "threads_step stores s s' \<Longrightarrow> counts_exact s \<Longrightarrow> counts_exact s'"
proof (induction rule: threads_step.induct)
  case (hand_over s i m ms j r)
  note at = counts_exact_at [OF hand_over.prems hand_over.hyps(2)]
  obtain f where f: "thFlushers s = [f]" using at(2) by blast
  have "counts_exact (set_flusher 0 (increments (connectionType m) r) None True (s\<lparr>thSent := thSent s @ [(i, m, r)]\<rparr>))"
    by (rule counts_exact_set) (use f at(3) in simp_all)
  then show ?case by (simp add: at(1)) (simp add: counts_exact_def due_def)
next
  case (read_counter s j c cs)
  note at = counts_exact_at [OF read_counter.prems read_counter.hyps]
  obtain f where f: "thFlushers s = [f]" using at(2) by blast
  show ?case unfolding at(1) by (rule counts_exact_set [OF f at(3)]) simp
next
  case (write_counter s j c cs v)
  note at = counts_exact_at [OF write_counter.prems write_counter.hyps]
  obtain f where f: "thFlushers s = [f]" using at(2) by blast
  have v: "v = counter_value c (thCounters s)" using at(4) by blast
  have "counts_exact (set_flusher 0 cs None True (s\<lparr>thCounters := set_counter c (v + 1) (thCounters s)\<rparr>))"
  proof (rule counts_exact_set)
    fix d
    show "counter_value d (thCounters (s\<lparr>thCounters := set_counter c (v + 1) (thCounters s)\<rparr>)) + int (count_list cs d) =
        int (due d (s\<lparr>thCounters := set_counter c (v + 1) (thCounters s)\<rparr>))"
      using at(3) [of d] v by (cases "d = c") (simp_all add: counter_value_set)
  qed (use f in simp_all)
  then show ?case by (simp add: at(1))
next
  case (flusher_returns s j)
  note at = counts_exact_at [OF flusher_returns.prems flusher_returns.hyps(1)]
  obtain f where f: "thFlushers s = [f]" using at(2) by blast
  show ?case unfolding at(1) by (rule counts_exact_set [OF f at(3)]) simp
qed (simp_all add: counts_exact_def due_def)

subsection \<open>What is sent\<close>

text \<open>Every sender hands over its own store over and over, whichever flushers take the metrics.\<close>

definition sent_by :: "nat \<Rightarrow> threads \<Rightarrow> load_metric list" where
  "sent_by i s = map (\<lambda>x. fst (snd x)) (filter (\<lambda>x. fst x = i) (thSent s))"

definition rounds_ok :: "load_metric list list \<Rightarrow> threads \<Rightarrow> bool" where
  "rounds_ok stores s \<longleftrightarrow>
     (\<forall>i < length (thSenders s). \<exists>k. sent_by i s @ sdPending (thSenders s ! i) = concat (replicate k (stores ! i)))"

lemma rounds_ok_set:
  assumes "rounds_ok stores s" "thSenders s' = (thSenders s)[i := \<lparr>sdPending = ms, sdRuns = b\<rparr>]"
    and "\<And>j. j \<noteq> i \<Longrightarrow> sent_by j s' = sent_by j s" "\<exists>k. sent_by i s' @ ms = concat (replicate k (stores ! i))"
  shows "rounds_ok stores s'"
  unfolding rounds_ok_def
proof (intro allI impI)
  fix j assume j: "j < length (thSenders s')"
  show "\<exists>k. sent_by j s' @ sdPending (thSenders s' ! j) = concat (replicate k (stores ! j))"
  proof (cases "j = i")
    case True
    then show ?thesis using assms(2,4) j by simp
  next
    case False
    then show ?thesis using assms(1,2) assms(3) [OF False] j by (simp add: rounds_ok_def)
  qed
qed

lemma rounds_at: "rounds_ok stores s \<Longrightarrow> sender_at s i ms \<Longrightarrow> \<exists>k. sent_by i s @ ms = concat (replicate k (stores ! i))"
  by (force simp: rounds_ok_def sender_at_def)

lemma sent_by_set [simp]: "sent_by i (set_sender j ms b s) = sent_by i s" "sent_by i (set_flusher j cs v b s) = sent_by i s"
  by (simp_all add: sent_by_def)

lemma rounds_ok_step: "threads_step stores s s' \<Longrightarrow> rounds_ok stores s \<Longrightarrow> rounds_ok stores s'"
proof (induction rule: threads_step.induct)
  case (tick s i)
  obtain k where "sent_by i s @ [] = concat (replicate k (stores ! i))" using rounds_at [OF tick.prems tick.hyps] by blast
  then have "sent_by i s @ stores ! i = concat (replicate (Suc k) (stores ! i))" by (simp only: concat_replicate_snoc append_Nil2)
  then show ?case by (intro rounds_ok_set [OF tick.prems, of _ i]) (simp, simp, metis sent_by_set(1))
next
  case (hand_over s i m ms j r)
  obtain k where k: "sent_by i s @ m # ms = concat (replicate k (stores ! i))" using rounds_at [OF hand_over.prems hand_over.hyps(1)] by blast
  show ?case
    by (rule rounds_ok_set [OF hand_over.prems, of _ i ms True]) (use k in \<open>auto simp: sent_by_def\<close>)
next
  case (sender_returns s i)
  show ?case
    by (rule rounds_ok_set [OF sender_returns.prems, of _ i "[]" False])
      (use rounds_at [OF sender_returns.prems sender_returns.hyps(1)] in simp_all)
qed (auto simp: rounds_ok_def sent_by_def)

text \<open>
  Property C23.  The load test with any number of threads: every thread sends its store over and over, but the
  report only bounds what happened.  No counter is ever above the number of its increments made so far, it is
  never negative, and only with a single thread is it sure to be exact.
\<close>
theorem load_threads_count:
  assumes "threads_reach stores (threads_init k) s"
  shows "(\<forall>i < k. \<exists>n. sent_by i s @ sdPending (thSenders s ! i) = concat (replicate n (stores ! i))) \<and>
    (\<forall>c. 0 \<le> counter_value c (thCounters s) \<and> counter_value c (thCounters s) + int (still_to_make c s) \<le> int (due c s)) \<and>
    (k = 1 \<longrightarrow> (\<forall>c. counter_value c (thCounters s) + int (still_to_make c s) = int (due c s)))"
proof -
  have "rounds_ok stores (threads_init k)" by (auto simp: rounds_ok_def sent_by_def threads_init_def intro: exI [of _ 0])
  with assms have rounds: "rounds_ok stores s"
    by (induction rule: threads_reach.induct) (auto intro: rounds_ok_step)
  have counts: "counts_ok s" using assms by (induction rule: threads_reach.induct) (auto intro: counts_ok_step counts_ok_init)
  have len: "length (thSenders s) = k"
    using assms by (induction rule: threads_reach.induct) (auto simp: threads_init_def elim: threads_step.cases)
  have "counter_value c no_counts = 0" for c by (cases c) (simp_all add: no_counts_def)
  then have "k = 1 \<Longrightarrow> counts_exact (threads_init k)" by (simp add: counts_exact_def threads_init_def due_def)
  with assms have "k = 1 \<Longrightarrow> counts_exact s"
    by (induction rule: threads_reach.induct) (auto intro: counts_exact_step)
  then show ?thesis using rounds counts len by (auto simp: rounds_ok_def counts_ok_def counts_exact_def still_to_make_def)
qed

text \<open>Two threads that lose an increment: both flushers read the counter before either writes it.\<close>

definition tcp_metric :: load_metric where
  "tcp_metric = \<lparr>loadKey = ''a'', loadType = ''c'', loadValue = 0, connectionType = ConnectionTypeTcp\<rparr>"

definition two_threads :: "load_metric list \<Rightarrow> load_metric list \<Rightarrow> counter list \<times> int option \<Rightarrow> counter list \<times> int option \<Rightarrow> int \<Rightarrow> nat \<Rightarrow> threads" where
  "two_threads p q f g n k = \<lparr>thSenders = [\<lparr>sdPending = p, sdRuns = True\<rparr>, \<lparr>sdPending = q, sdRuns = True\<rparr>],
     thFlushers = [\<lparr>flTodo = fst f, flRead = snd f, flRuns = True\<rparr>, \<lparr>flTodo = fst g, flRead = snd g, flRuns = True\<rparr>],
     thFinished = False, thCounters = no_counts\<lparr>connectionCountTcp := n\<rparr>,
     thSent = take k [(0, tcp_metric, Written), (1, tcp_metric, Written)]\<rparr>"

lemma two_threads_lose:
  "threads_reach [[tcp_metric], [tcp_metric]] (threads_init 2) (two_threads [] [] ([], None) ([], None) 1 2)"
proof -
  let ?m = tcp_metric and ?c = CountTcp
  let ?step = "threads_step [[?m], [?m]]"
  have inc: "increments (connectionType ?m) Written = [?c]" by (simp add: increments_def tcp_metric_def)
  note at = two_threads_def sender_at_def flusher_at_def set_sender_def set_flusher_def no_counts_def inc
  have 0: "threads_init 2 = two_threads [] [] ([], None) ([], None) 0 0"
    by (simp add: threads_init_def two_threads_def no_counts_def numeral_2_eq_2)
  have 1: "?step (two_threads [] [] ([], None) ([], None) 0 0) (two_threads [?m] [] ([], None) ([], None) 0 0)"
    using threads_step.tick [of "two_threads [] [] ([], None) ([], None) 0 0" 0 "[[?m], [?m]]"] by (simp add: at)
  have 2: "?step (two_threads [?m] [] ([], None) ([], None) 0 0) (two_threads [?m] [?m] ([], None) ([], None) 0 0)"
    using threads_step.tick [of "two_threads [?m] [] ([], None) ([], None) 0 0" 1 "[[?m], [?m]]"] by (simp add: at)
  have 3: "?step (two_threads [?m] [?m] ([], None) ([], None) 0 0) (two_threads [] [?m] ([?c], None) ([], None) 0 1)"
    using threads_step.hand_over [of "two_threads [?m] [?m] ([], None) ([], None) 0 0" 0 ?m "[]" 0 "[[?m], [?m]]" Written]
    by (simp add: at)
  have 4: "?step (two_threads [] [?m] ([?c], None) ([], None) 0 1) (two_threads [] [] ([?c], None) ([?c], None) 0 2)"
    using threads_step.hand_over [of "two_threads [] [?m] ([?c], None) ([], None) 0 1" 1 ?m "[]" 1 "[[?m], [?m]]" Written]
    by (simp add: at)
  have 5: "?step (two_threads [] [] ([?c], None) ([?c], None) 0 2) (two_threads [] [] ([?c], Some 0) ([?c], None) 0 2)"
    using threads_step.read_counter [of "two_threads [] [] ([?c], None) ([?c], None) 0 2" 0 ?c "[]" "[[?m], [?m]]"] by (simp add: at)
  have 6: "?step (two_threads [] [] ([?c], Some 0) ([?c], None) 0 2) (two_threads [] [] ([?c], Some 0) ([?c], Some 0) 0 2)"
    using threads_step.read_counter [of "two_threads [] [] ([?c], Some 0) ([?c], None) 0 2" 1 ?c "[]" "[[?m], [?m]]"] by (simp add: at)
  have 7: "?step (two_threads [] [] ([?c], Some 0) ([?c], Some 0) 0 2) (two_threads [] [] ([], None) ([?c], Some 0) 1 2)"
    using threads_step.write_counter [of "two_threads [] [] ([?c], Some 0) ([?c], Some 0) 0 2" 0 ?c "[]" 0 "[[?m], [?m]]"] by (simp add: at)
  have 8: "?step (two_threads [] [] ([], None) ([?c], Some 0) 1 2) (two_threads [] [] ([], None) ([], None) 1 2)"
    using threads_step.write_counter [of "two_threads [] [] ([], None) ([?c], Some 0) 1 2" 1 ?c "[]" 0 "[[?m], [?m]]"] by (simp add: at)
  show ?thesis unfolding 0
    by (rule threads_reach.later [OF _ 8] threads_reach.later [OF _ 7] threads_reach.later [OF _ 6] threads_reach.later [OF _ 5]
      threads_reach.later [OF _ 4] threads_reach.later [OF _ 3] threads_reach.later [OF _ 2] threads_reach.later [OF _ 1]
      threads_reach.start)+
qed

theorem load_threads_count_witness:
  "\<exists>s. threads_reach [[tcp_metric], [tcp_metric]] (threads_init 2) s \<and> sent_by 0 s = [tcp_metric] \<and> sent_by 1 s = [tcp_metric] \<and>
     due CountTcp s = 2 \<and> counter_value CountTcp (thCounters s) = 1 \<and> 1 + int (still_to_make CountTcp s) \<le> 2"
proof -
  let ?s = "two_threads [] [] ([], None) ([], None) 1 2"
  have "due CountTcp ?s = 2" "counter_value CountTcp (thCounters ?s) = 1"
    by (simp_all add: two_threads_def due_def increments_def tcp_metric_def)
  moreover have "sent_by 0 ?s = [tcp_metric]" "sent_by 1 ?s = [tcp_metric]" by (simp_all add: two_threads_def sent_by_def)
  ultimately show ?thesis
    using load_threads_count [OF two_threads_lose, THEN conjunct2, THEN conjunct1, rule_format, of CountTcp] two_threads_lose by force
qed

end
