(* ===== verification/Load_Main.thy ===== *)
theory Load_Main
  imports Load_Test
begin

text \<open>
  The rest of \<open>extras/loadtest.go\<close>: what \<open>main\<close> does around its goroutines, the log of sent
  messages that \<open>log_compare.go\<close> reads, and how far that log can be trusted.
\<close>

subsection \<open>The log of sent messages\<close>

text \<open>What \<open>logSentMetric\<close> prints, as lines; \<open>logSent\<close> is the flag.\<close>

definition logSentMetric :: "bool \<Rightarrow> string \<Rightarrow> string list" where
  "logSentMetric logSent metric = (if logSent then [metric] else [])"

text \<open>Every branch of \<open>sendMetricToStats\<close> logs the message as soon as it has a connection and has
  made its write, before it looks at the result of the write.\<close>

definition had_connection :: "load_env \<Rightarrow> load_flags \<Rightarrow> load_metric \<Rightarrow> load_state \<Rightarrow> bool" where
  "had_connection env flags metric s =
     (let kind = connectionType metric; direct = dial_ok (envDirect env) (dials (ldDirect s))
      in if kind = ConnectionTypeTcp then direct ''tcp'' (host_addr (statsHost flags) (statsPortTcp flags))
         else if kind = ConnectionTypeTcpPool then snd (fst (GetConnection (envTcpPool env) (tcpPool s) (ldTcpNet s))) = None
         else if kind = ConnectionTypeUdp then direct ''udp'' (host_addr (statsHost flags) (statsPortUdp flags))
         else if kind = ConnectionTypeUnix then direct ''unix'' (statsSock flags)
         else if kind = ConnectionTypeUnixPool then snd (fst (GetConnection (envUnixPool env) (unixPool s) (ldUnixNet s))) = None
         else False)"

definition sent_log ::
  "load_env \<Rightarrow> load_flags \<Rightarrow> bool \<Rightarrow> (nat \<Rightarrow> nat) \<Rightarrow> load_metric \<Rightarrow> load_state \<Rightarrow> string list" where
  "sent_log env flags logSent intn metric s =
     (if had_connection env flags metric s then logSentMetric logSent (stringValue intn metric) else [])"

subsection \<open>The main loop\<close>

datatype ticker = FlushTick | FinishTick

text \<open>The loop over the tickers as they fire: the dots it prints, or \<open>None\<close> while it still runs.\<close>

fun run_loop :: "bool \<Rightarrow> ticker list \<Rightarrow> string option" where
  "run_loop logSent [] = None"
| "run_loop logSent (FlushTick # ticks) =
     map_option (\<lambda>out. (if \<not> logSent then ''-'' else []) @ out) (run_loop logSent ticks)"
| "run_loop logSent (FinishTick # ticks) = Some []"

text \<open>The pools and one store per thread, each started as a \<open>load_sys\<close> of its own.\<close>

definition load_setup ::
  "load_env \<Rightarrow> load_flags \<Rightarrow> int \<Rightarrow> (nat \<Rightarrow> random_source) \<Rightarrow> int \<Rightarrow> string \<Rightarrow> net \<Rightarrow> (load_state \<times> load_metric list list) outcome" where
  "load_setup env flags concurrency rand numMetrics token n =
     (case load_start env flags n of
        Done st \<Rightarrow> Done (st, map (\<lambda>i. generateMetricNames flags (rand i) numMetrics [] (token_prefix token)) [0..<nat concurrency])
      | Panicked p \<Rightarrow> Panicked p
      | Hung \<Rightarrow> Hung)"

text \<open>From the flush and finish ticks to the report.\<close>

definition load_finish :: "bool \<Rightarrow> ticker list \<Rightarrow> duration \<Rightarrow> counters \<Rightarrow>
    (string \<times> (string \<times> int \<times> int \<times> int \<times> f64) list option) option" where
  "load_finish logSent ticks totalTime c =
     map_option (\<lambda>dots. (dots, print_report totalTime (report_lines c))) (run_loop logSent ticks)"

subsection \<open>What they do\<close>

lemma run_loop_ends:
  "run_loop logSent ticks =
     (if FinishTick \<in> set ticks
      then Some (if logSent then [] else replicate (length (takeWhile (\<lambda>t. t = FlushTick) ticks)) (CHR ''-''))
      else None)"
proof (induction ticks)
  case (Cons t ticks)
  then show ?case by (cases t) auto
qed simp

lemma sent_log_False: "sent_log env flags False intn m s = []"
  by (simp add: sent_log_def logSentMetric_def)

lemma pool_write_had:
  "pool_write env msg pool n = Done (r, pool', n') \<Longrightarrow>
    (r = NoConnection \<longleftrightarrow> snd (fst (GetConnection env pool n)) \<noteq> None) \<and>
    ((\<forall>k. write_fails env k = None) \<longrightarrow> r \<noteq> WriteFailed)"
proof -
  assume w: "pool_write env msg pool n = Done (r, pool', n')"
  obtain c err pool1 n1 where g: "GetConnection env pool n = ((c, err), pool1, n1)" by (cases "GetConnection env pool n") auto
  show ?thesis
  proof (cases err)
    case None
    then show ?thesis
      using w g by (cases c) (auto simp: pool_write_def Let_def split: option.splits outcome.splits prod.splits)
  next
    case (Some e)
    then show ?thesis using w g by (auto simp: pool_write_def)
  qed
qed

text \<open>
  Fact.  The log of the load test is exact as long as no write over a pool fails: a message is
  logged exactly when its send did not count an error.  In general only one half holds: a message
  whose send counted no error is logged.
\<close>
theorem load_log_exact:
  assumes "sendMetricToStats env flags intn m s = Done s'" "load_ok s" "known_kind m"
  shows "(totalError (ldCounters s') = totalError (ldCounters s) \<longrightarrow> sent_log env flags True intn m s = [stringValue intn m]) \<and>
    ((\<forall>k. write_fails (envTcpPool env) k = None \<and> write_fails (envUnixPool env) k = None) \<longrightarrow>
      sent_log env flags True intn m s = (if totalError (ldCounters s') = totalError (ldCounters s) then [stringValue intn m] else []))"
proof -
  note direct = dial_and_write_ok [of "envDirect env"]
  obtain r pool n where tcp: "pool_write (envTcpPool env) (stringValue intn m @ newline_text) (tcpPool s) (ldTcpNet s) =
      Done (r, pool, n)"
    using pool_write_ok [of "tcpPool s" "ldTcpNet s" "envTcpPool env"] assms(2) by (auto simp: load_ok_def) blast
  obtain r' pool' n' where unix: "pool_write (envUnixPool env) (stringValue intn m @ newline_text) (unixPool s) (ldUnixNet s) =
      Done (r', pool', n')"
    using pool_write_ok [of "unixPool s" "ldUnixNet s" "envUnixPool env"] assms(2) by (auto simp: load_ok_def) blast
  obtain n1 where d1: "dial_and_write (envDirect env) ''tcp'' (host_addr (statsHost flags) (statsPortTcp flags))
      (stringValue intn m @ newline_text) (ldDirect s) =
      Done (dial_ok (envDirect env) (dials (ldDirect s)) ''tcp'' (host_addr (statsHost flags) (statsPortTcp flags)), n1)"
    using direct by blast
  obtain n2 where d2: "dial_and_write (envDirect env) ''udp'' (host_addr (statsHost flags) (statsPortUdp flags))
      (stringValue intn m) (ldDirect s) =
      Done (dial_ok (envDirect env) (dials (ldDirect s)) ''udp'' (host_addr (statsHost flags) (statsPortUdp flags)), n2)"
    using direct by blast
  obtain n3 where d3: "dial_and_write (envDirect env) ''unix'' (statsSock flags) (stringValue intn m) (ldDirect s) =
      Done (dial_ok (envDirect env) (dials (ldDirect s)) ''unix'' (statsSock flags), n3)"
    using direct by blast
  note defs = sendMetricToStats_def sent_log_def had_connection_def logSentMetric_def Let_def connection_types
    totalCount_def totalError_def
  show ?thesis
    using assms(3) unfolding known_kind_cases
  proof (elim insertE emptyE)
    assume "connectionType m = ConnectionTypeTcp"
    then show ?thesis using assms(1) d1 by (simp add: defs) auto
  next
    assume "connectionType m = ConnectionTypeTcpPool"
    then show ?thesis using assms(1) tcp pool_write_had [OF tcp] by (cases r; simp add: defs) auto
  next
    assume "connectionType m = ConnectionTypeUdp"
    then show ?thesis using assms(1) d2 by (simp add: defs) auto
  next
    assume "connectionType m = ConnectionTypeUnix"
    then show ?thesis using assms(1) d3 by (simp add: defs) auto
  next
    assume "connectionType m = ConnectionTypeUnixPool"
    then show ?thesis using assms(1) unix pool_write_had [OF unix] by (cases r'; simp add: defs) auto
  qed
qed

definition pooled_metric :: load_metric where
  "pooled_metric = \<lparr>loadKey = ''statsgod.test.x'', loadType = ''c'', loadValue = 0, connectionType = ConnectionTypeTcpPool\<rparr>"

definition pooled_state :: load_state where
  "pooled_state = \<lparr>ldCounters = no_counts, ldDirect = new_net, tcpPool = one_conn, ldTcpNet = new_net\<lparr>dials := 1\<rparr>,
     unixPool = one_conn, ldUnixNet = new_net\<lparr>dials := 1\<rparr>\<rparr>"

lemma pooled_state_ok: "load_ok pooled_state" "known_kind pooled_metric"
  using one_conn_wf by (simp_all add: load_ok_def pooled_state_def known_kind_def pooled_metric_def connection_types)

theorem load_log_exact_witness:
  "\<exists>s'. sendMetricToStats \<lparr>envDirect = steady, envTcpPool = steady, envUnixPool = steady\<rparr> demo_flags (\<lambda>_. 0)
      pooled_metric pooled_state = Done s' \<and>
    totalError (ldCounters s') = 0 \<and>
    sent_log \<lparr>envDirect = steady, envTcpPool = steady, envUnixPool = steady\<rparr> demo_flags True (\<lambda>_. 0) pooled_metric pooled_state =
      [stringValue (\<lambda>_. 0) pooled_metric]"
proof -
  let ?env = "\<lparr>envDirect = steady, envTcpPool = steady, envUnixPool = steady\<rparr>"
  obtain s' where s': "sendMetricToStats ?env demo_flags (\<lambda>_. 0) pooled_metric pooled_state = Done s'"
    using send_counts [OF pooled_state_ok(1)] by blast
  then have "totalError (ldCounters s') = 0" "totalError (ldCounters pooled_state) = 0"
    by (auto simp: sendMetricToStats_def pool_write_def GetConnection_def ReleaseConnection_def pooled_metric_def
        pooled_state_def connection_types steady_def one_conn_def new_net_def chan_recv_def chan_send_def
        totalError_def no_counts_def Let_def)
  then show ?thesis using load_log_exact [OF s' pooled_state_ok, THEN conjunct1] s' by auto
qed

text \<open>The other half fails: a write that breaks is counted as an error, and logged as sent.\<close>

definition breaking :: net_env where
  "breaking = \<lparr>dial_ok = \<lambda>_ _ _. True, write_fails = \<lambda>_. Some 0, timer_first = \<lambda>_. False\<rparr>"

lemma load_log_overstates:
  "\<exists>s'. sendMetricToStats \<lparr>envDirect = steady, envTcpPool = breaking, envUnixPool = steady\<rparr> demo_flags (\<lambda>_. 0)
      pooled_metric pooled_state = Done s' \<and> totalError (ldCounters s') = 1 \<and>
    sent_log \<lparr>envDirect = steady, envTcpPool = breaking, envUnixPool = steady\<rparr> demo_flags True (\<lambda>_. 0) pooled_metric
      pooled_state = [stringValue (\<lambda>_. 0) pooled_metric]"
  by (simp add: sendMetricToStats_def sent_log_def had_connection_def logSentMetric_def pool_write_def GetConnection_def
      ReleaseConnection_def CreateConnection_def pooled_metric_def pooled_state_def connection_types breaking_def
      one_conn_def new_net_def chan_recv_def chan_send_def conn_type_def totalError_def no_counts_def Let_def)

end
