(* ===== verification/Log_Compare.thy ===== *)
theory Log_Compare
  imports Metric_Parse
begin

text \<open>
  The comparison of what a load test sent with what the daemon received:
  \<open>extras/log_compare.go\<close>.  The two patterns are regular expressions of Go's \<open>regexp\<close>, which
  prefers the leftmost choice as Perl does; here they are run by a matcher that lists all ways to
  match in that order.  What \<open>regexp\<close> makes of the token of the command line, which is spliced
  into the pattern as it is, is the argument \<open>compile\<close> (\<open>None\<close> when the pattern does not compile).
\<close>

subsection \<open>Regular expressions\<close>

text \<open>\<open>Many p\<close> is the greedy \<open>[p]*\<close>, \<open>Group\<close> a capturing group.\<close>

datatype re =
    Eps
  | Atom "char \<Rightarrow> bool"
  | Alt re re
  | Conc re re
  | Many "char \<Rightarrow> bool"
  | Group re

fun many_rests :: "(char \<Rightarrow> bool) \<Rightarrow> string \<Rightarrow> string list" where
  "many_rests p [] = [[]]"
| "many_rests p (c # cs) = (if p c then many_rests p cs @ [c # cs] else [c # cs])"

text \<open>The ways to match a prefix, best first: the captured groups and what is left.\<close>

fun ways :: "re \<Rightarrow> string \<Rightarrow> (string list \<times> string) list" where
  "ways Eps s = [([], s)]"
| "ways (Atom p) s = (case s of [] \<Rightarrow> [] | c # cs \<Rightarrow> if p c then [([], cs)] else [])"
| "ways (Alt r q) s = ways r s @ ways q s"
| "ways (Conc r q) s = concat (map (\<lambda>(gs, t). map (\<lambda>(hs, u). (gs @ hs, u)) (ways q t)) (ways r s))"
| "ways (Many p) s = map (\<lambda>t. ([], t)) (many_rests p s)"
| "ways (Group r) s = map (\<lambda>(gs, t). (take (length s - length t) s # gs, t)) (ways r s)"

text \<open>A pattern between \<open>^\<close> and \<open>$\<close>.\<close>

definition full_match :: "re \<Rightarrow> string \<Rightarrow> string list option" where
  "full_match r s = map_option fst (find (\<lambda>w. snd w = []) (ways r s))"

definition Lit :: "string \<Rightarrow> re" where
  "Lit w = foldr (\<lambda>c r. Conc (Atom (\<lambda>d. d = c)) r) w Eps"

definition Some_of :: "(char \<Rightarrow> bool) \<Rightarrow> re" where
  "Some_of p = Conc (Atom p) (Many p)"

fun Seq :: "re list \<Rightarrow> re" where
  "Seq [] = Eps"
| "Seq (r # rs) = Conc r (Seq rs)"

text \<open>The classes \<open>\s\<close>, \<open>.\<close>, \<open>[0-9\.]\<close> and \<open>[\s|\[]\<close>.\<close>

definition is_space :: "char \<Rightarrow> bool" where
  "is_space c \<longleftrightarrow> c \<in> {CHR '' '', CHR 0x09, CHR 0x0A, CHR 0x0C, CHR 0x0D}"

definition any_char :: "char \<Rightarrow> bool" where
  "any_char c \<longleftrightarrow> c \<noteq> CHR 0x0A"

definition number_char :: "char \<Rightarrow> bool" where
  "number_char c \<longleftrightarrow> is_digit c \<or> c = CHR ''.''"

definition opener :: "char \<Rightarrow> bool" where
  "opener c \<longleftrightarrow> is_space c \<or> c = CHR ''|'' \<or> c = CHR ''[''"

definition non_space :: re where
  "non_space = Some_of (\<lambda>c. \<not> is_space c)"

subsection \<open>The two patterns\<close>

definition input_regex :: "re \<Rightarrow> re" where
  "input_regex tokenRe =
     Seq [tokenRe, non_space, Lit '':'', Some_of number_char, Lit ''|'',
       Group (Alt (Lit ''c'') (Alt (Lit ''g'') (Alt (Lit ''s'') (Lit ''ms'')))), Many any_char]"

definition output_regex :: re where
  "output_regex =
     Seq [Many any_char, Lit ''Metric: {'', Group non_space, Atom is_space, Group non_space, Atom is_space,
       Many any_char, Atom opener, Group (Some_of number_char), Lit '']'', Many any_char]"

text \<open>\<open>strings.Replace(line, old, "", 1)\<close> drops the first occurrence of a string.\<close>

fun drop_first :: "string \<Rightarrow> string \<Rightarrow> string" where
  "drop_first old [] = []"
| "drop_first old (c # cs) =
     (if take (length old) (c # cs) = old then drop (length old) (c # cs) else c # drop_first old cs)"

text \<open>
  What a line of the input counts as: the sent message without the token.  The token is compiled on
  its own and put into the pattern as one unit, which is what the code's splicing of strings means
  for every token but one with a bar outside brackets or with an unclosed bracket.
\<close>

definition input_key :: "(string \<Rightarrow> re option) \<Rightarrow> string \<Rightarrow> string \<Rightarrow> string option" where
  "input_key compile token line =
     (case if token \<noteq> [] then map_option (\<lambda>r. Conc r (Lit ''.'')) (compile token) else Some Eps of
        None \<Rightarrow> None
      | Some tokenRe \<Rightarrow>
          if full_match (input_regex tokenRe) line \<noteq> None
          then Some (if token \<noteq> [] then drop_first (token @ ''.'') line else line) else None)"

definition type_of_code :: "string \<Rightarrow> string" where
  "type_of_code code =
     (if code = ''0'' then ''c'' else if code = ''1'' then ''g''
      else if code = ''2'' then ''s'' else if code = ''3'' then ''ms'' else [])"

text \<open>What a line of the output counts as: the message rebuilt from the printed metric.\<close>

definition output_key :: "string \<Rightarrow> string option" where
  "output_key line =
     (case full_match output_regex line of
        Some [key, code, val] \<Rightarrow> Some (key @ '':'' @ val @ ''|'' @ type_of_code code)
      | _ \<Rightarrow> None)"

subsection \<open>Counting\<close>

type_synonym counts = "string \<rightharpoonup> int"

text \<open>Reading an absent key of a Go map gives 0.\<close>

definition count_of :: "counts \<Rightarrow> string \<Rightarrow> int" where
  "count_of m k = (case m k of Some n \<Rightarrow> n | None \<Rightarrow> 0)"

definition count_line :: "string option \<Rightarrow> counts \<times> int \<Rightarrow> counts \<times> int" where
  "count_line found st =
     (case found of
        None \<Rightarrow> st
      | Some k \<Rightarrow> (case st of (m, len) \<Rightarrow>
          (if count_of m k = 0 then m(k \<mapsto> 1) else m(k \<mapsto> count_of m k + 1), len + 1)))"

text \<open>Both files are read line by line at once; the shorter one just ends.\<close>

fun count_lines ::
  "(string \<Rightarrow> string option) \<Rightarrow> (string \<Rightarrow> string option) \<Rightarrow> string list \<Rightarrow> string list \<Rightarrow>
   (counts \<times> int) \<times> (counts \<times> int) \<Rightarrow> (counts \<times> int) \<times> (counts \<times> int)" where
  "count_lines fi fo [] [] st = st"
| "count_lines fi fo (i # is) [] (a, b) = count_lines fi fo is [] (count_line (fi i) a, b)"
| "count_lines fi fo [] (l # ls) (a, b) = count_lines fi fo [] ls (a, count_line (fo l) b)"
| "count_lines fi fo (i # is) (l # ls) (a, b) = count_lines fi fo is ls (count_line (fi i) a, count_line (fo l) b)"

text \<open>The loop over the input counts, in whatever order Go ranges over the map.\<close>

record comparison =
  inputStrings :: counts
  outputStrings :: counts
  matchCount :: int
  errorCount :: int

definition compare_step :: "string \<Rightarrow> comparison \<Rightarrow> comparison" where
  "compare_step k c =
     (if count_of (inputStrings c) k = count_of (outputStrings c) k
      then c\<lparr>matchCount := matchCount c + 1, inputStrings := (inputStrings c)(k := None),
             outputStrings := (outputStrings c)(k := None)\<rparr>
      else c\<lparr>errorCount := errorCount c + 1\<rparr>)"

definition log_compare ::
  "(string \<Rightarrow> re option) \<Rightarrow> string \<Rightarrow> (counts \<Rightarrow> string list) \<Rightarrow> string option \<Rightarrow> string option \<Rightarrow>
   (int \<times> int \<times> comparison) option" where
  "log_compare compile token order inputFile outputFile =
     (case (inputFile, outputFile) of
        (Some inputString, Some outputString) \<Rightarrow>
          (case count_lines (input_key compile token) output_key
                  (split_on (CHR 0x0A) inputString) (split_on (CHR 0x0A) outputString)
                  ((Map.empty, 0), (Map.empty, 0)) of
             ((inputs, inputStringsLen), (outputs, outputStringsLen)) \<Rightarrow>
               Some (inputStringsLen, outputStringsLen,
                 fold compare_step (order inputs)
                   \<lparr>inputStrings = inputs, outputStrings = outputs, matchCount = 0, errorCount = 0\<rparr>))
      | _ \<Rightarrow> None)"

subsection \<open>The matcher against the meaning of the patterns\<close>

text \<open>\<open>matches r gs u\<close>: the pattern can match the whole of \<open>u\<close> with the groups \<open>gs\<close>.\<close>

inductive matches :: "re \<Rightarrow> string list \<Rightarrow> string \<Rightarrow> bool" where
  eps: "matches Eps [] []"
| atom: "p c \<Longrightarrow> matches (Atom p) [] [c]"
| alt_left: "matches r gs u \<Longrightarrow> matches (Alt r q) gs u"
| alt_right: "matches q gs u \<Longrightarrow> matches (Alt r q) gs u"
| conc: "matches r gs u \<Longrightarrow> matches q hs v \<Longrightarrow> matches (Conc r q) (gs @ hs) (u @ v)"
| many: "list_all p u \<Longrightarrow> matches (Many p) [] u"
| group: "matches r gs u \<Longrightarrow> matches (Group r) (u # gs) u"

inductive_simps matches_simps [simp]:
  "matches Eps gs u" "matches (Atom p) gs u" "matches (Alt r q) gs u" "matches (Many p) gs u" "matches (Group r) gs u"

inductive_simps matches_Conc: "matches (Conc r q) gs u"

lemma many_rests_iff: "t \<in> set (many_rests p s) \<longleftrightarrow> (\<exists>u. s = u @ t \<and> list_all p u)"
proof (induction s)
  case (Cons c s)
  then show ?case by (auto simp: Cons_eq_append_conv) 
qed auto

lemma ways_iff: "(gs, t) \<in> set (ways r s) \<longleftrightarrow> (\<exists>u. s = u @ t \<and> matches r gs u)"
proof (induction r arbitrary: gs s t)
  case (Atom p)
  show ?case by (cases s) (auto simp: Cons_eq_append_conv)
next
  case (Conc r q)
  have "(gs, t) \<in> set (ways (Conc r q) s) \<longleftrightarrow>
      (\<exists>ga ta gb. (ga, ta) \<in> set (ways r s) \<and> (gb, t) \<in> set (ways q ta) \<and> gs = ga @ gb)"
  proof
    assume "\<exists>ga ta gb. (ga, ta) \<in> set (ways r s) \<and> (gb, t) \<in> set (ways q ta) \<and> gs = ga @ gb"
    then obtain ga ta gb where "(ga, ta) \<in> set (ways r s)" "(gb, t) \<in> set (ways q ta)" "gs = ga @ gb" by blast
    then show "(gs, t) \<in> set (ways (Conc r q) s)"
      by (auto intro!: bexI [of _ "(ga, ta)"] image_eqI [of _ _ "(gb, t)"])
  next
    assume "(gs, t) \<in> set (ways (Conc r q) s)"
    then obtain w x where "w \<in> set (ways r s)" "x \<in> set (ways q (snd w))" "gs = fst w @ fst x" "t = snd x"
      by (auto simp: split_beta)
    then show "\<exists>ga ta gb. (ga, ta) \<in> set (ways r s) \<and> (gb, t) \<in> set (ways q ta) \<and> gs = ga @ gb"
      by (metis prod.collapse)
  qed
  also have "\<dots> \<longleftrightarrow> (\<exists>ga ta gb u v. s = u @ ta \<and> ta = v @ t \<and> matches r ga u \<and> matches q gb v \<and> gs = ga @ gb)"
    unfolding Conc.IH by blast
  also have "\<dots> \<longleftrightarrow> (\<exists>u. s = u @ t \<and> matches (Conc r q) gs u)"
  proof (intro iffI; elim exE conjE)
    fix ga ta gb u v
    assume "s = u @ ta" "ta = v @ t" "matches r ga u" "matches q gb v" "gs = ga @ gb"
    then have "s = (u @ v) @ t" "matches (Conc r q) gs (u @ v)" by (auto intro: matches.conc)
    then show "\<exists>u. s = u @ t \<and> matches (Conc r q) gs u" by blast
  next
    fix u
    assume "s = u @ t" "matches (Conc r q) gs u"
    then obtain ga u1 gb v1 where "gs = ga @ gb" "s = u1 @ v1 @ t" "matches r ga u1" "matches q gb v1"
      by (auto simp: matches_Conc)
    then show "\<exists>ga ta gb u v. s = u @ ta \<and> ta = v @ t \<and> matches r ga u \<and> matches q gb v \<and> gs = ga @ gb" by blast
  qed
  finally show ?case .
next
  case (Group r)
  show ?case by (auto simp: Group.IH image_iff Bex_def) 
qed (auto simp: many_rests_iff image_iff)

lemma full_match_iff: "full_match r s \<noteq> None \<longleftrightarrow> (\<exists>gs. matches r gs s)"
proof -
  have "full_match r s = None \<longleftrightarrow> (\<forall>w \<in> set (ways r s). snd w \<noteq> [])"
    by (auto simp: full_match_def find_None_iff)
  also have "\<dots> \<longleftrightarrow> (\<nexists>gs. (gs, []) \<in> set (ways r s))" by auto
  finally show ?thesis by (auto simp: ways_iff)
qed

lemma full_match_sound: "full_match r s = Some gs \<Longrightarrow> matches r gs s"
proof -
  assume "full_match r s = Some gs"
  then obtain w where "find (\<lambda>w. snd w = []) (ways r s) = Some w" "fst w = gs" by (auto simp: full_match_def)
  then have "(gs, []) \<in> set (ways r s)" by (auto simp: find_Some_iff) (metis nth_mem prod.collapse)
  then show ?thesis by (simp add: ways_iff)
qed

lemma full_match_unique:
  "matches r gs s \<Longrightarrow> (\<And>gs'. matches r gs' s \<Longrightarrow> gs' = gs) \<Longrightarrow> full_match r s = Some gs"
  using full_match_iff [of r s] full_match_sound [of r s] by (cases "full_match r s") auto

lemma matches_Lit [simp]: "matches (Lit w) gs u \<longleftrightarrow> gs = [] \<and> u = w"
  by (induction w arbitrary: gs u) (auto simp: Lit_def matches_Conc)

lemma matches_Some_of [simp]: "matches (Some_of p) gs u \<longleftrightarrow> gs = [] \<and> u \<noteq> [] \<and> list_all p u"
proof (cases u)
  case (Cons c v)
  have "matches (Some_of p) gs u \<longleftrightarrow> (\<exists>d w. gs = [] \<and> u = [d] @ w \<and> p d \<and> list_all p w)"
    unfolding Some_of_def matches_Conc matches_simps by (metis append_Nil)
  then show ?thesis using Cons by auto
qed (auto simp: Some_of_def matches_Conc)

text \<open>Sequences one item at a time.\<close>

lemma matches_Conc_plain:
  assumes "\<And>gs u. matches r gs u \<longleftrightarrow> gs = [] \<and> P u"
  shows "matches (Conc r q) gs u \<longleftrightarrow> (\<exists>a b. u = a @ b \<and> P a \<and> matches q gs b)"
  unfolding matches_Conc assms by (metis append_Nil)

lemma seq_empty: "matches (Seq []) gs u \<longleftrightarrow> gs = [] \<and> u = []"
  by simp

lemma seq_literal: "matches (Seq (Lit w # rs)) gs u \<longleftrightarrow> (\<exists>b. u = w @ b \<and> matches (Seq rs) gs b)"
  using matches_Conc_plain [of "Lit w" "\<lambda>u. u = w" "Seq rs" gs u] by simp

lemma seq_atom: "matches (Seq (Atom p # rs)) gs u \<longleftrightarrow> (\<exists>c b. u = c # b \<and> p c \<and> matches (Seq rs) gs b)"
  unfolding Seq.simps matches_Conc matches_simps by (metis append_Cons append_Nil)

lemma seq_many: "matches (Seq (Many p # rs)) gs u \<longleftrightarrow> (\<exists>a b. u = a @ b \<and> list_all p a \<and> matches (Seq rs) gs b)"
  using matches_Conc_plain [of "Many p" "list_all p" "Seq rs" gs u] by simp

lemma seq_group:
  "matches (Seq (Group (Some_of p) # rs)) gs u \<longleftrightarrow>
     (\<exists>a b hs. u = a @ b \<and> gs = a # hs \<and> a \<noteq> [] \<and> list_all p a \<and> matches (Seq rs) hs b)"
  unfolding Seq.simps matches_Conc matches_simps matches_Some_of by (metis append_Cons append_Nil)

lemmas seq_simps = seq_empty seq_literal seq_atom seq_many seq_group

subsection \<open>Recognising what was sent\<close>

definition sent_message :: "string \<Rightarrow> string \<Rightarrow> string \<Rightarrow> string" where
  "sent_message key val typ = key @ '':'' @ val @ ''|'' @ typ"

text \<open>The fields of the messages that the test programs make.\<close>

definition sent_fields :: "string \<Rightarrow> string \<Rightarrow> string \<Rightarrow> bool" where
  "sent_fields key val typ \<longleftrightarrow> key \<noteq> [] \<and> list_all (\<lambda>c. \<not> is_space c) key \<and>
     val \<noteq> [] \<and> list_all number_char val \<and> typ \<in> {''c'', ''g'', ''s'', ''ms''}"

lemma matches_input:
  assumes "sent_fields key val typ" "matches tokenRe [] tok"
  shows "\<exists>gs. matches (input_regex tokenRe) gs (tok @ sent_message key val typ)"
proof -
  have "matches (Group (Alt (Lit ''c'') (Alt (Lit ''g'') (Alt (Lit ''s'') (Lit ''ms''))))) [typ] typ"
    using assms(1) by (auto simp: sent_fields_def)
  moreover have "matches non_space [] key" "matches (Some_of number_char) [] val"
    using assms(1) by (auto simp: sent_fields_def non_space_def)
  ultimately have "matches (input_regex tokenRe) ([] @ [] @ [] @ [] @ [] @ [typ] @ [] @ [])
      (tok @ key @ '':'' @ val @ ''|'' @ typ @ [] @ [])"
    unfolding input_regex_def Seq.simps by (intro matches.conc assms(2)) simp_all
  then show ?thesis by (auto simp: sent_message_def)
qed

lemma drop_first_prefix: "old \<noteq> [] \<Longrightarrow> drop_first old (old @ s) = s"
  by (cases old) auto

text \<open>
  Fact.  A sent message counts as itself: without a token every message that the load test
  logs is recognised as it is; with a token that the pattern takes literally, a logged message
  is recognised and the token is dropped.
\<close>
theorem input_key_sent:
  assumes "sent_fields key val typ"
  shows "input_key compile [] (sent_message key val typ) = Some (sent_message key val typ) \<and>
    (token = [] \<or> compile token \<noteq> Some (Lit token) \<or>
     input_key compile token (token @ ''.'' @ sent_message key val typ) = Some (sent_message key val typ))"
proof -
  have a: "full_match (input_regex Eps) (sent_message key val typ) \<noteq> None"
    using matches_input [OF assms, of Eps "[]"] full_match_iff by simp
  have "matches (Conc (Lit token) (Lit ''.'')) [] (token @ ''.'')" by (simp add: matches_Conc)
  then have b: "full_match (input_regex (Conc (Lit token) (Lit ''.''))) (token @ ''.'' @ sent_message key val typ) \<noteq> None"
    using matches_input [OF assms, of "Conc (Lit token) (Lit ''.'')" "token @ ''.''"] full_match_iff by simp
  have "drop_first (token @ ''.'') (token @ ''.'' @ sent_message key val typ) = sent_message key val typ"
    using drop_first_prefix [of "token @ ''.''"] by simp
  then show ?thesis using a b by (auto simp: input_key_def)
qed

theorem input_key_sent_witness:
  "input_key (\<lambda>w. Some (Lit w)) ''tok'' ''tok.a.b:12|ms'' = Some ''a.b:12|ms''"
proof -
  have f: "sent_fields ''a.b'' ''12'' ''ms''"
    by (simp add: sent_fields_def is_space_def number_char_def is_digit_def)
  from input_key_sent [OF f, where token = "''tok''" and compile = "\<lambda>w. Some (Lit w)"] show ?thesis
    by (simp add: sent_message_def)
qed

subsection \<open>Recognising what was received\<close>

text \<open>
  A metric as \<open>%v\<close> prints it into the log of the relay goroutine when receipts are on;
  \<open>showf\<close> is how \<open>fmt\<close> prints a float.
\<close>

definition show_list :: "string list \<Rightarrow> string" where
  "show_list ws = ''['' @ join (CHR '' '') ws @ '']''"

definition show_quantile :: "(f64 \<Rightarrow> string) \<Rightarrow> MetricQuantile \<Rightarrow> string" where
  "show_quantile showf q =
     ''{'' @ join (CHR '' '') [itoa (qQuantile q), showf (qBoundary q), show_list (map showf (qAllValues q)),
       showf (qMean q), showf (qMedian q), showf (qMax q), showf (qSum q)] @ ''}''"

definition receipt :: "(f64 \<Rightarrow> string) \<Rightarrow> Metric \<Rightarrow> string" where
  "receipt showf m =
     ''Metric: {'' @ join (CHR '' '') [Key m, itoa (MetricType m), showf (TotalHits m), showf (LastValue m),
       showf (ValuesPerSecond m), showf (MinValue m), showf (MaxValue m), showf (MeanValue m), showf (MedianValue m),
       show_list (map (show_quantile showf) (Quantiles m)), show_list (map showf (AllValues m)),
       itoa (FlushTime m), itoa (LastFlushed m), showf (SampleRate m)] @ ''}''"

text \<open>Two ways to cut a string at the end of a run are the same.\<close>

lemma run_unique:
  "k @ w # r = k' @ w' # r' \<Longrightarrow> list_all P k \<Longrightarrow> list_all P k' \<Longrightarrow> \<not> P w \<Longrightarrow> \<not> P w' \<Longrightarrow> k = k' \<and> w = w' \<and> r = r'"
proof (induction k arbitrary: k')
  case Nil
  then show ?case by (cases k') auto
next
  case (Cons c k)
  then show ?case by (cases k') auto
qed

lemma run_unique_end:
  assumes "b @ w # v = b' @ w' # v'" "list_all P v" "list_all P v'" "\<not> P w" "\<not> P w'"
  shows "v = v'"
proof -
  have "rev v @ w # rev b = rev v' @ w' # rev b'"
    using arg_cong [OF assms(1), of rev] by simp
  then show ?thesis using run_unique [of "rev v" w "rev b" "rev v'" w' "rev b'" P] assms by simp
qed

lemma cut_at_two:
  assumes "X @ x # c = A @ x # B @ x # D" "x \<notin> set A" "x \<notin> set B" "x \<notin> set D"
  shows "X = A \<or> X = A @ x # B"
proof (cases "x \<in> set X")
  case False
  have "list_all (\<lambda>y. y \<noteq> x) X" "list_all (\<lambda>y. y \<noteq> x) A" using False assms(2) by (auto simp: list_all_iff)
  then show ?thesis using run_unique [OF assms(1), of "\<lambda>y. y \<noteq> x"] by simp
next
  case True
  then obtain X1 X2 where X: "X = X1 @ x # X2" "x \<notin> set X1" by (meson split_list_first)
  have "list_all (\<lambda>y. y \<noteq> x) X1" "list_all (\<lambda>y. y \<noteq> x) A" using X assms(2) by (auto simp: list_all_iff)
  then have 1: "X1 = A" "X2 @ x # c = B @ x # D"
    using run_unique [of X1 x "X2 @ x # c" A x "B @ x # D" "\<lambda>y. y \<noteq> x"] assms(1) X by auto
  have "B = X2" using 1(2) assms(3,4) append_Cons_eq_iff [of x B D X2 c] by simp
  then show ?thesis using X 1 by simp
qed

lemma join_snoc: "join d (xs @ [x]) = (if xs = [] then x else join d xs @ d # x)"
  by (induction d xs rule: join.induct) auto

text \<open>Characters that a printed number does not have.\<close>

definition inner_char :: "char \<Rightarrow> bool" where
  "inner_char c \<longleftrightarrow> c \<noteq> CHR 0x0A \<and> c \<noteq> CHR '']'' \<and> c \<noteq> CHR ''{''"

lemma inner_char_simps [simp]:
  "inner_char (CHR '' '')" "inner_char (CHR ''['')" "inner_char (CHR ''}'')" "inner_char (CHR ''-'')"
  "is_digit c \<Longrightarrow> inner_char c"
  by (auto simp: inner_char_def is_digit_def)

lemma itoa_inner [simp]: "list_all inner_char (itoa i)"
  using nat_digits_all by (auto simp: itoa_def list_all_iff)

lemma join_inner: "list_all (list_all inner_char) ws \<Longrightarrow> list_all inner_char (join (CHR '' '') ws)"
  by (induction "CHR '' ''" ws rule: join.induct) auto

text \<open>The parts of a receipt, around its last value.\<close>

lemma receipt_parts:
  assumes "\<And>x. list_all inner_char (showf x)" "Quantiles m = []" "AllValues m = vs @ [v]"
  obtains A V w D where
    "receipt showf m = ''Metric: {'' @ Key m @ CHR '' '' # itoa (MetricType m) @ CHR '' '' #
       A @ CHR '']'' # V @ w # showf v @ CHR '']'' # D"
    "list_all inner_char A" "last A = CHR ''[''" "A \<noteq> []" "list_all inner_char V" "list_all inner_char D"
    "w = CHR ''['' \<or> w = CHR '' ''"
proof -
  define A where "A = join (CHR '' '') [showf (TotalHits m), showf (LastValue m), showf (ValuesPerSecond m),
    showf (MinValue m), showf (MaxValue m), showf (MeanValue m), showf (MedianValue m), ''['']"
  define V where "V = (if vs = [] then '' '' else '' ['' @ join (CHR '' '') (map showf vs))"
  define D where "D = '' '' @ join (CHR '' '') [itoa (FlushTime m), itoa (LastFlushed m), showf (SampleRate m)] @ ''}''"
  have "receipt showf m = ''Metric: {'' @ Key m @ CHR '' '' # itoa (MetricType m) @ CHR '' '' #
       A @ CHR '']'' # V @ (if vs = [] then CHR ''['' else CHR '' '') # showf v @ CHR '']'' # D"
    by (simp add: receipt_def A_def V_def D_def show_list_def assms(2,3) join_snoc)
  moreover have "list_all inner_char A" "list_all inner_char V" "list_all inner_char D"
    using assms(1) by (simp_all add: A_def V_def D_def join_inner list.pred_map o_def list.pred_True)
  moreover have "last A = CHR ''[''" "A \<noteq> []" by (simp_all add: A_def)
  ultimately show ?thesis by (intro that [of A V _ D]) (assumption | simp)+
qed

lemma matches_output:
  "matches output_regex gs L \<longleftrightarrow>
    (\<exists>a k w1 ty w2 b w3 v c. L = a @ ''Metric: {'' @ k @ w1 # ty @ w2 # b @ w3 # v @ CHR '']'' # c \<and> gs = [k, ty, v] \<and>
      list_all any_char a \<and> k \<noteq> [] \<and> list_all (\<lambda>c. \<not> is_space c) k \<and> is_space w1 \<and>
      ty \<noteq> [] \<and> list_all (\<lambda>c. \<not> is_space c) ty \<and> is_space w2 \<and> list_all any_char b \<and> opener w3 \<and>
      v \<noteq> [] \<and> list_all number_char v \<and> list_all any_char c)"
    (is "_ \<longleftrightarrow> ?parts")
proof
  assume "matches output_regex gs L"
  then show ?parts
    unfolding output_regex_def non_space_def seq_simps
    apply (elim exE conjE)
    apply hypsubst
    apply (simp only: append_Cons append_Nil append_Nil2)
    apply (intro exI conjI)
    apply (rule refl)
    apply (rule refl)
    apply assumption+
    done
next
  assume ?parts
  then obtain a k w1 ty w2 b w3 v c where
    L: "L = a @ ''Metric: {'' @ k @ [w1] @ ty @ [w2] @ b @ [w3] @ v @ '']'' @ c @ []"
      "gs = [] @ [] @ [k] @ [] @ [ty] @ [] @ [] @ [] @ [v] @ [] @ [] @ []" and
    m: "matches (Many any_char) [] a" "matches (Group non_space) [k] k" "matches (Atom is_space) [] [w1]"
      "matches (Group non_space) [ty] ty" "matches (Atom is_space) [] [w2]" "matches (Many any_char) [] b"
      "matches (Atom opener) [] [w3]" "matches (Group (Some_of number_char)) [v] v" "matches (Many any_char) [] c"
    by (auto simp: non_space_def)
  show "matches output_regex gs L"
    unfolding L output_regex_def Seq.simps by (intro matches.conc m) simp_all
qed

lemma inner_not: "list_all inner_char s \<Longrightarrow> c = CHR '']'' \<or> c = CHR ''{'' \<Longrightarrow> c \<notin> set s"
  by (auto simp: list_all_iff inner_char_def)

lemma inner_any: "list_all inner_char s \<Longrightarrow> list_all any_char s"
  by (auto simp: list_all_iff inner_char_def any_char_def)

lemma class_simps [simp]:
  "is_space (CHR '' '')" "opener (CHR '' '')" "opener (CHR ''['')" "opener c \<Longrightarrow> \<not> number_char c"
  "any_char (CHR '']'')" "\<not> number_char (CHR ''['')"
  by (auto simp: is_space_def opener_def any_char_def number_char_def is_digit_def)

lemma digit_no_space: "is_digit c \<Longrightarrow> \<not> is_space c \<and> c \<noteq> CHR ''{''" "\<not> is_space (CHR ''-'')"
  by (auto simp: is_space_def is_digit_def)

lemma itoa_no_space: "list_all (\<lambda>c. \<not> is_space c) (itoa i)" "itoa i \<noteq> []" "CHR ''{'' \<notin> set (itoa i)"
  using nat_digits_all digit_no_space by (auto simp: itoa_def list_all_iff)

lemma output_matchI:
  assumes "L = a @ ''Metric: {'' @ k @ w1 # ty @ w2 # b @ w3 # v @ CHR '']'' # c"
    and "list_all any_char a" "k \<noteq> []" "list_all (\<lambda>c. \<not> is_space c) k" "is_space w1"
    and "ty \<noteq> []" "list_all (\<lambda>c. \<not> is_space c) ty" "is_space w2" "list_all any_char b" "opener w3"
    and "v \<noteq> []" "list_all number_char v" "list_all any_char c"
  shows "matches output_regex [k, ty, v] L"
  unfolding matches_output
  by (rule exI [of _ a], rule exI [of _ k], rule exI [of _ w1], rule exI [of _ ty], rule exI [of _ w2],
      rule exI [of _ b], rule exI [of _ w3], rule exI [of _ v], rule exI [of _ c])
    (intro conjI assms refl)

text \<open>Only one way to read a receipt.\<close>

lemma receipt_groups:
  assumes "\<And>x. list_all inner_char (showf x)" "showf v \<noteq> []" "list_all number_char (showf v)"
    and "Quantiles m = []" "AllValues m = vs @ [v]"
    and "Key m \<noteq> []" "list_all (\<lambda>c. \<not> is_space c \<and> c \<noteq> CHR ''{'') (Key m)"
    and "list_all (\<lambda>c. any_char c \<and> c \<noteq> CHR ''{'') pre"
    and "matches output_regex gs (pre @ receipt showf m)"
  shows "gs = [Key m, itoa (MetricType m), showf v]"
proof -
  obtain A V w D where r: "receipt showf m = ''Metric: {'' @ Key m @ CHR '' '' # itoa (MetricType m) @ CHR '' '' #
       A @ CHR '']'' # V @ w # showf v @ CHR '']'' # D"
    and in_: "list_all inner_char A" "last A = CHR ''[''" "A \<noteq> []" "list_all inner_char V" "list_all inner_char D"
    and w: "w = CHR ''['' \<or> w = CHR '' ''"
    using receipt_parts [OF assms(1,4,5)] .
  have key: "list_all (\<lambda>c. \<not> is_space c) (Key m)" using assms(7) by (auto simp: list_all_iff)
  obtain a k w1 ty w2 b w3 v' c where
    L: "pre @ receipt showf m = a @ ''Metric: {'' @ k @ w1 # ty @ w2 # b @ w3 # v' @ CHR '']'' # c" and
    gs: "gs = [k, ty, v']" and
    p: "k \<noteq> []" "list_all (\<lambda>c. \<not> is_space c) k" "is_space w1" "ty \<noteq> []" "list_all (\<lambda>c. \<not> is_space c) ty"
      "is_space w2" "opener w3" "v' \<noteq> []" "list_all number_char v'"
    using assms(9) unfolding matches_output by blast
  let ?R = "Key m @ CHR '' '' # itoa (MetricType m) @ CHR '' '' # A @ CHR '']'' # V @ w # showf v @ CHR '']'' # D"
  have "CHR ''{'' \<notin> set pre" "CHR ''{'' \<notin> set (Key m)" using assms(7,8) by (auto simp: list_all_iff)
  moreover have "CHR ''{'' \<notin> set A" "CHR ''{'' \<notin> set V" "CHR ''{'' \<notin> set D" "CHR ''{'' \<notin> set (showf v)"
    using inner_not in_ assms(1) by blast+
  ultimately have brace: "CHR ''{'' \<notin> set (pre @ ''Metric: '')" "CHR ''{'' \<notin> set ?R"
    using itoa_no_space(3) w by auto
  have "(pre @ ''Metric: '') @ CHR ''{'' # ?R =
      (a @ ''Metric: '') @ CHR ''{'' # (k @ w1 # ty @ w2 # b @ w3 # v' @ CHR '']'' # c)"
    using L unfolding r by simp
  then have 1: "?R = k @ w1 # ty @ w2 # b @ w3 # v' @ CHR '']'' # c"
    using append_Cons_eq_iff [OF brace] by blast
  then have 2: "k = Key m"
    "ty @ w2 # b @ w3 # v' @ CHR '']'' # c = itoa (MetricType m) @ CHR '' '' # A @ CHR '']'' # V @ w # showf v @ CHR '']'' # D"
    using run_unique [OF 1 key p(2)] p(3) by auto
  have 3: "ty = itoa (MetricType m)"
    "b @ w3 # v' @ CHR '']'' # c = A @ CHR '']'' # V @ w # showf v @ CHR '']'' # D"
    using run_unique [OF 2(2) p(5) itoa_no_space(1)] p(6) by auto
  have 4: "(b @ w3 # v') @ CHR '']'' # c = A @ CHR '']'' # (V @ w # showf v) @ CHR '']'' # D"
    using 3(2) by simp
  have br: "CHR '']'' \<notin> set A" "CHR '']'' \<notin> set V" "CHR '']'' \<notin> set (showf v)" "CHR '']'' \<notin> set D"
    using inner_not in_ assms(1) by blast+
  then have "CHR '']'' \<notin> set (V @ w # showf v)" using w by auto
  then consider "b @ w3 # v' = A" | "b @ w3 # v' = A @ CHR '']'' # V @ w # showf v"
    using cut_at_two [OF 4 br(1) _ br(4)] by blast
  then have "v' = showf v"
  proof cases
    case 1
    then have "last v' = CHR ''[''" using in_(2) p(8) by (metis last.simps last_appendR list.distinct(1))
    then show ?thesis using p(8,9) by (metis class_simps(6) last_in_set list_all_iff)
  next
    case 2
    then have e: "b @ w3 # v' = (A @ CHR '']'' # V) @ w # showf v" by simp
    have "\<not> number_char w3" "\<not> number_char w" using p(7) w by auto
    then show ?thesis by (rule run_unique_end [OF e p(9) assms(3)])
  qed
  then show ?thesis using gs 2 3 by simp
qed

text \<open>
  Fact.  The log line of a receipt counts as the message that caused it: whatever stands
  before it, the key and type of the metric and the last of its values are recovered, as long as
  that value is printed in digits (a large value is printed with an exponent, and is missed).
\<close>
theorem output_key_receipt:
  assumes "\<And>x. list_all inner_char (showf x)" "showf v \<noteq> []" "list_all number_char (showf v)"
    and "Quantiles m = []" "AllValues m = vs @ [v]"
    and "Key m \<noteq> []" "list_all (\<lambda>c. \<not> is_space c \<and> c \<noteq> CHR ''{'') (Key m)"
    and "list_all (\<lambda>c. any_char c \<and> c \<noteq> CHR ''{'') pre"
  shows "output_key (pre @ receipt showf m) =
    Some (sent_message (Key m) (showf v) (type_of_code (itoa (MetricType m))))"
proof -
  obtain A V w D where r: "receipt showf m = ''Metric: {'' @ Key m @ CHR '' '' # itoa (MetricType m) @ CHR '' '' #
       A @ CHR '']'' # V @ w # showf v @ CHR '']'' # D"
    and in_: "list_all inner_char A" "last A = CHR ''[''" "A \<noteq> []" "list_all inner_char V" "list_all inner_char D"
    and w: "w = CHR ''['' \<or> w = CHR '' ''"
    using receipt_parts [OF assms(1,4,5)] .
  have key: "list_all (\<lambda>c. \<not> is_space c) (Key m)" using assms(7) by (auto simp: list_all_iff)
  have "list_all any_char pre" using assms(8) by (auto simp: list_all_iff)
  then have "matches output_regex [Key m, itoa (MetricType m), showf v] (pre @ receipt showf m)"
    using assms(2,3,6) key itoa_no_space w inner_any in_
    by (intro output_matchI [where a = pre and b = "A @ CHR '']'' # V" and ?w1.0 = "CHR '' ''" and ?w2.0 = "CHR '' ''" and
          ?w3.0 = w and c = D]) (auto simp: r)
  moreover have "gs = [Key m, itoa (MetricType m), showf v]" if "matches output_regex gs (pre @ receipt showf m)" for gs
    by (rule receipt_groups [OF assms that])
  ultimately have "full_match output_regex (pre @ receipt showf m) = Some [Key m, itoa (MetricType m), showf v]"
    by (rule full_match_unique)
  then show ?thesis by (simp add: output_key_def sent_message_def)
qed

text \<open>The one daemon line of a counter that got its second value.\<close>

definition sample_receipt :: Metric where
  "sample_receipt = new_Metric\<lparr>Key := ''a.b'', MetricType := MetricTypeTimer, AllValues := [1, 1]\<rparr>"

theorem output_key_receipt_witness:
  "output_key (''INFO: relay.go:302: '' @ receipt (\<lambda>_. ''1'') sample_receipt) = Some ''a.b:1|ms''"
proof -
  have "output_key (''INFO: relay.go:302: '' @ receipt (\<lambda>_. ''1'') sample_receipt) =
      Some (sent_message (Key sample_receipt) ''1'' (type_of_code (itoa (MetricType sample_receipt))))"
    by (rule output_key_receipt [where vs = "[1]" and v = 1])
      (simp_all add: sample_receipt_def new_Metric_def inner_char_def number_char_def is_digit_def is_space_def any_char_def)
  also have "itoa (MetricType sample_receipt) = ''3''"
    by (simp add: sample_receipt_def MetricTypeTimer_def itoa_def) code_simp
  finally show ?thesis by (simp add: sample_receipt_def sent_message_def type_of_code_def)
qed

subsection \<open>What the counts are\<close>

definition tally :: "string list \<Rightarrow> counts" where
  "tally ks k = (if k \<in> set ks then Some (int (count_list ks k)) else None)"

lemma count_tally [simp]: "count_of (tally ks) k = int (count_list ks k)"
  by (simp add: tally_def count_of_def count_list_0_iff)

lemma count_line_tally:
  "count_line found (tally ks, int (length ks)) =
     (case found of None \<Rightarrow> (tally ks, int (length ks)) | Some k \<Rightarrow> (tally (ks @ [k]), int (length (ks @ [k]))))"
  by (cases found) (auto simp: count_line_def tally_def fun_eq_iff count_list_0_iff)

text \<open>The two files are counted independently of each other.\<close>

lemma count_lines_fold:
  "count_lines fi fo is ls (a, b) =
     (fold (\<lambda>l. count_line (fi l)) is a, fold (\<lambda>l. count_line (fo l)) ls b)"
  by (induction fi fo "is" ls "(a, b)" arbitrary: a b rule: count_lines.induct) auto

lemma fold_count_line:
  "fold (\<lambda>l. count_line (f l)) ls (tally ks, int (length ks)) =
     (tally (ks @ List.map_filter f ls), int (length (ks @ List.map_filter f ls)))"
proof (induction ls arbitrary: ks)
  case (Cons l ls)
  show ?case
    using Cons [of ks] Cons [of "ks @ [the (f l)]"]
    by (cases "f l") (simp_all add: count_line_tally map_filter_simps)
qed (simp add: map_filter_simps)

lemma count_from_start:
  "fold (\<lambda>l. count_line (f l)) ls (Map.empty, 0) =
     (tally (List.map_filter f ls), int (length (List.map_filter f ls)))"
proof -
  have "Map.empty = tally []" by (simp add: tally_def fun_eq_iff)
  then show ?thesis using fold_count_line [of f ls "[]"] by simp
qed

subsection \<open>The loop over the counts\<close>

definition agree :: "comparison \<Rightarrow> string \<Rightarrow> bool" where
  "agree c k \<longleftrightarrow> count_of (inputStrings c) k = count_of (outputStrings c) k"

lemma agree_step: "k' \<noteq> k \<Longrightarrow> agree (compare_step k c) k' = agree c k'"
  by (simp add: agree_def compare_step_def count_of_def)

lemma compare_loop:
  "distinct ks \<Longrightarrow> fold compare_step ks c =
     \<lparr>inputStrings = (\<lambda>k. if k \<in> set ks \<and> agree c k then None else inputStrings c k),
      outputStrings = (\<lambda>k. if k \<in> set ks \<and> agree c k then None else outputStrings c k),
      matchCount = matchCount c + int (length (filter (agree c) ks)),
      errorCount = errorCount c + int (length (filter (\<lambda>k. \<not> agree c k) ks))\<rparr>"
proof (induction ks arbitrary: c)
  case (Cons k ks)
  have same: "agree (compare_step k c) k' = agree c k'" if "k' \<in> set ks" for k'
    using agree_step [of k' k c] that Cons.prems by auto
  have f: "filter (agree (compare_step k c)) ks = filter (agree c) ks"
    "filter (\<lambda>k'. \<not> agree (compare_step k c) k') ks = filter (\<lambda>k. \<not> agree c k) ks"
    using same by (auto intro: filter_cong)
  have step: "compare_step k c =
     (if agree c k then c\<lparr>matchCount := matchCount c + 1, inputStrings := (inputStrings c)(k := None),
             outputStrings := (outputStrings c)(k := None)\<rparr>
      else c\<lparr>errorCount := errorCount c + 1\<rparr>)"
    by (simp add: compare_step_def agree_def)
  have "fold compare_step ks (compare_step k c) =
     \<lparr>inputStrings = (\<lambda>k'. if k' \<in> set ks \<and> agree c k' then None else inputStrings (compare_step k c) k'),
      outputStrings = (\<lambda>k'. if k' \<in> set ks \<and> agree c k' then None else outputStrings (compare_step k c) k'),
      matchCount = matchCount (compare_step k c) + int (length (filter (agree c) ks)),
      errorCount = errorCount (compare_step k c) + int (length (filter (\<lambda>k. \<not> agree c k) ks))\<rparr>"
    using Cons.IH [of "compare_step k c"] Cons.prems f same by (auto simp: fun_eq_iff)
  then show ?case
    using Cons.prems by (auto simp: step fun_eq_iff)
qed simp

text \<open>The order of the loop: the keys of the map, each once.\<close>

definition ranges :: "string list \<Rightarrow> counts \<Rightarrow> bool" where
  "ranges ks m \<longleftrightarrow> distinct ks \<and> set ks = dom m"

definition input_keys :: "(string \<Rightarrow> re option) \<Rightarrow> string \<Rightarrow> string \<Rightarrow> string list" where
  "input_keys compile token file = List.map_filter (input_key compile token) (split_on (CHR 0x0A) file)"

definition output_keys :: "string \<Rightarrow> string list" where
  "output_keys file = List.map_filter output_key (split_on (CHR 0x0A) file)"

lemma dom_tally: "dom (tally ks) = set ks"
  by (auto simp: tally_def dom_def)

lemma length_filter_card:
  "distinct xs \<Longrightarrow> length (filter P xs) = card {x \<in> set xs. P x}"
  by (metis distinct_card distinct_filter set_filter)

lemma log_compare_counts:
  assumes "ranges (order (tally (input_keys compile token inputString))) (tally (input_keys compile token inputString))"
    and "ins = input_keys compile token inputString" "outs = output_keys outputString"
  shows "log_compare compile token order (Some inputString) (Some outputString) =
    Some (int (length ins), int (length outs),
      \<lparr>inputStrings = (\<lambda>k. if count_list ins k = count_list outs k then None else tally ins k),
       outputStrings = (\<lambda>k. if k \<in> set ins \<and> count_list ins k = count_list outs k then None else tally outs k),
       matchCount = int (card {k \<in> set ins. count_list ins k = count_list outs k}),
       errorCount = int (card {k \<in> set ins. count_list ins k \<noteq> count_list outs k})\<rparr>)"
proof -
  have o: "distinct (order (tally ins))" "set (order (tally ins)) = set ins"
    using assms(1,2) dom_tally [of ins] by (auto simp: ranges_def)
  have n: "tally ins k = None" if "k \<notin> set ins" for k using that by (simp add: tally_def)
  show ?thesis
    unfolding log_compare_def count_lines_fold count_from_start
    using compare_loop [OF o(1)] o n assms(2,3)
    by (auto simp: input_keys_def [symmetric] output_keys_def [symmetric] agree_def length_filter_card fun_eq_iff)
qed

text \<open>
  Property C24.  What the comparison reports, in whatever order the map is ranged over: it finds a
  message in the input without its equal in the output, or the other way round, exactly when the
  two files do not hold the same messages equally often; matches and errors add up to the
  distinct messages of the input.  The messages of a file are what \<open>input_key\<close> and \<open>output_key\<close> find
  in its lines.
\<close>
theorem log_compare_result:
  assumes "ranges (order (tally (input_keys compile token inputString))) (tally (input_keys compile token inputString))"
    and "log_compare compile token order (Some inputString) (Some outputString) = Some (i, l, c)"
  shows "i = int (length (input_keys compile token inputString)) \<and> l = int (length (output_keys outputString)) \<and>
    matchCount c + errorCount c = int (card (set (input_keys compile token inputString))) \<and>
    (errorCount c = 0 \<and> outputStrings c = Map.empty \<longleftrightarrow>
      mset (input_keys compile token inputString) = mset (output_keys outputString)) \<and>
    (inputStrings c = Map.empty \<longleftrightarrow> errorCount c = 0)"
proof -
  let ?ins = "input_keys compile token inputString" and ?outs = "output_keys outputString"
  let ?same = "\<lambda>k. count_list ?ins k = count_list ?outs k"
  have c: "i = int (length ?ins)" "l = int (length ?outs)"
    "inputStrings c = (\<lambda>k. if ?same k then None else tally ?ins k)"
    "outputStrings c = (\<lambda>k. if k \<in> set ?ins \<and> ?same k then None else tally ?outs k)"
    "matchCount c = int (card {k \<in> set ?ins. ?same k})" "errorCount c = int (card {k \<in> set ?ins. \<not> ?same k})"
    using assms(2) log_compare_counts [where order = order, OF assms(1) refl refl, of outputString] by auto
  have split: "card (set ?ins) = card {k \<in> set ?ins. ?same k} + card {k \<in> set ?ins. \<not> ?same k}"
    by (subst card_Un_disjoint [symmetric]) (auto intro: arg_cong [where f = card])
  have errs: "errorCount c = 0 \<longleftrightarrow> (\<forall>k \<in> set ?ins. ?same k)" by (auto simp: c(6))
  have none: "errorCount c = 0 \<and> outputStrings c = Map.empty \<longleftrightarrow> (\<forall>k. ?same k)"
    by (auto simp: errs c(4) tally_def fun_eq_iff count_list_0_iff split: if_splits) (metis count_list_0_iff)+
  have "(\<forall>k. ?same k) \<longleftrightarrow> mset ?ins = mset ?outs"
    by (simp add: multiset_eq_iff count_mset count_list_eq_length_filter)
  moreover have "inputStrings c = Map.empty \<longleftrightarrow> errorCount c = 0"
    by (auto simp: errs c(3) tally_def fun_eq_iff split: if_splits)
  ultimately show ?thesis using c(1,2,5,6) split none by simp
qed

lemma output_key_Nil: "output_key [] = None"
  using full_match_iff [of output_regex "[]"] by (auto simp: output_key_def matches_output)

theorem log_compare_result_witness:
  "\<exists>c. log_compare Map.empty [] (\<lambda>m. [''a:1|c'']) (Some ''a:1|c'') (Some []) = Some (1, 0, c) \<and>
     \<not> (errorCount c = 0 \<and> outputStrings c = Map.empty)"
proof -
  have f: "sent_fields ''a'' ''1'' ''c''"
    by (simp add: sent_fields_def is_space_def number_char_def is_digit_def)
  have "input_key Map.empty [] ''a:1|c'' = Some ''a:1|c''"
    using input_key_sent [OF f, where token = "[]" and compile = Map.empty] by (simp add: sent_message_def)
  then have k: "input_keys Map.empty [] ''a:1|c'' = [''a:1|c'']"
    by (simp add: input_keys_def map_filter_simps)
  have o: "output_keys [] = []" by (simp add: output_keys_def map_filter_simps output_key_Nil)
  have r: "ranges [''a:1|c''] (tally (input_keys Map.empty [] ''a:1|c''))"
    by (simp add: ranges_def dom_tally k)
  obtain c where c: "log_compare Map.empty [] (\<lambda>m. [''a:1|c'']) (Some ''a:1|c'') (Some []) = Some (1, 0, c)"
    using log_compare_counts [where order = "\<lambda>m. [''a:1|c'']", OF r refl refl, of "[]"] k o by simp
  from log_compare_result [where order = "\<lambda>m. [''a:1|c'']", OF r c] show ?thesis using k o c by auto
qed

end
