(* ===== verification/Test_Run.thy ===== *)
theory Test_Run
  imports Log_Compare Load_Test Aggregation_Facts
begin

text \<open>
  A test run as the tools intend it: the load test logs and sends a message, the daemon accepts
  it, merges it into its store and logs a receipt, and the comparison counts both lines.
\<close>

lemma type_codes: "itoa 0 = ''0''" "itoa 1 = ''1''" "itoa 2 = ''2''" "itoa 3 = ''3''"
  by code_simp+

lemma type_of_code_back: "getMetricType w = (t, True) \<Longrightarrow> type_of_code (itoa t) = w"
  by (auto simp: getMetricType_def type_of_code_def type_codes MetricTypeCounter_def MetricTypeGauge_def
      MetricTypeSet_def MetricTypeTimer_def split: if_splits)

text \<open>\<open>%v\<close> prints a small whole number as an integer, and no number with a brace, a bracket or a
  line end.\<close>

definition prints_numbers :: "(f64 \<Rightarrow> string) \<Rightarrow> bool" where
  "prints_numbers showf \<longleftrightarrow>
     (\<forall>x. list_all inner_char (showf x)) \<and> (\<forall>n < 1000. showf (Fin (of_nat n)) = itoa (int n))"

text \<open>An entry of the store that a metric of this key and type can be merged into.\<close>

definition fits_store :: "metric_map \<Rightarrow> Metric \<Rightarrow> bool" where
  "fits_store store m =
     (case store (Key m) of None \<Rightarrow> True
      | Some e \<Rightarrow> Key e = Key m \<and> MetricType e = MetricType m \<and> Quantiles e = [])"

lemma itoa_number: "list_all number_char (itoa (int n))" "itoa (int n) \<noteq> []"
  using nat_digits_all by (auto simp: itoa_def list_all_iff number_char_def)

lemma random_key_chars:
  "random_name w \<Longrightarrow> list_all (\<lambda>c. \<not> is_space c \<and> c \<noteq> CHR ''{'') (''statsgod.test.'' @ w)"
  by (auto simp: random_name_def list_all_iff letter_def Let_def is_space_def)

lemma stored_sample:
  assumes "fits_store store (parsed_metric key v t rate)"
  obtains e vs where "AggregateMetric store (parsed_metric key v t rate) key = Some e" "Key e = key"
    "MetricType e = t" "Quantiles e = []" "AllValues e = vs @ [v]"
proof (cases "store key")
  case None
  show ?thesis
    by (rule that [of "parsed_metric key v t rate" "[]"])
      (simp_all add: AggregateMetric_def None parsed_metric_def new_Metric_def)
next
  case (Some e)
  then have e: "Key e = key" "MetricType e = t" "Quantiles e = []"
    using assms by (auto simp: fits_store_def parsed_metric_def new_Metric_def)
  show ?thesis
    by (rule that [of "merge_metric e (parsed_metric key v t rate)" "AllValues e"])
      (simp_all add: AggregateMetric_def Some e parsed_metric_def new_Metric_def,
       simp add: merge_metric_def Let_def e)
qed

text \<open>
  Property C10.  A message of the load test that the daemon accepts is found by the comparison: the
  line that the load test logs for it and the receipt that the daemon logs for it count as the same
  message, whatever else is in the store (an entry of the same key has the same type) and whatever
  the logger puts before the receipt.  The token, if there is one, is matched literally by the pattern made of it.
\<close>
theorem test_run_matches:
  assumes "random_ok rand" "\<forall>n. 0 < n \<longrightarrow> intn n < n" "auth_takes auth token"
    and "m \<in> set (generateMetricNames flags rand numMetrics [] (token_prefix token))"
    and "token = [] \<or> compile token = Some (Lit token)"
    and "accepted_metric auth (stringValue intn m) = Some p" "fits_store store p"
    and "prints_numbers showf" "list_all (\<lambda>c. any_char c \<and> c \<noteq> CHR ''{'') pre"
  shows "\<exists>e. AggregateMetric store p (Key p) = Some e \<and>
    input_key compile token (stringValue intn m) \<noteq> None \<and>
    output_key (pre @ receipt showf e) = input_key compile token (stringValue intn m)"
proof -
  obtain i where i: "m = generate_metric flags rand (token_prefix token) i"
    using assms(4) by (auto simp: generateMetricNames_def)
  define key where "key = ''statsgod.test.'' @ randString rand i"
  have name: "random_name (randString rand i)" using assms(1) by (simp add: random_ok_def)
  have key: "loadKey m = token_prefix token @ key" "client_key key" "key \<noteq> []"
    "list_all (\<lambda>c. \<not> is_space c \<and> c \<noteq> CHR ''{'') key"
    using i random_key [OF name] random_key_chars [OF name] by (auto simp: generate_metric_def key_def)
  have t: "loadType m \<in> {''c'', ''g'', ''ms'', ''s''}" unfolding i by (rule generated_type [OF assms(1)])
  obtain v where v: "v < 1000" "metric_value intn (loadType m) = int v"
    using metric_value_small [OF assms(2)] by blast
  let ?code = "fst (getMetricType (loadType m))" and ?val = "Fin (of_nat v) :: f64"
  have line: "stringValue intn m = token_prefix token @ sent_message key (itoa (int v)) (loadType m)"
    by (simp add: stringValue_def sent_message_def key v)
  have p: "p = parsed_metric key ?val ?code 1"
    using accepted_with_token [OF assms(3) key(2) v(1) type_known [OF t]] assms(6) line
    by (simp add: token_prefix_def sent_message_def client_message_def)
  have fields: "sent_fields key (itoa (int v)) (loadType m)"
    using key(3,4) itoa_number t by (auto simp: sent_fields_def list_all_iff)
  have inp: "input_key compile token (stringValue intn m) = Some (sent_message key (itoa (int v)) (loadType m))"
    using input_key_sent [OF fields, where token = token and compile = compile] assms(5)
    unfolding line token_prefix_def by auto
  obtain e vs where e: "AggregateMetric store p key = Some e" "Key e = key" "MetricType e = ?code" "Quantiles e = []"
    "AllValues e = vs @ [?val]"
    using stored_sample [of store key ?val ?code 1] assms(7) unfolding p by blast
  have val: "showf ?val = itoa (int v)" using assms(8) v(1) by (simp add: prints_numbers_def)
  have "output_key (pre @ receipt showf e) = Some (sent_message (Key e) (showf ?val) (type_of_code (itoa (MetricType e))))"
    using assms(8,9) e itoa_number [of v] key(3,4) val
    by (intro output_key_receipt [where vs = vs]) (auto simp: prints_numbers_def)
  then have "output_key (pre @ receipt showf e) = Some (sent_message key (itoa (int v)) (loadType m))"
    using type_of_code_back [OF type_known [OF t]] by (simp add: e val)
  moreover have "Key p = key" by (simp add: p parsed_metric_def new_Metric_def)
  ultimately show ?thesis using e(1) inp by auto
qed

definition whole_number :: "f64 \<Rightarrow> string" where
  "whole_number x = (case x of Fin q \<Rightarrow> itoa \<lfloor>q\<rfloor> | _ \<Rightarrow> ''NaN'')"

theorem test_run_matches_witness:
  "\<exists>m p e. m \<in> set (generateMetricNames demo_flags (demo_random\<lparr>randString := \<lambda>_. replicate 20 (CHR ''x'')\<rparr>) 1 [] []) \<and>
     accepted_metric AuthNone (stringValue (\<lambda>_. 0) m) = Some p \<and> AggregateMetric Map.empty p (Key p) = Some e \<and>
     output_key (''INFO: '' @ receipt whole_number e) = input_key Map.empty [] (stringValue (\<lambda>_. 0) m)"
proof -
  let ?rand = "demo_random\<lparr>randString := \<lambda>_. replicate 20 (CHR ''x'')\<rparr>"
  let ?m = "generate_metric demo_flags ?rand (token_prefix []) 0"
  have r: "random_ok ?rand" by (simp add: random_ok_def random_name_def demo_random_def list_all_iff letter_def)
  have m: "?m \<in> set (generateMetricNames demo_flags ?rand 1 [] (token_prefix []))"
    by (simp add: generateMetricNames_def)
  obtain p where p: "accepted_metric AuthNone (stringValue (\<lambda>_. 0) ?m) = Some p"
    using load_message_accepted [OF r _ _ m, of "\<lambda>_. 0" AuthNone] by auto
  have "prints_numbers whole_number"
    by (auto simp: prints_numbers_def whole_number_def inner_char_def split: f64.splits)
  from test_run_matches [OF r _ _ m _ p, of Map.empty Map.empty whole_number "''INFO: ''"] this p m show ?thesis
    by (auto simp: fits_store_def any_char_def token_prefix_def)
qed

end
